(* ===== verification/Prelude.thy ===== *)
theory Prelude imports Complex_Main "HOL-Library.Char_ord" "HOL-Library.List_Lexorder" "HOL-Library.Sublist" begin

text \<open>
  Shared ground of the development: the text model, the list scans the components share, the
  collections of rewrite rules and the interfaces (locales) that more than one component
  implements.

  A Python \<open>str\<close> is a HOL \<open>string\<close> read as ASCII text. Python's float arithmetic is exact
  arithmetic on \<open>real\<close>: rounding to 53 bits is not modelled. A dictionary lookup that can miss
  is an \<open>option\<close>.
\<close>

named_theorems row_simps \<open>projections and updates of registry rows\<close>
named_theorems door_simps \<open>the admission doors of the stores\<close>
named_theorems law_simps \<open>the evaluator's coordinates\<close>
named_theorems kairos_simps \<open>the impulse policy and its scheduler\<close>

section \<open>Characters and text\<close>

definition code :: "char \<Rightarrow> int" where
  "code c = of_char c"

definition is_space :: "char \<Rightarrow> bool" where
  "is_space c \<longleftrightarrow> code c = 32 \<or> (9 \<le> code c \<and> code c \<le> 13) \<or> (28 \<le> code c \<and> code c \<le> 31)"

definition is_digit :: "char \<Rightarrow> bool" where
  "is_digit c \<longleftrightarrow> 48 \<le> code c \<and> code c \<le> 57"

definition is_lower :: "char \<Rightarrow> bool" where
  "is_lower c \<longleftrightarrow> 97 \<le> code c \<and> code c \<le> 122"

definition is_upper :: "char \<Rightarrow> bool" where
  "is_upper c \<longleftrightarrow> 65 \<le> code c \<and> code c \<le> 90"

definition is_alnum :: "char \<Rightarrow> bool" where
  "is_alnum c \<longleftrightarrow> is_lower c \<or> is_digit c \<or> is_upper c"

definition is_wordc :: "char \<Rightarrow> bool" where
  "is_wordc c \<longleftrightarrow> is_alnum c \<or> c = CHR ''_''"

definition lower_char :: "char \<Rightarrow> char" where
  "lower_char c = (if is_upper c then char_of (code c + 32) else c)"

definition lower :: "string \<Rightarrow> string" where
  "lower s = map lower_char s"

definition lstrip :: "string \<Rightarrow> string" where
  "lstrip s = dropWhile is_space s"

definition rstrip :: "string \<Rightarrow> string" where
  "rstrip s = rev (dropWhile is_space (rev s))"

definition strip :: "string \<Rightarrow> string" where
  "strip s = rstrip (lstrip s)"

definition startswith :: "string \<Rightarrow> string \<Rightarrow> bool" where
  "startswith s p \<longleftrightarrow> take (length p) s = p"

definition endswith :: "string \<Rightarrow> string \<Rightarrow> bool" where
  "endswith s p \<longleftrightarrow> startswith (rev s) (rev p)"

definition contains :: "string \<Rightarrow> string \<Rightarrow> bool" where
  "contains s p \<longleftrightarrow> (\<exists>k \<in> set [0..<Suc (length s)]. startswith (drop k s) p)"

fun split_on :: "('a \<Rightarrow> bool) \<Rightarrow> 'a list \<Rightarrow> 'a list list" where
  "split_on P [] = [[]]"
| "split_on P (x # xs) =
     (if P x then [] # split_on P xs
      else (case split_on P xs of [] \<Rightarrow> [[x]] | y # ys \<Rightarrow> (x # y) # ys))"

text \<open>\<open>runs P s\<close> is \<open>re.findall\<close> of a class repeated at least once: the maximal runs of \<open>P\<close>.\<close>

definition runs :: "('a \<Rightarrow> bool) \<Rightarrow> 'a list \<Rightarrow> 'a list list" where
  "runs P s = filter (\<lambda>w. w \<noteq> []) (split_on (\<lambda>c. \<not> P c) s)"

definition py_split :: "string \<Rightarrow> string list" where
  "py_split s = runs (\<lambda>c. \<not> is_space c) s"

definition join :: "string \<Rightarrow> string list \<Rightarrow> string" where
  "join sep ws = (case ws of [] \<Rightarrow> [] | w # rest \<Rightarrow> w @ concat (map (\<lambda>v. sep @ v) rest))"

definition nl :: string where
  "nl = [CHR 0x0A]"

definition dq :: string where
  "dq = [CHR 0x22]"

lemma code_inject [simp]: "code a = code b \<longleftrightarrow> a = b"
  by (simp add: code_def)

lemma length_lower [simp]: "length (lower s) = length s"
  by (simp add: lower_def)

lemma lower_append [simp]: "lower (s @ t) = lower s @ lower t"
  by (simp add: lower_def)

lemma startswith_append [simp]: "startswith (p @ s) p"
  by (simp add: startswith_def)

lemma startswith_iff: "startswith s p \<longleftrightarrow> (\<exists>t. s = p @ t)"
  by (metis append_take_drop_id startswith_append startswith_def)

lemma startswith_Nil [simp]: "startswith s []"
  by (simp add: startswith_def)

lemma split_on_neq_Nil [simp]: "split_on P xs \<noteq> []"
  by (induction xs) (auto split: list.splits)

lemma split_on_chars: "w \<in> set (split_on P xs) \<Longrightarrow> x \<in> set w \<Longrightarrow> x \<in> set xs \<and> \<not> P x"
proof (induction xs arbitrary: w)
  case (Cons a xs)
  obtain y ys where sp: "split_on P xs = y # ys"
    by (meson neq_Nil_conv split_on_neq_Nil)
  have IH: "v \<in> set (y # ys) \<Longrightarrow> x \<in> set v \<Longrightarrow> x \<in> set xs \<and> \<not> P x" for v
    using Cons.IH [of v] sp by auto
  from Cons.prems show ?case
    using IH [of y] IH [of w] by (cases "P a") (auto simp: sp)
qed simp

lemma split_on_none: "(\<And>x. x \<in> set xs \<Longrightarrow> \<not> P x) \<Longrightarrow> split_on P xs = [xs]"
  by (induction xs) auto

lemma runs_neq_Nil: "w \<in> set (runs P s) \<Longrightarrow> w \<noteq> []"
  by (simp add: runs_def)

lemma runs_chars: "w \<in> set (runs P s) \<Longrightarrow> x \<in> set w \<Longrightarrow> x \<in> set s \<and> P x"
  by (auto simp: runs_def dest: split_on_chars)

lemma strip_Nil [simp]: "strip [] = []"
  by (simp add: strip_def lstrip_def rstrip_def)

lemma lstrip_first: "lstrip s = c # t \<Longrightarrow> \<not> is_space c"
  by (metis hd_dropWhile list.distinct(1) list.sel(1) lstrip_def)

lemma rstrip_last: "rstrip s = t @ [c] \<Longrightarrow> \<not> is_space c"
  by (metis append_eq_conv_conj hd_dropWhile list.sel(1) rev.simps(2) rev_is_Nil_conv
      rev_swap rstrip_def snoc_eq_iff_butlast)

lemma dropWhile_idem: "dropWhile P (dropWhile P xs) = dropWhile P xs"
  by (induction xs) auto

lemma rstrip_prefix: "\<exists>u. s = rstrip s @ u"
proof -
  have "rev s = takeWhile is_space (rev s) @ dropWhile is_space (rev s)" by simp
  then have "s = rev (dropWhile is_space (rev s)) @ rev (takeWhile is_space (rev s))"
    by (metis rev_append rev_rev_ident)
  then show ?thesis by (auto simp: rstrip_def)
qed

lemma lstrip_rstrip_id: "lstrip s = s \<Longrightarrow> lstrip (rstrip s) = rstrip s"
proof (cases "rstrip s")
  case (Cons c t)
  assume "lstrip s = s"
  moreover obtain u where "s = rstrip s @ u" using rstrip_prefix by blast
  ultimately have "\<not> is_space c" using Cons by (metis append_Cons lstrip_first)
  with Cons show ?thesis by (simp add: lstrip_def)
qed (simp add: lstrip_def)

lemma strip_idem [simp]: "strip (strip s) = strip s"
proof -
  have "lstrip (lstrip s) = lstrip s" by (simp add: lstrip_def dropWhile_idem)
  then have "lstrip (rstrip (lstrip s)) = rstrip (lstrip s)" by (rule lstrip_rstrip_id)
  moreover have "rstrip (rstrip t) = rstrip t" for t by (simp add: rstrip_def dropWhile_idem)
  ultimately show ?thesis by (simp add: strip_def)
qed

lemma strip_ends_id: "\<not> is_space (hd s) \<Longrightarrow> \<not> is_space (last s) \<Longrightarrow> s \<noteq> [] \<Longrightarrow> strip s = s"
proof -
  assume h: "\<not> is_space (hd s)" "\<not> is_space (last s)" "s \<noteq> []"
  then have "lstrip s = s" by (cases s) (simp_all add: lstrip_def)
  moreover have "hd (rev s) = last s" using h by (simp add: hd_rev)
  then have "dropWhile is_space (rev s) = rev s" using h
    by (metis dropWhile.simps(2) list.collapse rev_is_Nil_conv)
  ultimately show ?thesis by (simp add: strip_def rstrip_def)
qed

section \<open>Lines\<close>

text \<open>\<open>s.split(newline)\<close>\<close>

definition nl_lines :: "string \<Rightarrow> string list" where
  "nl_lines s = split_on (\<lambda>c. c = CHR 0x0A) s"

lemma nl_lines_Cons:
  "nl_lines (c # s) =
     (if c = CHR 0x0A then [] # nl_lines s else (c # hd (nl_lines s)) # tl (nl_lines s))"
  by (simp add: nl_lines_def split: list.split)

lemma nl_lines_Nil [simp]: "nl_lines [] = [[]]" "nl_lines s \<noteq> []"
  by (simp_all add: nl_lines_def)

lemma join_prose: "join nl (nl_lines s) = s"
proof (induction s)
  case (Cons c s)
  then show ?case by (cases "nl_lines s") (auto simp: nl_lines_Cons join_def nl_def)
qed (simp add: join_def)

lemma prose_join: "ls \<noteq> [] \<Longrightarrow> \<forall>l \<in> set ls. CHR 0x0A \<notin> set l \<Longrightarrow> nl_lines (join nl ls) = ls"
proof (induction ls)
  case (Cons l ls)
  have app: "nl_lines (l @ CHR 0x0A # s) = l # nl_lines s" if "CHR 0x0A \<notin> set l" for l s
    using that by (induction l) (auto simp: nl_lines_Cons)
  have one: "nl_lines l = [l]" if "CHR 0x0A \<notin> set l" for l
    using that by (induction l) (auto simp: nl_lines_Cons)
  show ?case
  proof (cases ls)
    case Nil
    then show ?thesis using Cons.prems one [of l] by (simp add: join_def)
  next
    case (Cons m ms)
    have "join nl (l # ls) = l @ CHR 0x0A # join nl ls" by (simp add: Cons join_def nl_def)
    then show ?thesis using app [of l "join nl ls"] Cons.IH Cons.prems Cons by auto
  qed
qed simp

lemma nl_lines_snoc:
  "nl_lines (s @ [c]) =
     (if c = CHR 0x0A then nl_lines s @ [[]] else butlast (nl_lines s) @ [last (nl_lines s) @ [c]])"
proof (induction s)
  case (Cons a s)
  obtain l ls where p: "nl_lines s = l # ls" by (cases "nl_lines s") auto
  show ?case using Cons by (cases ls) (auto simp: nl_lines_Cons p)
qed (simp add: nl_lines_Cons)

lemma strip_space_Cons: "is_space c \<Longrightarrow> strip (c # s) = strip s"
  by (simp add: strip_def lstrip_def)

lemma strip_space_snoc: "is_space c \<Longrightarrow> strip (s @ [c]) = strip s"
proof -
  assume c: "is_space c"
  have r: "rstrip (t @ [c]) = rstrip t" for t using c by (simp add: rstrip_def)
  show "strip (s @ [c]) = strip s"
  proof (cases "lstrip s = []")
    case True
    then have "\<forall>x \<in> set s. is_space x" by (simp add: lstrip_def dropWhile_eq_Nil_conv)
    then have "lstrip (s @ [c]) = []" using c by (simp add: lstrip_def dropWhile_eq_Nil_conv)
    then show ?thesis using True by (simp add: strip_def)
  next
    case False
    then have "lstrip (s @ [c]) = lstrip s @ [c]"
      by (auto simp: lstrip_def dropWhile_append dropWhile_eq_Nil_conv)
    then show ?thesis using r by (simp add: strip_def)
  qed
qed

section \<open>Finding a text in a text\<close>

fun find_at :: "string \<Rightarrow> nat \<Rightarrow> string \<Rightarrow> nat option" where
  "find_at p i [] = (if p = [] then Some i else None)"
| "find_at p i (c # s) = (if startswith (c # s) p then Some i else find_at p (Suc i) s)"

text \<open>\<open>s.find(p, k)\<close>\<close>

definition find_from :: "string \<Rightarrow> nat \<Rightarrow> string \<Rightarrow> nat option" where
  "find_from p k s = (if k \<le> length s then find_at p k (drop k s) else None)"

lemma contains_iff: "contains s p \<longleftrightarrow> (\<exists>i \<le> length s. startswith (drop i s) p)"
  by (auto simp: contains_def less_Suc_eq_le simp del: upt_Suc)

lemma find_at_None: "find_at p i s = None \<Longrightarrow> j \<le> length s \<Longrightarrow> \<not> startswith (drop j s) p"
proof (induction p i s arbitrary: j rule: find_at.induct)
  case (2 p i c s)
  then show ?case by (cases j) (auto split: if_splits)
qed (auto simp: startswith_def split: if_splits)

lemma find_at_Some:
  "find_at p i s = Some k \<Longrightarrow> i \<le> k \<and> k - i \<le> length s \<and> startswith (drop (k - i) s) p
     \<and> (\<forall>j < k - i. \<not> startswith (drop j s) p)"
proof (induction p i s arbitrary: k rule: find_at.induct)
  case (2 p i c s)
  show ?case
  proof (cases "startswith (c # s) p")
    case False
    with 2 have IH: "Suc i \<le> k" "k - Suc i \<le> length s" "startswith (drop (k - Suc i) s) p"
      "\<forall>j < k - Suc i. \<not> startswith (drop j s) p" by auto
    have "\<not> startswith (drop j (c # s)) p" if "j < k - i" for j
      using that IH False by (cases j) auto
    moreover have "k - i = Suc (k - Suc i)" using IH(1) by simp
    ultimately show ?thesis using IH by simp
  qed (use 2 in auto)
qed (auto simp: startswith_def split: if_splits)

lemma find_from_None: "find_from p k s = None \<Longrightarrow> k \<le> j \<Longrightarrow> j \<le> length s \<Longrightarrow> \<not> startswith (drop j s) p"
  using find_at_None [of p k "drop k s" "j - k"] by (auto simp: find_from_def split: if_splits)

lemma find_from_Some:
  "find_from p k s = Some i \<Longrightarrow> k \<le> i \<and> i \<le> length s \<and> (\<forall>j. k \<le> j \<and> j < i \<longrightarrow> \<not> startswith (drop j s) p)"
proof -
  assume f: "find_from p k s = Some i"
  then have k: "k \<le> length s" and a: "find_at p k (drop k s) = Some i" by (auto simp: find_from_def split: if_splits)
  note sp = find_at_Some [OF a]
  have "\<not> startswith (drop j s) p" if "k \<le> j" "j < i" for j
    using sp that by (metis diff_less_mono drop_drop le_add_diff_inverse2)
  then show ?thesis using sp k by auto
qed

section \<open>Scans\<close>

text \<open>The scan \<open>best = -1; for e in xs: if f(e) > best: best, hit = f(e), e\<close>.\<close>

fun best_from :: "('a \<Rightarrow> real) \<Rightarrow> real \<times> 'a option \<Rightarrow> 'a list \<Rightarrow> real \<times> 'a option" where
  "best_from f b [] = b"
| "best_from f b (x # xs) = best_from f (if fst b < f x then (f x, Some x) else b) xs"

lemma best_from_ge: "fst b \<le> fst (best_from f b xs) \<and> (\<forall>x \<in> set xs. f x \<le> fst (best_from f b xs))"
proof (induction xs arbitrary: b)
  case (Cons x xs)
  show ?case using Cons.IH [of "if fst b < f x then (f x, Some x) else b"] by auto
qed simp

lemma best_from_mem:
  "best_from f b xs = (v, Some x) \<Longrightarrow> b = (v, Some x) \<or> (x \<in> set xs \<and> v = f x)"
  by (induction xs arbitrary: b) (auto split: if_splits)

text \<open>Python's \<open>sorted(..., key=lambda x: -x[0])\<close>: stable, highest score first.\<close>

definition rank_desc :: "(real \<times> 'a) list \<Rightarrow> (real \<times> 'a) list" where
  "rank_desc xs = sort_key (\<lambda>p. - fst p) xs"

lemma set_rank_desc [simp]: "set (rank_desc xs) = set xs"
  by (simp add: rank_desc_def)

lemma length_rank_desc [simp]: "length (rank_desc xs) = length xs"
  by (simp add: rank_desc_def)

lemma sorted_rank_desc: "sorted_wrt (\<lambda>p q. fst q \<le> fst p) (rank_desc xs)"
proof -
  have "sorted (map (\<lambda>p. - fst p) (rank_desc xs))"
    by (simp add: rank_desc_def)
  then show ?thesis
    by (simp add: sorted_map)
qed

text \<open>Update the first element that satisfies a predicate, as a loop with \<open>break\<close> does.\<close>

fun update_first :: "('a \<Rightarrow> bool) \<Rightarrow> ('a \<Rightarrow> 'a) \<Rightarrow> 'a list \<Rightarrow> 'a list" where
  "update_first P g [] = []"
| "update_first P g (x # xs) = (if P x then g x # xs else x # update_first P g xs)"

lemma length_update_first [simp]: "length (update_first P g xs) = length xs"
  by (induction xs) auto

lemma map_update_first: "(\<And>x. h (g x) = h x) \<Longrightarrow> map h (update_first P g xs) = map h xs"
  by (induction xs) auto

lemma update_first_none: "\<not> (\<exists>x \<in> set xs. P x) \<Longrightarrow> update_first P g xs = xs"
  by (induction xs) auto

lemma update_first_list_all2:
  "(\<And>x. R x x) \<Longrightarrow> (\<And>x. R x (g x)) \<Longrightarrow> list_all2 R xs (update_first P g xs)"
  by (induction xs) (auto intro: list_all2_refl)

lemma insort_key_map: "insort_key k (f x) (map f xs) = map f (insort_key (\<lambda>y. k (f y)) x xs)"
  by (induction xs) auto

lemma sort_key_map: "sort_key k (map f xs) = map f (sort_key (\<lambda>y. k (f y)) xs)"
  by (induction xs) (simp_all add: insort_key_map)

lemma rank_desc_apsnd: "rank_desc (map (apsnd f) xs) = map (apsnd f) (rank_desc xs)"
  by (simp add: rank_desc_def sort_key_map)

lemma filter_apsnd:
  "(\<And>s e. P (s, f e) = P (s, e)) \<Longrightarrow> filter P (map (apsnd f) xs) = map (apsnd f) (filter P xs)"
  by (induction xs) auto

end
