(* ===== verification/PyRegex.thy ===== *)
theory PyRegex imports Prelude begin

text \<open>
  The part of Python's \<open>re\<close> module the sources use: literals, classes, sequence, ordered
  alternation, greedy and lazy repetition, the word boundary, the anchors and a one-character
  lookbehind.
  A position in a subject is a pair (text before it, reversed; text after it). The matcher
  \<open>mt\<close> lists the end positions of the matches at a position in the order Python tries them, so
  the head of the list is the match Python returns. \<open>rmatch\<close> says which matches exist, and
  \<open>mt_iff\<close> shows that the matcher finds exactly those. A case-insensitive pattern is written in
  lower case and run on the lowered subject (ASCII lowering keeps every position).
\<close>

type_synonym spot = "string \<times> string"

datatype rx =
    Eps
  | Cls "char \<Rightarrow> bool"
  | Sq rx rx
  | Al rx rx
  | St rx
  | Lz rx
  | Bnd
  | Bos
  | Eos
  | Zed
  | Bhd "char \<Rightarrow> bool"

fun first_is :: "(char \<Rightarrow> bool) \<Rightarrow> string \<Rightarrow> bool" where
  "first_is P [] = False"
| "first_is P (c # cs) = P c"

definition at_bound :: "spot \<Rightarrow> bool" where
  "at_bound p \<longleftrightarrow> first_is is_wordc (fst p) \<noteq> first_is is_wordc (snd p)"

definition at_end :: "spot \<Rightarrow> bool" where
  "at_end p \<longleftrightarrow> snd p = [] \<or> snd p = nl"

fun eat :: "(char \<Rightarrow> bool) \<Rightarrow> spot \<Rightarrow> spot list" where
  "eat P (b, []) = []"
| "eat P (b, c # a) = (if P c then [(c # b, a)] else [])"

text \<open>Greedy repetition: longer repetitions first; an iteration that consumes nothing stops.\<close>

fun iter :: "nat \<Rightarrow> (spot \<Rightarrow> spot list) \<Rightarrow> spot \<Rightarrow> spot list" where
  "iter 0 f p = [p]"
| "iter (Suc n) f p =
     concat (map (iter n f) (filter (\<lambda>q. length (snd q) < length (snd p)) (f p))) @ [p]"

text \<open>Lazy repetition: the same repetitions, shorter ones first.\<close>

fun lazy :: "nat \<Rightarrow> (spot \<Rightarrow> spot list) \<Rightarrow> spot \<Rightarrow> spot list" where
  "lazy 0 f p = [p]"
| "lazy (Suc n) f p = p # concat (map (lazy n f) (filter (\<lambda>q. length (snd q) < length (snd p)) (f p)))"

primrec mt :: "rx \<Rightarrow> spot \<Rightarrow> spot list" where
  "mt Eps p = [p]"
| "mt (Cls P) p = eat P p"
| "mt (Sq r s) p = concat (map (mt s) (mt r p))"
| "mt (Al r s) p = mt r p @ mt s p"
| "mt (St r) p = iter (length (snd p)) (mt r) p"
| "mt (Lz r) p = lazy (length (snd p)) (mt r) p"
| "mt Bnd p = (if at_bound p then [p] else [])"
| "mt Bos p = (if fst p = [] then [p] else [])"
| "mt Eos p = (if at_end p then [p] else [])"
| "mt Zed p = (if snd p = [] then [p] else [])"
| "mt (Bhd P) p = (if first_is P (fst p) then [p] else [])"

section \<open>Building patterns\<close>

definition chr :: "char \<Rightarrow> rx" where
  "chr c = Cls (\<lambda>d. d = c)"

definition lit :: "string \<Rightarrow> rx" where
  "lit w = foldr (\<lambda>c r. Sq (chr c) r) w Eps"

definition opt :: "rx \<Rightarrow> rx" where
  "opt r = Al r Eps"

definition plus1 :: "rx \<Rightarrow> rx" where
  "plus1 r = Sq r (St r)"

definition seqs :: "rx list \<Rightarrow> rx" where
  "seqs rs = foldr Sq rs Eps"

fun alts :: "rx list \<Rightarrow> rx" where
  "alts [] = Cls (\<lambda>_. False)"
| "alts [r] = r"
| "alts (r # rs) = Al r (alts rs)"

definition words :: "string list \<Rightarrow> rx" where
  "words ws = alts (map lit ws)"

definition sp0 :: rx where
  "sp0 = St (Cls is_space)"

definition sp1 :: rx where
  "sp1 = plus1 (Cls is_space)"

definition bounded :: "rx \<Rightarrow> rx" where
  "bounded r = seqs [Bnd, r, Bnd]"

definition one_of :: "string \<Rightarrow> rx" where
  "one_of cs = Cls (\<lambda>d. d \<in> set cs)"

section \<open>Running patterns\<close>

text \<open>All the positions of a subject, from the left.\<close>

fun spots_from :: "spot \<Rightarrow> spot list" where
  "spots_from (b, []) = [(b, [])]"
| "spots_from (b, c # a) = (b, c # a) # spots_from (c # b, a)"

fun first_match :: "rx \<Rightarrow> spot list \<Rightarrow> (spot \<times> spot) option" where
  "first_match r [] = None"
| "first_match r (p # ps) =
     (case mt r p of [] \<Rightarrow> first_match r ps | q # _ \<Rightarrow> Some (p, q))"

definition search :: "rx \<Rightarrow> string \<Rightarrow> (spot \<times> spot) option" where
  "search r s = first_match r (spots_from ([], s))"

definition found :: "rx \<Rightarrow> string \<Rightarrow> bool" where
  "found r s \<longleftrightarrow> search r s \<noteq> None"

definition ifound :: "rx \<Rightarrow> string \<Rightarrow> bool" where
  "ifound r s \<longleftrightarrow> found r (lower s)"

definition imatch :: "rx \<Rightarrow> string \<Rightarrow> bool" where
  "imatch r s \<longleftrightarrow> mt r ([], lower s) \<noteq> []"

text \<open>The text between two positions of the same subject.\<close>

definition between :: "spot \<Rightarrow> spot \<Rightarrow> string" where
  "between p q = take (length (snd p) - length (snd q)) (snd p)"

text \<open>\<open>p.sub(rep, s, count=1)\<close> for a case-insensitive pattern, on the subject as written.\<close>

definition isub1 :: "rx \<Rightarrow> string \<Rightarrow> string \<Rightarrow> string" where
  "isub1 r rep s =
     (case search r (lower s) of
        None \<Rightarrow> s
      | Some (p, q) \<Rightarrow> take (length (fst p)) s @ rep @ drop (length (fst q)) s)"

text \<open>
  The non-overlapping matches from the left, as (text before the match, match) pairs and the text
  that is left. Only for patterns that match no empty text.
\<close>

fun scan :: "nat \<Rightarrow> rx \<Rightarrow> spot \<Rightarrow> (string \<times> string) list \<times> string" where
  "scan 0 r p = ([], snd p)"
| "scan (Suc n) r p =
     (case first_match r (spots_from p) of
        None \<Rightarrow> ([], snd p)
      | Some (a, b) \<Rightarrow>
          (case scan n r b of (ms, rest) \<Rightarrow> ((between p a, between a b) # ms, rest)))"

definition scan_all :: "rx \<Rightarrow> string \<Rightarrow> (string \<times> string) list \<times> string" where
  "scan_all r s = scan (Suc (length s)) r ([], s)"

definition findall :: "rx \<Rightarrow> string \<Rightarrow> string list" where
  "findall r s = map snd (fst (scan_all r s))"

definition sub_all :: "rx \<Rightarrow> string \<Rightarrow> string \<Rightarrow> string" where
  "sub_all r rep s = (case scan_all r s of (ms, rest) \<Rightarrow> concat (map (\<lambda>(g, m). g @ rep) ms) @ rest)"

definition split_at :: "rx \<Rightarrow> string \<Rightarrow> string list" where
  "split_at r s = (case scan_all r s of (ms, rest) \<Rightarrow> map fst ms @ [rest])"

section \<open>Groups\<close>

text \<open>
  A pattern with groups is a list of parts. A path through it lists the positions after each part;
  the paths come in the order of the matcher, so the head is Python's match with its groups.
\<close>

fun paths :: "rx list \<Rightarrow> spot \<Rightarrow> spot list list" where
  "paths [] p = [[]]"
| "paths (r # rs) p = concat (map (\<lambda>q. map ((#) q) (paths rs q)) (mt r p))"

fun search_path :: "rx list \<Rightarrow> spot list \<Rightarrow> spot list option" where
  "search_path rs [] = None"
| "search_path rs (p # ps) = (case paths rs p of [] \<Rightarrow> search_path rs ps | qs # _ \<Rightarrow> Some (p # qs))"

fun pieces :: "spot list \<Rightarrow> string list" where
  "pieces (p # q # ps) = between p q # pieces (q # ps)"
| "pieces ps = []"

lemma paths_seqs: "map (\<lambda>qs. last (p # qs)) (paths rs p) = mt (seqs rs) p"
proof (induction rs arbitrary: p)
  case (Cons r rs)
  have "map (\<lambda>qs. last (p # qs)) (map ((#) q) (paths rs q)) = mt (seqs rs) q" for q
    using Cons.IH [of q] by (simp add: o_def)
  then show ?case by (simp add: seqs_def map_concat comp_def)
qed (simp add: seqs_def)

lemma search_path_search:
  "map_option (\<lambda>qs. (hd qs, last qs)) (search_path rs ps) = first_match (seqs rs) ps"
proof (induction ps)
  case (Cons p ps)
  show ?case using Cons paths_seqs [of p rs] by (auto split: list.splits)
qed simp

text \<open>
  The matches of \<open>finditer\<close>, as paths; for patterns that match no empty text. A group is cut out of
  the subject as written, so a case-insensitive pattern can run on the lowered subject.
\<close>

fun all_paths :: "nat \<Rightarrow> rx list \<Rightarrow> spot \<Rightarrow> spot list list" where
  "all_paths 0 rs p = []"
| "all_paths (Suc n) rs p =
     (case search_path rs (spots_from p) of None \<Rightarrow> [] | Some qs \<Rightarrow> qs # all_paths n rs (last qs))"

definition matches_of :: "rx list \<Rightarrow> string \<Rightarrow> spot list list" where
  "matches_of rs s = all_paths (Suc (length s)) rs ([], s)"

definition cut :: "string \<Rightarrow> spot \<Rightarrow> spot \<Rightarrow> string" where
  "cut s p q = take (length (fst q) - length (fst p)) (drop (length (fst p)) s)"

definition group_of :: "string \<Rightarrow> spot list \<Rightarrow> nat \<Rightarrow> string" where
  "group_of s qs k = cut s (qs ! k) (qs ! Suc k)"

section \<open>What the matcher finds\<close>

inductive rmatch :: "rx \<Rightarrow> spot \<Rightarrow> spot \<Rightarrow> bool" where
  rm_eps: "rmatch Eps p p"
| rm_cls: "P c \<Longrightarrow> rmatch (Cls P) (b, c # a) (c # b, a)"
| rm_sq: "rmatch r p q \<Longrightarrow> rmatch s q u \<Longrightarrow> rmatch (Sq r s) p u"
| rm_left: "rmatch r p q \<Longrightarrow> rmatch (Al r s) p q"
| rm_right: "rmatch s p q \<Longrightarrow> rmatch (Al r s) p q"
| rm_stop: "rmatch (St r) p p"
| rm_more: "rmatch r p q \<Longrightarrow> length (snd q) < length (snd p) \<Longrightarrow> rmatch (St r) q u \<Longrightarrow> rmatch (St r) p u"
| rm_lstop: "rmatch (Lz r) p p"
| rm_lmore: "rmatch r p q \<Longrightarrow> length (snd q) < length (snd p) \<Longrightarrow> rmatch (Lz r) q u \<Longrightarrow> rmatch (Lz r) p u"
| rm_bnd: "at_bound p \<Longrightarrow> rmatch Bnd p p"
| rm_bos: "fst p = [] \<Longrightarrow> rmatch Bos p p"
| rm_eos: "at_end p \<Longrightarrow> rmatch Eos p p"
| rm_zed: "snd p = [] \<Longrightarrow> rmatch Zed p p"
| rm_bhd: "first_is P (fst p) \<Longrightarrow> rmatch (Bhd P) p p"

inductive_cases rm_cases [elim!]:
  "rmatch Eps p q" "rmatch (Cls P) p q" "rmatch (Sq r s) p q" "rmatch (Al r s) p q"
  "rmatch Bnd p q" "rmatch Bos p q" "rmatch Eos p q" "rmatch Zed p q" "rmatch (Bhd P) p q"

inductive_simps rm_star: "rmatch (St r) p u" and rm_lazy: "rmatch (Lz r) p u"

lemma eat_iff: "q \<in> set (eat P p) \<longleftrightarrow> rmatch (Cls P) p q"
  by (cases "(P, p)" rule: eat.cases) (auto intro: rm_cls)

lemma iter_iff:
  assumes step: "\<And>p q. q \<in> set (f p) \<longleftrightarrow> rmatch r p q" and "length (snd p) \<le> n"
  shows "u \<in> set (iter n f p) \<longleftrightarrow> rmatch (St r) p u"
  using assms(2)
proof (induction n arbitrary: p)
  case 0
  then show ?case by (subst rm_star) auto
next
  case (Suc n)
  have "u \<in> set (iter n f q) \<longleftrightarrow> rmatch (St r) q u" if "length (snd q) < length (snd p)" for q
    using Suc.IH [of q] Suc.prems that by linarith
  then show ?case by (subst rm_star) (auto simp: step)
qed

lemma lazy_iff:
  assumes step: "\<And>p q. q \<in> set (f p) \<longleftrightarrow> rmatch r p q" and "length (snd p) \<le> n"
  shows "u \<in> set (lazy n f p) \<longleftrightarrow> rmatch (Lz r) p u"
  using assms(2)
proof (induction n arbitrary: p)
  case 0
  then show ?case by (subst rm_lazy) auto
next
  case (Suc n)
  have "u \<in> set (lazy n f q) \<longleftrightarrow> rmatch (Lz r) q u" if "length (snd q) < length (snd p)" for q
    using Suc.IH [of q] Suc.prems that by linarith
  then show ?case by (subst rm_lazy) (auto simp: step)
qed

text \<open>The matcher is sound and complete for the declarative reading.\<close>

lemma mt_iff: "q \<in> set (mt r p) \<longleftrightarrow> rmatch r p q"
proof (induction r arbitrary: p q)
  case (St r)
  then show ?case by (simp add: iter_iff del: iter.simps)
next
  case (Lz r)
  then show ?case by (simp add: lazy_iff del: lazy.simps)
qed (auto simp: eat_iff intro: rmatch.intros)

lemma rmatch_whole: "rmatch r p q \<Longrightarrow> rev (fst q) @ snd q = rev (fst p) @ snd p"
  by (induction rule: rmatch.induct) auto

lemma rmatch_forward: "rmatch r p q \<Longrightarrow> length (snd q) \<le> length (snd p)"
  by (induction rule: rmatch.induct) auto

lemma spots_from_whole: "q \<in> set (spots_from p) \<Longrightarrow>
    rev (fst q) @ snd q = rev (fst p) @ snd p \<and> length (snd q) \<le> length (snd p)"
  by (induction p rule: spots_from.induct) auto

lemma first_match_SomeD:
  "first_match r ps = Some (p, q) \<Longrightarrow> p \<in> set ps \<and> rmatch r p q"
  by (induction ps) (auto split: list.splits simp flip: mt_iff)

lemma first_match_None: "first_match r ps = None \<longleftrightarrow> (\<forall>p \<in> set ps. mt r p = [])"
  by (induction ps) (auto split: list.splits)

lemma search_SomeD:
  assumes "search r s = Some (p, q)"
  shows "rmatch r p q" "rev (fst p) @ snd p = s" "rev (fst q) @ snd q = s"
proof -
  have "p \<in> set (spots_from ([], s))" and m: "rmatch r p q"
    using first_match_SomeD [of r _ p q] assms by (auto simp: search_def)
  then show "rmatch r p q" "rev (fst p) @ snd p = s" "rev (fst q) @ snd q = s"
    using spots_from_whole [of p "([], s)"] rmatch_whole [OF m] by auto
qed

lemma found_iff: "found r s \<longleftrightarrow> (\<exists>p \<in> set (spots_from ([], s)). \<exists>q. rmatch r p q)"
proof -
  have "mt r p \<noteq> [] \<longleftrightarrow> (\<exists>q. rmatch r p q)" for p
    by (metis list.set_intros(1) mt_iff neq_Nil_conv empty_iff empty_set)
  then show ?thesis by (simp add: found_def search_def first_match_None)
qed

lemma suffix_by_length: "a @ u = b @ v \<Longrightarrow> length v \<le> length u \<Longrightarrow> \<exists>w. u = w @ v"
  by (auto simp: append_eq_append_conv2)

lemma between_prefix:
  assumes m: "rmatch r p q"
  shows "snd p = between p q @ snd q"
proof -
  obtain w where "snd p = w @ snd q"
    using suffix_by_length rmatch_whole [OF m] rmatch_forward [OF m] by metis
  then show ?thesis by (simp add: between_def)
qed

lemma rmatch_lit: "rmatch (lit w) p q \<Longrightarrow> snd p = w @ snd q"
  by (induction w arbitrary: p) (auto simp: lit_def chr_def)

text \<open>No sentence, match or gap is invented: put back together they are the subject.\<close>

lemma isub1_id: "search r (lower s) = None \<Longrightarrow> isub1 r rep s = s"
  by (simp add: isub1_def)

text \<open>A greedy run of a class takes the whole run first.\<close>

lemma iter_greedy:
  "list_all P w \<Longrightarrow> \<not> first_is P rest \<Longrightarrow> length w \<le> n \<Longrightarrow>
     \<exists>others. iter n (eat P) (b, w @ rest) = (rev w @ b, rest) # others"
proof (induction w arbitrary: b n)
  case Nil
  then have "eat P (b, rest) = []" by (cases rest) simp_all
  then show ?case by (cases n) simp_all
next
  case (Cons c w)
  then obtain m where n: "n = Suc m" "length w \<le> m" by (cases n) auto
  obtain others where "iter m (eat P) (c # b, w @ rest) = (rev w @ c # b, rest) # others"
    using Cons.IH [of m "c # b"] Cons.prems n by auto
  with n Cons.prems show ?case by simp
qed

lemma star_greedy:
  assumes "list_all P w" and "\<not> first_is P rest"
  shows "\<exists>others. mt (St (Cls P)) (b, w @ rest) = (rev w @ b, rest) # others"
proof -
  have "mt (Cls P) = eat P" by (rule ext) simp
  then show ?thesis using iter_greedy [OF assms, of "length w + length rest" b] by simp
qed

end
