(* ===== verification/FactText.thy ===== *)
theory FactText imports PyRegex begin

text \<open>
  The text side of \<open>harness/skills/lifecycle.py\<close>: the patterns, the admission door
  (\<open>is_memorable\<close>, \<open>extract_facts\<close>), the identity firewall, the classes, the attribute slot of a
  fact and the unwrapping of instructions (\<open>normalize_fact\<close>). Refusal messages are values of
  \<open>refusal\<close>, one constructor for each message of the source.
\<close>

section \<open>Pattern pieces\<close>

definition apos :: rx where
  "apos = opt (chr CHR 0x27)"

definition gapped :: "string list \<Rightarrow> rx" where
  "gapped ws = (case ws of [] \<Rightarrow> Eps | w # rest \<Rightarrow> Sq (lit w) (seqs (map (\<lambda>v. Sq sp1 (lit v)) rest)))"

text \<open>The class \<open>[\s-]\<close> admits every white-space character, not only the blank.\<close>

definition sepc :: rx where
  "sepc = Cls (\<lambda>c. is_space c \<or> c = CHR ''-'')"

definition dashed :: "string \<Rightarrow> rx \<Rightarrow> rx" where
  "dashed w r = seqs [lit w, opt sepc, r]"

definition plural :: "string \<Rightarrow> rx" where
  "plural w = Sq (lit w) (opt (lit ''s''))"

definition dot :: rx where
  "dot = Cls (\<lambda>c. c \<noteq> CHR 0x0A)"

definition at_least2 :: "string \<Rightarrow> char \<Rightarrow> rx" where
  "at_least2 w c = seqs [lit w, plus1 (chr c)]"

section \<open>The patterns of lifecycle.py\<close>

definition USER_PREFIX :: string where
  "USER_PREFIX = ''The user said: ''"

definition PREF_VERB :: rx where
  "PREF_VERB = seqs
     [Bnd, words [''i'', ''we'', ''he'', ''she'', ''knack'', ''the user''], sp1,
      St (alts [Sq (lit ''really'') sp1, Sq (lit ''genuinely'') sp1, Sq (lit ''absolutely'') sp1,
                seqs [lit ''don'', apos, lit ''t'', sp1], seqs [lit ''do'', sp1, lit ''not'', sp1]]),
      alts [lit ''like'', lit ''love'', lit ''hate'', lit ''enjoy'', lit ''prefer'', lit ''adore'',
            seqs [lit ''can'', apos, lit ''t stand'']],
      Bnd]"

definition PREF_NOUN :: rx where
  "PREF_NOUN = bounded (alts [seqs [lit ''favo'', opt (lit ''u''), lit ''rite''], lit ''lucky number'',
     lit ''preference''])"

definition SECRET :: rx where
  "SECRET = bounded (alts
     [lit ''password'', lit ''passcode'', lit ''passphrase'',
      dashed ''api'' (lit ''key''), dashed ''private'' (lit ''key''), dashed ''secret'' (lit ''key''),
      dashed ''access'' (lit ''token''), dashed ''auth'' (lit ''token''),
      dashed ''recovery'' (words [''code'', ''phrase'', ''key'']), dashed ''seed'' (lit ''phrase''),
      seqs [words [''pin'', ''door'', ''gate'', ''garage'', ''wifi'', ''wi-fi'', ''alarm'', ''security'',
                   ''access'', ''lock'', ''entry''], opt sepc, lit ''code''],
      Sq (lit ''pin'') (opt (Sq (opt sepc) (lit ''number''))),
      lit ''combination'',
      lit ''ssn'', seqs [lit ''social'', sepc, lit ''security'', opt (Sq sepc (lit ''number''))],
      dashed ''credit'' (lit ''card''), lit ''cvv'', dashed ''routing'' (lit ''number''),
      dashed ''account'' (lit ''number''),
      seqs [lit ''licen'', one_of ''cs'', lit ''e'', opt sepc, lit ''key'']])"

definition SECRET_POSS :: rx where
  "SECRET_POSS = seqs
     [Bnd, alts [lit ''my'', lit ''our'', lit ''his'', lit ''her'', lit ''their'',
                 seqs [lit ''the user'', apos, lit ''s'']],
      sp1, words [''secret'', ''code'', ''combination''], Bnd]"

definition RELATIONSHIP :: rx where
  "RELATIONSHIP = bounded (words [''wife'', ''husband'', ''partner'', ''girlfriend'', ''boyfriend'',
     ''brother'', ''sister'', ''mother'', ''father'', ''mum'', ''mom'', ''dad'', ''son'', ''daughter'',
     ''friend'', ''cat'', ''dog'', ''pet''])"

definition IDENTITY :: rx where
  "IDENTITY = bounded (alts
     [lit ''name is'', lit ''am called'',
      seqs [lit ''i am '', opt (words [''a '', ''an '']), words [''male'', ''female'', ''man'', ''woman'']],
      plural ''pronoun'', lit ''gender'', lit ''birthday'', Sq (lit ''born '') (words [''in'', ''on''])])"

definition EVENT :: rx where
  "EVENT = bounded (alts
     [lit ''yesterday'', lit ''today'', lit ''tomorrow'', Sq (lit ''last '') (words [''week'', ''night'', ''year'']),
      lit ''flight'', lit ''appointment'', lit ''meeting'', Sq (lit ''at '') (Cls is_digit),
      Sq (lit ''on '') (words [''mon'', ''tue'', ''wed'', ''thu'', ''fri'', ''sat'', ''sun''])])"

definition COPULA :: rx where
  "COPULA = bounded (words [''is'', ''are'', ''was'', ''were'', ''='', '':''])"

definition POSSESSIVE :: rx where
  "POSSESSIVE = seqs [Bos, alts [seqs [lit ''the user'', apos, opt (lit ''s'')], lit ''my'', lit ''his'',
     lit ''her'', lit ''their''], sp1]"

definition INSTRUCTION :: rx where
  "INSTRUCTION = seqs [Bos, sp0, alts
     [seqs [lit ''why don'', apos, lit ''t you''], lit ''you should'', lit ''you can'', lit ''you could'',
      lit ''try to'', lit ''try and'', lit ''go ahead'', Sq (lit ''please'') Bnd,
      seqs [lit ''let'', apos, lit ''s'', Bnd], seqs [lit ''now'', Bnd, St dot, Bnd, lit ''try''],
      seqs [lit ''just'', Bnd, St dot, Bnd, words [''try'', ''call'', ''use'', ''store'', ''save''], Bnd],
      lit ''remember to'', seqs [lit ''don'', apos, lit ''t forget to''], lit ''make sure you'']]"

definition META :: rx where
  "META = bounded (alts
     [lit ''tool'', lit ''tools'', lit ''call the'', plural ''personality setting'', lit ''memory system'',
      seqs [lit ''store '', opt (words [''a '', ''your '']), lit ''memor''],
      seqs [lit ''save '', opt (words [''a '', ''your '']), lit ''memor''],
      lit ''edit your personality'',
      seqs [lit ''adjust'', opt (lit ''ing''), lit '' '', opt (lit ''your ''), lit ''mood'']])"

definition conj_lead :: rx where
  "conj_lead = opt (alts [Sq (lit ''and'') sp1, Sq (lit ''but'') sp1, Sq (lit ''so'') sp1])"

definition ADDRESSEE_SUBJ :: rx where
  "ADDRESSEE_SUBJ = seqs [Bos, sp0, conj_lead,
     alts [lit ''you'', lit (''you'' @ [CHR 0x27] @ ''re''), lit ''youre'', lit ''your'', lit ''ur''], Bnd]"

definition ANAPHORIC_SUBJ :: rx where
  "ANAPHORIC_SUBJ = seqs [Bos, sp0, conj_lead,
     alts [lit ''it'', lit (''it'' @ [CHR 0x27] @ ''s''), lit ''its'', lit ''that'',
           lit (''that'' @ [CHR 0x27] @ ''s''), lit ''this'', lit (''this'' @ [CHR 0x27] @ ''s''),
           lit ''there'', lit (''there'' @ [CHR 0x27] @ ''s''), lit ''these'', lit ''those'', lit ''they'',
           lit ''them'', seqs [lit ''for the '', words [''first'', ''second'', ''last'', ''other''], Bnd]], Bnd]"

definition ANCHOR :: rx where
  "ANCHOR = bounded (words
     [''i'', ''i'' @ [CHR 0x27] @ ''m'', ''i'' @ [CHR 0x27] @ ''ve'', ''im'', ''my'', ''mine'', ''myself'',
      ''we'', ''our'', ''ours'', ''us'', ''knack'', ''knack'' @ [CHR 0x27] @ ''s'', ''the user'',
      ''user'' @ [CHR 0x27] @ ''s'', ''the operator''])"

definition DISCOURSE_LEAD :: rx where
  "DISCOURSE_LEAD = seqs [Bos, sp0, plus1 (seqs
     [alts ([lit ''i mean'', lit ''you know'', lit ''well'', lit ''so'', lit ''ok'', lit ''okay'', lit ''yeah'',
             lit ''yep'', lit ''yes'', lit ''no'', lit ''nah'', lit ''nope'', at_least2 ''hm'' (CHR ''m''),
             lit ''huh'', lit ''lol'', lit ''haha'', lit ''wow'', lit ''oh'', lit ''ah'', lit ''aha'',
             lit ''right'', lit ''sure'', lit ''cool'', lit ''nice'', lit ''true'', lit ''exactly'',
             lit ''spot on'', at_least2 ''sh'' (CHR ''h''), at_least2 ''shh'' (CHR ''h''), lit ''hey'',
             lit ''look'', lit ''listen'', lit ''me too'', lit ''same'', lit ''i guess'', lit ''i suppose'',
             lit ''honestly'', lit ''actually'', lit ''basically'', lit ''anyway'', lit ''btw'']),
      Bnd, St (Cls (\<lambda>c. is_space c \<or> c \<in> set '',!.:;-''))])]"

definition STATIVE :: rx where
  "STATIVE = bounded (alts
     ([lit ''is'', lit ''are'', lit ''am'', lit ''was'', lit ''were'', lit (''isn'' @ [CHR 0x27] @ ''t''),
       lit (''aren'' @ [CHR 0x27] @ ''t''), lit ([CHR 0x27] @ ''s''), lit ([CHR 0x27] @ ''re''),
       lit ([CHR 0x27] @ ''m''), lit ''has'', lit ''have'', lit ''had'']
      @ map plural [''own'', ''keep'', ''run'', ''use'', ''drive'', ''work'', ''live'']
      @ [lit ''studies'']
      @ map plural [''like'', ''love'', ''prefer'', ''hate'', ''enjoy'', ''want'', ''need'', ''believe'', ''think'']
      @ [lit ''called'', lit ''named'', seqs [lit ''favo'', opt (lit ''u''), lit ''rite''], lit ''lucky'',
         lit ''born'', lit ''birthday'']))"

definition IRREALIS :: rx where
  "IRREALIS = Al
     (seqs [Bos, sp0, words [''if'', ''when'', ''whenever'', ''unless'', ''suppose'', ''imagine'', ''maybe'',
        ''perhaps''], Bnd])
     (bounded (words [''would'', ''could'', ''might'', ''may'', ''will'', [CHR 0x27] @ ''ll'', ''shall'',
        ''gonna'', ''going to'', ''hope'', ''hopes'', ''hoping'', ''hopefully'', ''wish'', ''wishes'']))"

definition REACTION :: rx where
  "REACTION = seqs [lit ''!'', sp0, Eos]"

definition ATTRIBUTIVE :: rx where
  "ATTRIBUTIVE = bounded (alts [seqs [lit ''favo'', opt (lit ''u''), lit ''rite''], lit ''lucky'',
     lit ''name is'', lit ''is called'', lit ''am called'', lit ''born'', lit ''birthday'', plural ''prefer''])"

definition SENT_SPLIT :: rx where
  "SENT_SPLIT = Al (Sq (Bhd (\<lambda>c. c \<in> set ''.!?'')) sp1) (seqs [sp0, plus1 (lit nl), sp0])"

definition quotec :: "char \<Rightarrow> bool" where
  "quotec c \<longleftrightarrow> c = CHR 0x22 \<or> c = CHR 0x27"

definition QUOTED :: rx where
  "QUOTED = (let q = Cls quotec; n = Cls (\<lambda>c. \<not> quotec c) in seqs [q, n, n, n, n, St n, q])"

definition MACHINE :: rx where
  "MACHINE = alts
     [lit (replicate 3 (CHR 0x60)),
      seqs [Bos, sp0, plus1 (Cls is_wordc), sp0, lit ''->'', sp0],
      seqs [Bos, sp0, opt (lit ''(''), words [''stored'', ''not stored'', ''already in memory'', ''retired'',
        ''no stored facts'', ''memory is empty'', ''nothing in memory'', ''tool_output'', ''tool_code''], Bnd]]"

definition STORE_VERB :: rx where
  "STORE_VERB =
     (let thing = opt (Sq sp1 (words [''that'', ''this'', ''it''])) in
      seqs [Bos, sp0, Al
        (seqs [opt (Sq (lit ''please'') sp1),
               words [''remember'', ''note'', ''store'', ''save'', ''keep in mind'', ''make a note''],
               thing, opt (seqs [sp1, words [''about'', ''for''], sp1, lit ''me'']),
               opt (seqs [sp1, lit ''in'', sp1, lit ''your'', sp1, lit ''memory'']), thing])
        (seqs [words [''add'', ''store''], sp1, opt (Sq (lit ''this'') sp1), words [''to'', ''in''], sp1,
               lit ''your'', sp1, lit ''memory'', opt (Sq sp1 (lit ''that''))]),
        sp0, opt (one_of '':,''), sp1])"

definition BULLET :: rx where
  "BULLET = seqs [Bos, sp0, one_of ''-*'', sp1]"

end
