(* ===== verification/Admission.thy ===== *)
theory Admission imports FactText begin

text \<open>
  The functions of \<open>harness/skills/lifecycle.py\<close> that read and judge a text: class, slot and value
  of a fact, the admission door of the fact store, the capture lane, the identity firewall and the
  unwrapping of instructions.
\<close>

section \<open>Class, slot and value\<close>

definition STOP_TOPIC :: "string list" where
  "STOP_TOPIC = py_split (join '' ''
    [''a an the is are was were am be been being of in on at to for with about'',
     ''and or but not no so very really quite too my your his her their its our i you he she it they'',
     ''we me him them us that this those these there here what which who whom whose how when where'',
     ''why do does did done has have had can could will would shall should may might must'',
     ''knack user shannon person thing things stuff''])"

text \<open>The list written out, for evaluation.\<close>

lemma STOP_TOPIC_list [code]: "STOP_TOPIC =
     [''a'', ''an'', ''the'', ''is'', ''are'', ''was'', ''were'', ''am'', ''be'', ''been'',
      ''being'', ''of'', ''in'', ''on'', ''at'', ''to'', ''for'', ''with'', ''about'', ''and'',
      ''or'', ''but'', ''not'', ''no'', ''so'', ''very'', ''really'', ''quite'', ''too'', ''my'',
      ''your'', ''his'', ''her'', ''their'', ''its'', ''our'', ''i'', ''you'', ''he'', ''she'',
      ''it'', ''they'', ''we'', ''me'', ''him'', ''them'', ''us'', ''that'', ''this'', ''those'',
      ''these'', ''there'', ''here'', ''what'', ''which'', ''who'', ''whom'', ''whose'', ''how'',
      ''when'', ''where'', ''why'', ''do'', ''does'', ''did'', ''done'', ''has'', ''have'',
      ''had'', ''can'', ''could'', ''will'', ''would'', ''shall'', ''should'', ''may'', ''might'',
      ''must'', ''knack'', ''user'', ''shannon'', ''person'', ''thing'', ''things'', ''stuff'']"
  by code_simp

definition wordch :: "char \<Rightarrow> bool" where
  "wordch c \<longleftrightarrow> is_lower c \<or> is_digit c \<or> c = CHR 0x27"

definition topic_of :: "string \<Rightarrow> string set" where
  "topic_of claimed = set (filter (\<lambda>w. w \<notin> set STOP_TOPIC \<and> 2 < length w) (runs wordch (lower claimed)))"

definition strip_prefix :: "string \<Rightarrow> string" where
  "strip_prefix t = (if startswith t USER_PREFIX then drop (length USER_PREFIX) t else t)"

definition infer_speaker :: "string \<Rightarrow> string \<Rightarrow> string" where
  "infer_speaker claimed author = (if author = ''self'' then ''self'' else ''user'')"

definition classify :: "string \<Rightarrow> string" where
  "classify claimed =
     (if ifound SECRET claimed \<or> ifound SECRET_POSS claimed then ''private-secret''
      else if ifound RELATIONSHIP claimed then ''relationship''
      else if ifound IDENTITY claimed then ''identity''
      else if ifound EVENT claimed then ''event''
      else if ifound PREF_VERB claimed \<or> ifound PREF_NOUN claimed then ''preference''
      else ''fact'')"

definition keych :: "char \<Rightarrow> bool" where
  "keych c \<longleftrightarrow> wordch c \<or> c = CHR '' ''"

definition attribute_key :: "string \<Rightarrow> string \<Rightarrow> string option" where
  "attribute_key claimed speaker =
     (case search COPULA (lower claimed) of
        None \<Rightarrow> None
      | Some (p, q) \<Rightarrow>
          (let subj_raw = strip (take (length (fst p)) claimed)
           in if \<not> imatch POSSESSIVE subj_raw then None
              else (let subj = filter keych (lower (strip (isub1 POSSESSIVE [] subj_raw)))
                    in if subj = [] \<or> length subj < 3 then None
                       else Some (speaker @ ''::'' @ subj))))"

definition rstrip_dots :: "string \<Rightarrow> string" where
  "rstrip_dots s = rev (dropWhile (\<lambda>c. c = CHR ''.'') (rev s))"

definition value_of :: "string \<Rightarrow> string" where
  "value_of claimed =
     (case search COPULA (lower claimed) of
        None \<Rightarrow> lower (strip claimed)
      | Some (p, q) \<Rightarrow> lower (rstrip_dots (strip (drop (length (fst q)) claimed))))"

section \<open>The admission door\<close>

datatype refusal =
    Empty
  | MachineText
  | InstructionOrMeta
  | Filler
  | QuotationOnly
  | IsQuestion
  | AboutHer
  | PointsBack
  | Hypothetical
  | TooShort
  | IsReaction
  | NothingStanding
  | NotAnchored
  | HerIdentity string

definition split_sentences :: "string \<Rightarrow> string list" where
  "split_sentences turn = filter (\<lambda>p. p \<noteq> []) (map strip (split_at SENT_SPLIT turn))"

definition core_of :: "string \<Rightarrow> string" where
  "core_of t = strip (isub1 DISCOURSE_LEAD [] t)"

definition claim_of :: "string \<Rightarrow> string" where
  "claim_of core = strip (sub_all QUOTED '' '' core)"

text \<open>\<open>is_memorable\<close> returns \<open>None\<close> for an admitted fact and the refusal otherwise.\<close>

definition is_memorable :: "string \<Rightarrow> refusal option" where
  "is_memorable claimed =
     (let t = strip claimed in
      if t = [] then Some Empty
      else if ifound MACHINE t then Some MachineText
      else if imatch INSTRUCTION t \<or> ifound META t then Some InstructionOrMeta
      else let core = core_of t in
      if core = [] then Some Filler
      else let claim = claim_of core in
      if claim = [] \<or> length (py_split claim) < 3 then Some QuotationOnly
      else if endswith core ''?'' then Some IsQuestion
      else if imatch ADDRESSEE_SUBJ core then Some AboutHer
      else if imatch ANAPHORIC_SUBJ core then Some PointsBack
      else if ifound IRREALIS core then Some Hypothetical
      else let words = py_split core in
      if length words < 3 then Some TooShort
      else if found REACTION core \<and> length words < 7 \<and> \<not> ifound ATTRIBUTIVE core then Some IsReaction
      else if \<not> ifound STATIVE claim then Some NothingStanding
      else if \<not> ifound ANCHOR claim then Some NotAnchored
      else None)"

fun keep_new :: "string list \<Rightarrow> string list \<Rightarrow> string list" where
  "keep_new out [] = out"
| "keep_new out (s # ss) =
     keep_new
       (if is_memorable s = None
        then (let core = core_of s in if core \<noteq> [] \<and> core \<notin> set out then out @ [core] else out)
        else out) ss"

definition extract_facts :: "string \<Rightarrow> string list" where
  "extract_facts turn = keep_new [] (split_sentences turn)"

section \<open>The identity firewall\<close>

definition IDENT_LEAD :: rx where
  "IDENT_LEAD = seqs [Bnd, alts [lit ''my name is'', lit ''i am called'', lit (''i'' @ [CHR 0x27] @ ''m called''),
     lit ''im called'', lit ''i am'', lit (''i'' @ [CHR 0x27] @ ''m''), lit ''im''], sp1,
     opt (seqs [lit ''a'', opt (lit ''n''), sp1])]"

definition IDENT_NAME :: rx where
  "IDENT_NAME = Sq (Cls is_lower) (St (Cls (\<lambda>c. is_wordc c \<or> c = CHR 0x27 \<or> c = CHR ''-'')))"

text \<open>The group of the first match of a lead followed by a group.\<close>

fun first_some :: "('a \<Rightarrow> 'b option) \<Rightarrow> 'a list \<Rightarrow> 'b option" where
  "first_some f [] = None"
| "first_some f (x # xs) = (case f x of None \<Rightarrow> first_some f xs | Some y \<Rightarrow> Some y)"

definition search_group :: "rx \<Rightarrow> rx \<Rightarrow> string \<Rightarrow> (spot \<times> spot) option" where
  "search_group lead g s =
     first_some (\<lambda>p. first_some (\<lambda>q. case mt g q of [] \<Rightarrow> None | u # _ \<Rightarrow> Some (q, u)) (mt lead p))
       (spots_from ([], s))"

definition asserted_identity :: "string \<Rightarrow> string" where
  "asserted_identity claimed =
     (case search_group IDENT_LEAD IDENT_NAME (lower claimed) of
        None \<Rightarrow> []
      | Some (p, q) \<Rightarrow> strip (between p q))"

text \<open>The set of her values, trimmed and lowered as the source does; empty values are dropped.\<close>

definition self_set :: "string list \<Rightarrow> string set" where
  "self_set vs = set (map (\<lambda>n. lower (strip n)) (filter (\<lambda>n. strip n \<noteq> []) vs))"

definition about_self :: "string \<Rightarrow> string list \<Rightarrow> bool" where
  "about_self claimed self_values =
     (let v = asserted_identity claimed in v \<noteq> [] \<and> v \<in> self_set self_values)"

definition admit_to_user_store :: "string \<Rightarrow> string list \<Rightarrow> refusal option" where
  "admit_to_user_store claimed self_values =
     (let v = asserted_identity claimed
      in if v \<noteq> [] \<and> v \<in> self_set self_values then Some (HerIdentity v) else None)"

section \<open>Unwrapping an instruction\<close>

definition unwrap_step :: "string \<Rightarrow> string" where
  "unwrap_step t = strip_prefix (strip (isub1 STORE_VERB [] (strip (isub1 BULLET [] t))))"

text \<open>The loop ends because every step that changes the text shortens it.\<close>

definition shrinks :: "(string \<Rightarrow> string) \<Rightarrow> bool" where
  "shrinks f \<longleftrightarrow> (\<forall>s. f s = s \<or> length (f s) < length s)"

lemma shrinks_comp: "shrinks f \<Longrightarrow> shrinks g \<Longrightarrow> shrinks (\<lambda>s. g (f s))"
  unfolding shrinks_def by (metis less_trans)

lemma length_strip_le: "length (strip s) \<le> length s"
  by (metis length_dropWhile_le length_rev lstrip_def le_trans rstrip_def strip_def)

lemma lstrip_suffix: "s = takeWhile is_space s @ lstrip s"
  by (simp add: lstrip_def)

lemma shrinks_strip: "shrinks strip"
proof -
  have "strip s = s" if len: "length (strip s) = length s" for s
  proof -
    obtain u where u: "lstrip s = rstrip (lstrip s) @ u" using rstrip_prefix by blast
    have "length s = length (takeWhile is_space s) + length (rstrip (lstrip s)) + length u"
      by (metis u lstrip_suffix length_append add.assoc)
    with len have "takeWhile is_space s = []" "u = []" by (simp_all add: strip_def)
    then show ?thesis by (metis u lstrip_suffix append_Nil append_Nil2 strip_def)
  qed
  then show ?thesis unfolding shrinks_def by (metis length_strip_le le_neq_implies_less)
qed

lemma shrinks_strip_prefix: "shrinks strip_prefix"
proof -
  have "length (strip_prefix s) < length s \<or> strip_prefix s = s" for s
    by (auto simp: strip_prefix_def startswith_iff USER_PREFIX_def)
  then show ?thesis unfolding shrinks_def by blast
qed

lemma shrinks_isub1: "shrinks (isub1 r [])"
proof -
  have "isub1 r [] s = s \<or> length (isub1 r [] s) < length s" for s
  proof (cases "search r (lower s)")
    case (Some pq)
    obtain p q where pq: "pq = (p, q)" by (cases pq)
    have m: "rmatch r p q" and P: "rev (fst p) @ snd p = lower s" and Q: "rev (fst q) @ snd q = lower s"
      using search_SomeD [of r "lower s" p q] Some pq by auto
    have lp: "length (fst p) + length (snd p) = length s" "length (fst q) + length (snd q) = length s"
      using arg_cong [OF P, of length] arg_cong [OF Q, of length] by simp_all
    with rmatch_forward [OF m] have "length (fst p) \<le> length (fst q)" by linarith
    with lp show ?thesis
      by (cases "length (fst p) = length (fst q)") (auto simp: isub1_def Some pq)
  qed (simp add: isub1_def)
  then show ?thesis by (simp add: shrinks_def)
qed

lemma shrinks_unwrap_step: "shrinks unwrap_step"
proof -
  have "shrinks (\<lambda>s. strip_prefix (strip (isub1 STORE_VERB [] (strip (isub1 BULLET [] s)))))"
    by (intro shrinks_comp [OF _ shrinks_strip_prefix] shrinks_comp [OF _ shrinks_strip]
        shrinks_comp [OF _ shrinks_isub1] shrinks_isub1)
  then show ?thesis by (simp add: unwrap_step_def [abs_def])
qed

function unwrap :: "string \<Rightarrow> string" where
  "unwrap t = (let u = unwrap_step t in if u = t then t else unwrap u)"
  by pat_completeness auto
termination
proof (relation "measure length")
  fix t x
  assume "x = unwrap_step t" and "x \<noteq> t"
  then show "(x, t) \<in> measure length"
    using shrinks_unwrap_step unfolding shrinks_def by auto
qed simp

declare unwrap.simps [simp del]

definition normalize_fact :: "string \<Rightarrow> string" where
  "normalize_fact text =
     (let t = unwrap (strip_prefix (strip text)) in if t \<noteq> [] then t else strip text)"

section \<open>What the door and the unwrapping guarantee\<close>

lemma shrinks_stages: "shrinks f \<Longrightarrow> shrinks g \<Longrightarrow> g (f s) = s \<Longrightarrow> f s = s \<and> g s = s"
  unfolding shrinks_def by (metis less_asym less_irrefl)

lemma unwrap_step_unwrap: "unwrap_step (unwrap t) = unwrap t"
proof (induction t rule: unwrap.induct)
  case (1 t)
  then show ?case by (subst (1 2) unwrap.simps) (auto simp: Let_def)
qed

lemma unwrap_id: "unwrap_step t = t \<Longrightarrow> unwrap t = t"
  by (subst unwrap.simps) simp

lemma unwrap_stages:
  assumes "unwrap_step t = t"
  shows "isub1 BULLET [] t = t" "strip t = t" "isub1 STORE_VERB [] t = t" "strip_prefix t = t"
proof -
  note sh = shrinks_comp [OF shrinks_isub1 shrinks_strip]
  have b: "strip (isub1 BULLET [] t) = t"
    and v: "strip_prefix (strip (isub1 STORE_VERB [] t)) = t"
    using shrinks_stages [OF sh shrinks_comp [OF sh shrinks_strip_prefix], of STORE_VERB BULLET t] assms
    by (simp_all add: unwrap_step_def)
  have w: "strip (isub1 STORE_VERB [] t) = t"
    using shrinks_stages [OF sh shrinks_strip_prefix v] by simp
  from shrinks_stages [OF sh shrinks_strip_prefix v] show "strip_prefix t = t" by simp
  from shrinks_stages [OF shrinks_isub1 shrinks_strip b] show "isub1 BULLET [] t = t" "strip t = t"
    by simp_all
  from shrinks_stages [OF shrinks_isub1 shrinks_strip w] show "isub1 STORE_VERB [] t = t" by simp
qed

lemma normalize_fact_eq:
  "unwrap (strip_prefix (strip t)) \<noteq> [] \<Longrightarrow> normalize_fact t = unwrap (strip_prefix (strip t))"
  "unwrap (strip_prefix (strip t)) = [] \<Longrightarrow> normalize_fact t = strip t"
  by (simp_all add: normalize_fact_def)

lemma normalize_fact_idem: "normalize_fact (normalize_fact t) = normalize_fact t"
proof (cases "unwrap (strip_prefix (strip t)) = []")
  case True
  then show ?thesis by (simp add: normalize_fact_eq)
next
  case False
  define u where "u = unwrap (strip_prefix (strip t))"
  have fix_u: "unwrap_step u = u" by (simp add: u_def unwrap_step_unwrap)
  then have "unwrap (strip_prefix (strip u)) = u"
    using unwrap_stages [OF fix_u] by (simp add: unwrap_id)
  with False show ?thesis by (simp add: normalize_fact_def u_def [symmetric])
qed

text \<open>A normalised fact carries no bullet, no store verb and no legacy frame.\<close>

lemma normalize_fact_bare:
  assumes "unwrap (strip_prefix (strip t)) \<noteq> []"
  shows "\<not> startswith (normalize_fact t) USER_PREFIX \<and> strip (normalize_fact t) = normalize_fact t
    \<and> isub1 STORE_VERB [] (normalize_fact t) = normalize_fact t
    \<and> isub1 BULLET [] (normalize_fact t) = normalize_fact t"
proof -
  have f: "unwrap_step (normalize_fact t) = normalize_fact t"
    using assms by (simp add: normalize_fact_eq unwrap_step_unwrap)
  then have "strip_prefix (normalize_fact t) = normalize_fact t" by (rule unwrap_stages)
  then have "\<not> startswith (normalize_fact t) USER_PREFIX"
    by (auto simp: strip_prefix_def startswith_iff USER_PREFIX_def)
  with unwrap_stages [OF f] show ?thesis by simp
qed

lemma is_memorable_strip [door_simps]: "is_memorable (strip s) = is_memorable s"
  by (simp add: is_memorable_def)

lemma memorable_not_machine: "is_memorable s = None \<Longrightarrow> \<not> ifound MACHINE (strip s)"
  by (auto simp: is_memorable_def Let_def split: if_splits)

lemma memorable_claim:
  "is_memorable s = None \<Longrightarrow> core_of (strip s) \<noteq> [] \<and> \<not> endswith (core_of (strip s)) ''?''
    \<and> \<not> ifound IRREALIS (core_of (strip s))
    \<and> ifound STATIVE (claim_of (core_of (strip s))) \<and> ifound ANCHOR (claim_of (core_of (strip s)))"
  by (auto simp: is_memorable_def Let_def split: if_splits)

lemma keep_new_spec:
  assumes "distinct out" and "\<forall>c \<in> set out. c \<noteq> []"
  shows "distinct (keep_new out ss) \<and>
    set (keep_new out ss) = set out \<union> {core_of s | s. s \<in> set ss \<and> is_memorable s = None \<and> core_of s \<noteq> []}"
  using assms
proof (induction ss arbitrary: out)
  case (Cons s ss)
  let ?out = "if is_memorable s = None
        then (let core = core_of s in if core \<noteq> [] \<and> core \<notin> set out then out @ [core] else out) else out"
  have "distinct ?out" "\<forall>c \<in> set ?out. c \<noteq> []"
    using Cons.prems by (auto simp: Let_def)
  from Cons.IH [OF this] show ?case by (auto simp: Let_def)
qed simp

lemma extract_facts_spec:
  "distinct (extract_facts turn) \<and>
   set (extract_facts turn)
     = {core_of s | s. s \<in> set (split_sentences turn) \<and> is_memorable s = None \<and> core_of s \<noteq> []}"
  using keep_new_spec [of "[]" "split_sentences turn"] by (simp add: extract_facts_def)

text \<open>The firewall: her own value, asserted in the first person, never passes his door.\<close>

lemma admit_iff_not_about_self [door_simps]:
  "admit_to_user_store f vs = None \<longleftrightarrow> \<not> about_self f vs"
  by (auto simp: admit_to_user_store_def about_self_def Let_def)

lemma secret_first: "ifound SECRET f \<or> ifound SECRET_POSS f \<Longrightarrow> classify f = ''private-secret''"
  by (simp add: classify_def)

lemma classify_range:
  "classify f \<in> {''private-secret'', ''relationship'', ''identity'', ''event'', ''preference'', ''fact''}"
  by (simp add: classify_def)

lemma attribute_key_possessive:
  "attribute_key f sp = Some k \<Longrightarrow> \<exists>p q. search COPULA (lower f) = Some (p, q)
     \<and> imatch POSSESSIVE (strip (take (length (fst p)) f)) \<and> (\<exists>subj. k = sp @ ''::'' @ subj \<and> 3 \<le> length subj)"
  by (auto simp: attribute_key_def Let_def split: option.splits if_splits)

end
