(* ===== verification/Clock.thy ===== *)
theory Clock imports Prelude begin

text \<open>
  The clock the stores share. Every stamp is written with
  \<open>time.strftime("%Y-%m-%dT%H:%M:%SZ", time.gmtime(t))\<close> and read back with
  \<open>calendar.timegm(time.strptime(...))\<close>. This theory models that part of the standard library
  (the proleptic Gregorian calendar, times from 1970 on) and proves the round trip the sources
  ask for: what was written at second \<open>t\<close> is read back as \<open>t\<close>.
\<close>

record tm =
  tm_year :: int
  tm_mon :: int
  tm_mday :: int
  tm_hour :: int
  tm_min :: int
  tm_sec :: int

definition leap :: "int \<Rightarrow> bool" where
  "leap y \<longleftrightarrow> y mod 4 = 0 \<and> (y mod 100 \<noteq> 0 \<or> y mod 400 = 0)"

definition year_len :: "int \<Rightarrow> int" where
  "year_len y = (if leap y then 366 else 365)"

definition months :: "int \<Rightarrow> int list" where
  "months y = [31, if leap y then 29 else 28, 31, 30, 31, 30, 31, 31, 30, 31, 30, 31]"

definition days_before_year :: "int \<Rightarrow> int" where
  "days_before_year y = 365 * (y - 1970) + ((y - 1) div 4 - (y - 1) div 100 + (y - 1) div 400) - 477"

definition days_before_month :: "int \<Rightarrow> int \<Rightarrow> int" where
  "days_before_month y m = sum_list (take (nat (m - 1)) (months y))"

function year_of :: "int \<Rightarrow> int \<Rightarrow> int" where
  "year_of d y = (if days_before_year (y + 1) \<le> d \<and> y < 1970 + d then year_of d (y + 1) else y)"
  by pat_completeness auto
termination
  by (relation "measure (\<lambda>(d, y). nat (1970 + d - y))") auto

declare year_of.simps [simp del]

fun month_of :: "int list \<Rightarrow> int \<Rightarrow> int \<Rightarrow> int \<times> int" where
  "month_of (l # k # ls) m d = (if d < l then (m, d) else month_of (k # ls) (m + 1) (d - l))"
| "month_of _ m d = (m, d)"

definition gmtime :: "int \<Rightarrow> tm" where
  "gmtime t =
     (let d = t div 86400; s = t mod 86400; y = year_of d 1970;
          (m, k) = month_of (months y) 1 (d - days_before_year y)
      in \<lparr>tm_year = y, tm_mon = m, tm_mday = k + 1,
          tm_hour = s div 3600, tm_min = s mod 3600 div 60, tm_sec = s mod 60\<rparr>)"

definition timegm :: "tm \<Rightarrow> int" where
  "timegm x =
     (((days_before_year (tm_year x) + days_before_month (tm_year x) (tm_mon x) + tm_mday x - 1) * 24
        + tm_hour x) * 60 + tm_min x) * 60 + tm_sec x"

section \<open>Writing and reading a stamp\<close>

definition digit :: "int \<Rightarrow> char" where
  "digit n = char_of (48 + n)"

definition dec2 :: "int \<Rightarrow> string" where
  "dec2 n = [digit (n div 10), digit (n mod 10)]"

definition dec4 :: "int \<Rightarrow> string" where
  "dec4 n = dec2 (n div 100) @ dec2 (n mod 100)"

definition strftime_day :: "tm \<Rightarrow> string" where
  "strftime_day x = dec4 (tm_year x) @ ''-'' @ dec2 (tm_mon x) @ ''-'' @ dec2 (tm_mday x)"

definition strftime :: "tm \<Rightarrow> string" where
  "strftime x = strftime_day x @ ''T'' @ dec2 (tm_hour x) @ '':'' @ dec2 (tm_min x) @ '':''
     @ dec2 (tm_sec x) @ ''Z''"

definition undec :: "string \<Rightarrow> int" where
  "undec s = foldl (\<lambda>n c. n * 10 + (code c - 48)) 0 s"

text \<open>
  A numeric field of \<open>strptime\<close>: between \<open>lo\<close> and \<open>hi\<close> digits, then the separator \<open>sep\<close>, with
  the number in its range.
\<close>

definition field :: "nat \<Rightarrow> nat \<Rightarrow> string \<Rightarrow> int \<Rightarrow> int \<Rightarrow> string \<Rightarrow> (int \<times> string) option" where
  "field lo hi sep a b s =
     (let ds = takeWhile is_digit s; rest = dropWhile is_digit s; n = undec ds
      in if lo \<le> length ds \<and> length ds \<le> hi \<and> a \<le> n \<and> n \<le> b \<and> startswith rest sep
         then Some (n, drop (length sep) rest) else None)"

definition strptime :: "string \<Rightarrow> tm option" where
  "strptime s =
     Option.bind (field 4 4 ''-'' 1 9999 s) (\<lambda>(y, s).
     Option.bind (field 1 2 ''-'' 1 12 s) (\<lambda>(mo, s).
     Option.bind (field 1 2 ''T'' 1 31 s) (\<lambda>(d, s).
     Option.bind (field 1 2 '':'' 0 23 s) (\<lambda>(h, s).
     Option.bind (field 1 2 '':'' 0 59 s) (\<lambda>(mi, s).
     Option.bind (field 1 2 ''Z'' 0 61 s) (\<lambda>(se, s).
       if s = [] \<and> d \<le> months y ! nat (mo - 1)
       then Some \<lparr>tm_year = y, tm_mon = mo, tm_mday = d, tm_hour = h, tm_min = mi, tm_sec = se\<rparr>
       else None))))))"

definition stamp_of :: "real \<Rightarrow> string" where
  "stamp_of t = strftime (gmtime \<lfloor>t\<rfloor>)"

definition day_of :: "real \<Rightarrow> string" where
  "day_of t = strftime_day (gmtime \<lfloor>t\<rfloor>)"

text \<open>The seconds a stamp denotes, or \<open>None\<close> where \<open>strptime\<close> raises.\<close>

definition read_stamp :: "string \<Rightarrow> int option" where
  "read_stamp s = map_option timegm (strptime s)"

section \<open>The calendar is consistent\<close>

lemma div_step:
  assumes "0 < (k :: int)"
  shows "y div k = (y - 1) div k + (if y mod k = 0 then 1 else 0)"
proof (cases "y mod k = 0")
  case True
  then obtain q where q: "y = k * q" by (metis dvd_def mod_0_imp_dvd)
  have "(k * q - 1) div k = q - 1"
    by (rule int_div_pos_eq [where r = "k - 1"]) (use assms in \<open>simp_all add: algebra_simps\<close>)
  with q assms show ?thesis by simp
next
  case False
  have "y mod k < k" "0 \<le> y mod k" using assms by simp_all
  with False have "(y - 1) div k = y div k"
    by (intro int_div_pos_eq [where r = "y mod k - 1"]) (auto simp: algebra_simps)
  with False show ?thesis by simp
qed

lemma days_before_year_Suc: "days_before_year (y + 1) = days_before_year y + year_len y"
proof -
  define a b c where "a = (y - 1) div 4" and "b = (y - 1) div 100" and "c = (y - 1) div 400"
  have nest: "y mod 100 = 0 \<Longrightarrow> y mod 4 = 0" "y mod 400 = 0 \<Longrightarrow> y mod 100 = 0"
    using mod_mod_cancel [of 4 100 y] mod_mod_cancel [of 100 400 y] by auto
  have "days_before_year (y + 1) = 365 * (y + 1 - 1970) + ((a + of_bool (y mod 4 = 0))
      - (b + of_bool (y mod 100 = 0)) + (c + of_bool (y mod 400 = 0))) - 477"
    using div_step [of 4 y] div_step [of 100 y] div_step [of 400 y]
    by (simp only: days_before_year_def a_def b_def c_def add_diff_cancel_right' of_bool_def)
  moreover have "days_before_year y = 365 * (y - 1970) + (a - b + c) - 477"
    by (simp only: days_before_year_def a_def b_def c_def)
  ultimately show ?thesis
    using nest by (cases "y mod 4 = 0"; cases "y mod 100 = 0"; cases "y mod 400 = 0")
      (simp_all add: year_len_def leap_def)
qed

lemma sum_months: "sum_list (months y) = year_len y"
  by (simp add: months_def year_len_def)

lemma days_before_year_ge: "1970 \<le> y \<Longrightarrow> y - 1970 \<le> days_before_year y"
proof (induction y rule: int_ge_induct)
  case base
  show ?case by (simp add: days_before_year_def)
next
  case (step i)
  then show ?case by (simp add: days_before_year_Suc year_len_def)
qed

lemma year_of_bounds:
  assumes "days_before_year y \<le> d" and "1970 \<le> y"
  shows "days_before_year (year_of d y) \<le> d \<and> d < days_before_year (year_of d y + 1)
    \<and> 1970 \<le> year_of d y"
  using assms
proof (induction d y rule: year_of.induct)
  case (1 d y)
  show ?case
  proof (cases "days_before_year (y + 1) \<le> d")
    case True
    with 1(3) have "y < 1970 + d" using days_before_year_ge [of "y + 1"] by simp
    with True 1 show ?thesis by (subst (1 2 3) year_of.simps) simp
  next
    case False
    with 1 show ?thesis by (subst (1 2 3) year_of.simps) simp
  qed
qed

lemma month_of_spec:
  assumes "month_of ls m d = (m', k)" and "0 \<le> d" and "d < sum_list ls" and "ls \<noteq> []"
  shows "m \<le> m' \<and> m' < m + int (length ls) \<and> 0 \<le> k \<and> k < ls ! nat (m' - m)
    \<and> sum_list (take (nat (m' - m)) ls) + k = d"
  using assms
proof (induction ls m d arbitrary: m' k rule: month_of.induct)
  case (1 l k2 ls m d)
  show ?case
  proof (cases "d < l")
    case True
    with 1(2-4) show ?thesis by auto
  next
    case False
    have IH: "m + 1 \<le> m' \<and> m' < m + 1 + int (length (k2 # ls)) \<and> 0 \<le> k
      \<and> k < (k2 # ls) ! nat (m' - (m + 1)) \<and> sum_list (take (nat (m' - (m + 1))) (k2 # ls)) + k = d - l"
      using 1(1)[OF False] 1(2-4) False by auto
    then have "nat (m' - m) = Suc (nat (m' - (m + 1)))" by auto
    with IH show ?thesis by auto
  qed
qed auto

lemma div_lt: "0 < (k :: int) \<Longrightarrow> a < k * n \<Longrightarrow> a div k < n"
proof (rule ccontr)
  assume k: "0 < k" and a: "a < k * n" and "\<not> a div k < n"
  then have "k * n \<le> k * (a div k)" by simp
  moreover have "k * (a div k) + a mod k = a" by simp
  moreover have "0 \<le> a mod k" using k by simp
  ultimately show False using a by linarith
qed

lemma hms: "(s div 3600 * 60 + s mod 3600 div 60) * 60 + s mod 60 = (s :: int)"
proof -
  have "s mod 60 = (s mod 3600) mod 60" by (simp add: mod_mod_cancel)
  then have m: "s mod 3600 div 60 * 60 + s mod 60 = s mod 3600" by simp
  have "(s div 3600 * 60 + s mod 3600 div 60) * 60 + s mod 60
      = s div 3600 * 3600 + (s mod 3600 div 60 * 60 + s mod 60)" by (simp add: distrib_right)
  also have "\<dots> = s" unfolding m by simp
  finally show ?thesis .
qed

lemma gmtime_ok:
  assumes "0 \<le> t"
  shows "timegm (gmtime t) = t" "1 \<le> tm_mon (gmtime t)" "tm_mon (gmtime t) \<le> 12"
    "1 \<le> tm_mday (gmtime t)" "tm_mday (gmtime t) \<le> months (tm_year (gmtime t)) ! nat (tm_mon (gmtime t) - 1)"
    "1970 \<le> tm_year (gmtime t)" "0 \<le> tm_hour (gmtime t)" "tm_hour (gmtime t) < 24"
    "0 \<le> tm_min (gmtime t)" "tm_min (gmtime t) < 60" "0 \<le> tm_sec (gmtime t)" "tm_sec (gmtime t) < 60"
proof -
  define d where "d = t div 86400"
  define s where "s = t mod 86400"
  define y where "y = year_of d 1970"
  obtain m k where mk: "month_of (months y) 1 (d - days_before_year y) = (m, k)" by fastforce
  have d0: "0 \<le> d" using assms by (simp add: d_def)
  have yb: "days_before_year y \<le> d" "d < days_before_year (y + 1)" "1970 \<le> y"
    using year_of_bounds [of 1970 d] d0 by (auto simp: y_def days_before_year_def)
  have ms: "1 \<le> m \<and> m < 1 + int (length (months y)) \<and> 0 \<le> k \<and> k < months y ! nat (m - 1)
      \<and> sum_list (take (nat (m - 1)) (months y)) + k = d - days_before_year y"
    using month_of_spec [OF mk] yb sum_months [of y] by (simp add: days_before_year_Suc months_def)
  have g: "gmtime t = \<lparr>tm_year = y, tm_mon = m, tm_mday = k + 1,
      tm_hour = s div 3600, tm_min = s mod 3600 div 60, tm_sec = s mod 60\<rparr>"
    using mk by (simp add: gmtime_def Let_def d_def [symmetric] s_def [symmetric] y_def [symmetric])
  have s: "0 \<le> s" "s < 86400" "t = d * 86400 + s" by (auto simp: s_def d_def)
  show "timegm (gmtime t) = t"
  proof -
    have "days_before_year y + days_before_month y m + (k + 1) - 1 = d"
      using ms by (simp add: days_before_month_def)
    then have "timegm (gmtime t) = ((d * 24 + s div 3600) * 60 + s mod 3600 div 60) * 60 + s mod 60"
      by (simp add: g timegm_def)
    also have "\<dots> = d * 86400 + ((s div 3600 * 60 + s mod 3600 div 60) * 60 + s mod 60)"
      by (simp add: algebra_simps)
    finally show ?thesis by (simp only: hms s(3))
  qed
  show "1 \<le> tm_mon (gmtime t)" "tm_mon (gmtime t) \<le> 12" "1 \<le> tm_mday (gmtime t)"
    "tm_mday (gmtime t) \<le> months (tm_year (gmtime t)) ! nat (tm_mon (gmtime t) - 1)"
    "1970 \<le> tm_year (gmtime t)"
    using ms yb by (simp_all add: g months_def)
  show "0 \<le> tm_hour (gmtime t)" "tm_hour (gmtime t) < 24" "0 \<le> tm_min (gmtime t)"
    "tm_min (gmtime t) < 60" "0 \<le> tm_sec (gmtime t)" "tm_sec (gmtime t) < 60"
    using s(1,2) pos_mod_bound [of 3600 s] pos_mod_sign [of 3600 s] by (simp_all add: g div_lt)
qed

section \<open>The text round trip\<close>

lemma code_digit: "0 \<le> n \<Longrightarrow> n \<le> 9 \<Longrightarrow> code (digit n) = 48 + n"
  by (simp add: code_def digit_def of_char_of)

lemma mod10_le: "n mod 10 \<le> (9 :: int)"
  using pos_mod_bound [of 10 n] by simp

lemma dec2_digits: "0 \<le> n \<Longrightarrow> n < 100 \<Longrightarrow> list_all is_digit (dec2 n) \<and> undec (dec2 n) = n"
  using div_lt [of 10 n 10] pos_imp_zdiv_nonneg_iff [of 10 n]
  by (simp add: dec2_def is_digit_def undec_def code_digit mod10_le)

lemma dec4_digits: "0 \<le> n \<Longrightarrow> n < 10000 \<Longrightarrow> list_all is_digit (dec4 n) \<and> undec (dec4 n) = n"
proof -
  assume n: "0 \<le> n" "n < 10000"
  then have b: "n div 100 < 100" "0 \<le> n div 100" "n mod 100 < 100" "0 \<le> n mod 100"
    using div_lt [of 100 n 100] by simp_all
  have u: "undec (dec2 a @ dec2 c) = a * 100 + c" if "0 \<le> a" "a < 100" "0 \<le> c" "c < 100" for a c
  proof -
    have "a div 10 < 10" "c div 10 < 10" using div_lt [of 10 a 10] div_lt [of 10 c 10] that by simp_all
    then have "undec (dec2 a @ dec2 c)
        = (a div 10 * 10 + a mod 10) * 100 + (c div 10 * 10 + c mod 10)"
      using that pos_imp_zdiv_nonneg_iff [of 10 a] pos_imp_zdiv_nonneg_iff [of 10 c]
      by (simp add: dec2_def undec_def code_digit mod10_le)
    then show ?thesis by simp
  qed
  show ?thesis using dec2_digits b u [OF b(2,1,4,3)] by (simp add: dec4_def)
qed

lemma field_digits:
  assumes "list_all is_digit ds" and "\<not> is_digit c" and "lo \<le> length ds" and "length ds \<le> hi"
    and "a \<le> undec ds" and "undec ds \<le> b"
  shows "field lo hi [c] a b (ds @ c # rest) = Some (undec ds, rest)"
proof -
  have "takeWhile is_digit (ds @ c # rest) = ds" "dropWhile is_digit (ds @ c # rest) = c # rest"
    using assms(1,2) by (simp_all add: list_all_iff takeWhile_append2 dropWhile_append2)
  with assms show ?thesis by (simp add: field_def Let_def startswith_def)
qed

lemma length_dec [simp]: "length (dec2 n) = 2" "length (dec4 n) = 4"
  by (simp_all add: dec2_def dec4_def)

lemma months_le: "0 \<le> m \<Longrightarrow> m < 12 \<Longrightarrow> months y ! nat m \<le> 31"
proof -
  assume "0 \<le> m" "m < 12"
  then have "months y ! nat m \<in> set (months y)" by (intro nth_mem) (simp add: months_def nat_less_iff)
  then show ?thesis by (auto simp: months_def split: if_splits)
qed

text \<open>A tuple whose fields are in range: what \<open>strftime\<close> writes for it, \<open>strptime\<close> reads back.\<close>

definition tm_ok :: "tm \<Rightarrow> bool" where
  "tm_ok x \<longleftrightarrow> 1 \<le> tm_year x \<and> tm_year x \<le> 9999 \<and> 1 \<le> tm_mon x \<and> tm_mon x \<le> 12 \<and> 1 \<le> tm_mday x
     \<and> tm_mday x \<le> months (tm_year x) ! nat (tm_mon x - 1) \<and> 0 \<le> tm_hour x \<and> tm_hour x < 24
     \<and> 0 \<le> tm_min x \<and> tm_min x < 60 \<and> 0 \<le> tm_sec x \<and> tm_sec x < 60"

lemma field2:
  assumes "0 \<le> n" "n < 100" "a \<le> n" "n \<le> b" "\<not> is_digit c"
  shows "field (Suc 0) 2 [c] a b (dec2 n @ c # rest) = Some (n, rest)"
  using field_digits [of "dec2 n" c "Suc 0" 2 a b rest] dec2_digits [of n] assms by simp

lemma strptime_strftime: "tm_ok x \<Longrightarrow> strptime (strftime x) = Some x"
proof -
  assume ok: "tm_ok x"
  have nd: "\<not> is_digit CHR ''-''" "\<not> is_digit CHR ''T''" "\<not> is_digit CHR '':''" "\<not> is_digit CHR ''Z''"
    by (simp_all add: is_digit_def code_def)
  have d31: "tm_mday x \<le> 31" using ok months_le [of "tm_mon x - 1" "tm_year x"] by (simp add: tm_ok_def)
  have y: "field 4 4 ''-'' 1 9999 (dec4 (tm_year x) @ CHR ''-'' # rest) = Some (tm_year x, rest)" for rest
    using field_digits [of "dec4 (tm_year x)" "CHR ''-''" 4 4 1 9999 rest] dec4_digits [of "tm_year x"]
      ok nd by (simp add: tm_ok_def)
  show ?thesis
    using ok d31 by (simp add: strptime_def strftime_def strftime_day_def y field2 nd tm_ok_def)
qed

lemma gmtime_tm_ok: "0 \<le> t \<Longrightarrow> tm_year (gmtime t) \<le> 9999 \<Longrightarrow> tm_ok (gmtime t)"
  using gmtime_ok [of t] by (simp add: tm_ok_def)

text \<open>The round trip of the stores' stamps (the sources' G-CLOCK assertion).\<close>

lemma read_stamp_of:
  "0 \<le> t \<Longrightarrow> tm_year (gmtime \<lfloor>t\<rfloor>) \<le> 9999 \<Longrightarrow> read_stamp (stamp_of t) = Some \<lfloor>t\<rfloor>"
  by (simp add: read_stamp_def stamp_of_def strptime_strftime gmtime_tm_ok gmtime_ok)

end
