(* ===== verification/Rows.thy ===== *)
theory Rows imports Admission Clock begin

text \<open>
  A row of the fact registry and the row-level functions of \<open>harness/skills/lifecycle.py\<close>: the
  status of a claim, the rule that testimony outranks inference at recall time, the age and the
  salience of a memory, reinforcement, and the stamp a new row receives.

  A missing key and an empty value are told apart (\<open>option\<close>) exactly where the source tells them
  apart. A missing or null \<open>lifecycle\<close> is 0 (live); any other value is a tombstone.
\<close>

record row =
  r_name :: "string option"
  r_dir :: string
  r_npos :: int
  r_topic :: string
  r_text :: string
  r_speaker :: "string option"
  r_status :: string
  r_class :: string
  r_src :: "string option"
  r_ts :: "string option"
  r_verified :: bool
  r_lifecycle :: int
  r_superseded_by :: string
  r_superseded_at :: string
  r_forgotten_at :: string
  r_supersedes :: "string list"
  r_mentions :: "int option"
  r_first_seen :: "string option"
  r_last_seen :: "string option"
  r_recalled :: "int option"
  r_minted_at :: string

definition live :: "row \<Rightarrow> bool" where
  "live r \<longleftrightarrow> r_lifecycle r = 0"

text \<open>\<open>d.get(k) or alt\<close> for a string: a missing key and an empty value both yield \<open>alt\<close>.\<close>

definition or_str :: "string option \<Rightarrow> string \<Rightarrow> string" where
  "or_str v alt = (case v of None \<Rightarrow> alt | Some s \<Rightarrow> if s = [] then alt else s)"

definition get_str :: "string option \<Rightarrow> string \<Rightarrow> string" where
  "get_str v dflt = (case v of None \<Rightarrow> dflt | Some s \<Rightarrow> s)"

definition row_text :: "row \<Rightarrow> string" where
  "row_text e = (if r_text e \<noteq> [] then r_text e else r_topic e)"

section \<open>Claim status\<close>

definition STATUS_OBSERVED :: string where "STATUS_OBSERVED = ''observed''"

definition STATUS_INFERRED :: string where "STATUS_INFERRED = ''inferred''"

definition STATUS_CONFIRMED :: string where "STATUS_CONFIRMED = ''confirmed''"

definition STATUS_DISPUTED :: string where "STATUS_DISPUTED = ''disputed''"

definition GROUND_TRUTH :: "string set" where
  "GROUND_TRUTH = {STATUS_OBSERVED, STATUS_CONFIRMED}"

definition status_of :: "row \<Rightarrow> string" where
  "status_of r =
     (if r_status r \<noteq> [] then r_status r
      else (let src = lower (or_str (r_src r) [])
            in if contains src ''reflection'' \<or> contains src ''insight'' then STATUS_INFERRED
               else STATUS_OBSERVED))"

definition ground :: "row \<Rightarrow> bool" where
  "ground r \<longleftrightarrow> status_of r \<in> GROUND_TRUTH"

lemma status_vocab [law_simps]:
  "STATUS_OBSERVED \<in> GROUND_TRUTH" "STATUS_CONFIRMED \<in> GROUND_TRUTH" "STATUS_INFERRED \<notin> GROUND_TRUTH"
  "STATUS_DISPUTED \<notin> GROUND_TRUTH"
  by (simp_all add: GROUND_TRUTH_def STATUS_OBSERVED_def STATUS_CONFIRMED_def STATUS_INFERRED_def
      STATUS_DISPUTED_def)

lemma status_of_nonempty: "status_of r \<noteq> []"
  by (simp add: status_of_def Let_def STATUS_INFERRED_def STATUS_OBSERVED_def)

lemma status_of_field [law_simps]: "r_status r \<noteq> [] \<Longrightarrow> status_of r = r_status r"
  by (simp add: status_of_def)

section \<open>Testimony outranks inference\<close>

definition topics :: "row \<Rightarrow> string set" where
  "topics e = topic_of (strip_prefix (row_text e))"

definition covered :: "nat \<Rightarrow> row list \<Rightarrow> row \<Rightarrow> bool" where
  "covered overlap spoken e \<longleftrightarrow>
     (\<exists>g \<in> set spoken. get_str (r_speaker g) ''user'' = get_str (r_speaker e) ''user''
        \<and> overlap \<le> card (topics e \<inter> topics g))"

definition testimony_wins :: "(real \<times> row) list \<Rightarrow> nat \<Rightarrow> (real \<times> row) list" where
  "testimony_wins scored overlap =
     (let spoken = filter ground (map snd scored)
      in if spoken = [] then scored
         else filter (\<lambda>(s, e). ground e \<or> \<not> covered overlap spoken e) scored)"

lemma testimony_wins_filter:
  "testimony_wins scored n
     = filter (\<lambda>(s, e). ground e \<or> \<not> covered n (filter ground (map snd scored)) e) scored"
proof (cases "filter ground (map snd scored) = []")
  case True
  then show ?thesis
    by (simp add: testimony_wins_def covered_def case_prod_unfold)
qed (simp add: testimony_wins_def)

lemma subseq_testimony_wins: "subseq (testimony_wins scored n) scored"
  by (simp add: testimony_wins_filter)

lemma testimony_wins_ground:
  "filter (\<lambda>(s, e). ground e) (testimony_wins scored n) = filter (\<lambda>(s, e). ground e) scored"
  unfolding testimony_wins_filter filter_filter by (rule filter_cong) auto

lemma testimony_wins_silences:
  assumes "(s, e) \<in> set (testimony_wins scored n)" and "\<not> ground e"
    and "(s', g) \<in> set (testimony_wins scored n)" and "ground g"
    and "get_str (r_speaker g) ''user'' = get_str (r_speaker e) ''user''"
  shows "card (topics e \<inter> topics g) < n"
proof (rule ccontr)
  assume "\<not> ?thesis"
  moreover have "g \<in> set (filter ground (map snd scored))"
    using assms(3,4) by (force simp: testimony_wins_filter)
  ultimately have "covered n (filter ground (map snd scored)) e"
    unfolding covered_def using assms(5) by (intro bexI [of _ g]) auto
  with assms(1,2) show False by (auto simp: testimony_wins_filter)
qed

section \<open>Age and salience\<close>

definition age_days :: "string \<Rightarrow> real \<Rightarrow> real" where
  "age_days ts now =
     (if ts = [] then 0
      else (case read_stamp ts of None \<Rightarrow> 0 | Some t \<Rightarrow> max 0 ((now - of_int t) / 86400)))"

definition NEVER :: real where
  "NEVER = 1000000000"

definition HALF_LIFE_BY_CLASS :: "(string \<times> real) list" where
  "HALF_LIFE_BY_CLASS =
     [(''identity'', NEVER), (''preference'', NEVER), (''relationship'', NEVER), (''persona'', 3650),
      (''private-secret'', 3650), (''fact'', 365), (''event'', 3), (''episodic-event'', 3)]"

definition half_life :: "string \<Rightarrow> real" where
  "half_life cls = (case map_of HALF_LIFE_BY_CLASS cls of None \<Rightarrow> 45 | Some h \<Rightarrow> h)"

definition class_weight :: "string \<Rightarrow> real" where
  "class_weight cls =
     (case map_of [(''identity'', 16 / 10), (''preference'', 13 / 10), (''relationship'', 13 / 10),
        (''persona'', 12 / 10), (''private-secret'', 12 / 10)] cls of None \<Rightarrow> 1 | Some w \<Rightarrow> w)"

text \<open>Python's \<open>round\<close>: to the nearest integer, ties to even.\<close>

definition py_round :: "real \<Rightarrow> int" where
  "py_round x =
     (let f = \<lfloor>x\<rfloor>; d = x - of_int f
      in if d < 1 / 2 then f else if 1 / 2 < d then f + 1 else if even f then f else f + 1)"

definition round4 :: "real \<Rightarrow> real" where
  "round4 x = of_int (py_round (x * 10000)) / 10000"

definition or_int :: "int option \<Rightarrow> int \<Rightarrow> int" where
  "or_int v alt = (case v of None \<Rightarrow> alt | Some n \<Rightarrow> if n = 0 then alt else n)"

definition salience_raw :: "string \<Rightarrow> int \<Rightarrow> real \<Rightarrow> real" where
  "salience_raw cls m age =
     class_weight cls * (1 + ln (1 + of_int m)) * (35 / 100 + 65 / 100 * (1 / 2) powr (age / half_life cls))"

definition salience :: "row \<Rightarrow> real \<Rightarrow> real" where
  "salience r now =
     (let cls = (if r_class r = [] then ''fact'' else r_class r);
          m = max 1 (or_int (r_mentions r) 1);
          age = age_days (or_str (r_last_seen r) (or_str (r_ts r) [])) now
      in round4 (salience_raw cls m age))"

lemma half_life_pos: "0 < half_life cls"
  by (auto simp: half_life_def HALF_LIFE_BY_CLASS_def NEVER_def split: option.splits if_splits)

lemma class_weight_range: "1 \<le> class_weight cls \<and> class_weight cls \<le> 16 / 10"
  by (auto simp: class_weight_def split: option.splits if_splits)

lemma age_days_nonneg: "0 \<le> age_days ts now"
  by (simp add: age_days_def split: option.splits)

text \<open>A stamp read at the second it was written has age zero: no phantom hours.\<close>

lemma age_days_now:
  "0 \<le> t \<Longrightarrow> tm_year (gmtime \<lfloor>t\<rfloor>) \<le> 9999 \<Longrightarrow>
   age_days (stamp_of t) now = max 0 ((now - of_int \<lfloor>t\<rfloor>) / 86400)"
  using read_stamp_of [of t]
  by (auto simp: age_days_def stamp_of_def strftime_def strftime_day_def dec4_def dec2_def)

lemma py_round_mono: "x \<le> y \<Longrightarrow> py_round x \<le> py_round y"
proof -
  assume xy: "x \<le> y"
  have near: "\<lfloor>z\<rfloor> \<le> py_round z \<and> py_round z \<le> \<lfloor>z\<rfloor> + 1" for z
    by (auto simp: py_round_def Let_def)
  show ?thesis
  proof (cases "\<lfloor>x\<rfloor> = \<lfloor>y\<rfloor>")
    case True
    with xy show ?thesis by (auto simp: py_round_def Let_def)
  next
    case False
    with xy floor_mono [OF xy] have "\<lfloor>x\<rfloor> + 1 \<le> \<lfloor>y\<rfloor>" by linarith
    then show ?thesis using near [of x] near [of y] by linarith
  qed
qed

lemma round4_mono: "x \<le> y \<Longrightarrow> round4 x \<le> round4 y"
  by (simp add: round4_def py_round_mono divide_right_mono)

lemma half_powr_antimono: "x \<le> y \<Longrightarrow> (1 / 2 :: real) powr y \<le> (1 / 2) powr x"
  by (simp add: powr_mono')

lemma salience_raw_mono:
  assumes "1 \<le> m" "m \<le> n" "b \<le> a"
  shows "salience_raw cls m a \<le> salience_raw cls n b"
proof -
  have w: "0 < class_weight cls" using class_weight_range [of cls] by linarith
  have l: "0 \<le> ln (1 + of_int m :: real)" "ln (1 + of_int m :: real) \<le> ln (1 + of_int n)"
    using assms by auto
  have "(1 / 2 :: real) powr (a / half_life cls) \<le> (1 / 2) powr (b / half_life cls)"
    by (intro half_powr_antimono divide_right_mono assms) (simp add: half_life_pos less_imp_le)
  with w l show ?thesis unfolding salience_raw_def by (intro mult_mono add_mono) auto
qed

section \<open>Reinforcement, lookups, and the stamp of a new row\<close>

definition reinforce :: "row \<Rightarrow> string \<Rightarrow> row" where
  "reinforce r now_iso =
     r\<lparr>r_mentions := Some (or_int (r_mentions r) 1 + 1), r_last_seen := Some now_iso,
       r_first_seen := (case r_first_seen r of Some f \<Rightarrow> Some f | None \<Rightarrow> Some (or_str (r_ts r) now_iso))\<rparr>"

definition note_recalled :: "row \<Rightarrow> row" where
  "note_recalled r = r\<lparr>r_recalled := Some (or_int (r_recalled r) 0 + 1)\<rparr>"

definition setdefault :: "'a option \<Rightarrow> 'a \<Rightarrow> 'a option" where
  "setdefault v d = (case v of Some x \<Rightarrow> Some x | None \<Rightarrow> Some d)"

definition stamp :: "row \<Rightarrow> string \<Rightarrow> string \<Rightarrow> string \<Rightarrow> string list \<Rightarrow> string \<Rightarrow> row" where
  "stamp r fct speaker src supersedes now_iso =
     (let src' = (if src \<noteq> [] then src else if speaker = ''self'' then ''self'' else ''user turn'')
      in r\<lparr>r_text := fct, r_speaker := Some speaker, r_class := classify fct, r_src := Some src',
           r_status := (if r_status r \<noteq> [] then r_status r
                        else if contains src' ''reflection'' then STATUS_INFERRED else STATUS_OBSERVED),
           r_ts := Some now_iso, r_verified := False,
           r_mentions := setdefault (r_mentions r) 1,
           r_first_seen := setdefault (r_first_seen r) now_iso,
           r_last_seen := setdefault (r_last_seen r) now_iso,
           r_recalled := setdefault (r_recalled r) 0,
           r_supersedes := (if supersedes \<noteq> [] then supersedes else r_supersedes r)\<rparr>)"

lemma reinforce_salience:
  assumes "0 \<le> t" "tm_year (gmtime \<lfloor>t\<rfloor>) \<le> 9999" "t \<le> now"
    and "age_days (stamp_of t) now \<le> age_days (or_str (r_last_seen r) (or_str (r_ts r) [])) now"
  shows "salience r now \<le> salience (reinforce r (stamp_of t)) now"
proof -
  have ne: "stamp_of t \<noteq> []" by (simp add: stamp_of_def strftime_def strftime_day_def dec4_def dec2_def)
  have "1 \<le> max 1 (or_int (r_mentions r) 1)"
    "max 1 (or_int (r_mentions r) 1) \<le> max 1 (or_int (Some (or_int (r_mentions r) 1 + 1)) 1)"
    by (auto simp: or_int_def split: option.splits)
  then show ?thesis
    using assms(4) ne by (simp add: salience_def reinforce_def Let_def or_str_def round4_mono salience_raw_mono)
qed

lemma stamp_fields [row_simps]:
  "r_text (stamp r f sp src ss n) = f" "r_speaker (stamp r f sp src ss n) = Some sp"
  "r_class (stamp r f sp src ss n) = classify f" "r_name (stamp r f sp src ss n) = r_name r"
  "r_lifecycle (stamp r f sp src ss n) = r_lifecycle r" "r_ts (stamp r f sp src ss n) = Some n"
  "r_dir (stamp r f sp src ss n) = r_dir r"
  by (simp_all add: stamp_def Let_def)

lemma reinforce_fields [row_simps]:
  "r_text (reinforce r n) = r_text r" "r_topic (reinforce r n) = r_topic r"
  "r_name (reinforce r n) = r_name r" "r_lifecycle (reinforce r n) = r_lifecycle r"
  "r_status (reinforce r n) = r_status r" "r_src (reinforce r n) = r_src r"
  "r_speaker (reinforce r n) = r_speaker r" "r_dir (reinforce r n) = r_dir r"
  by (simp_all add: reinforce_def)

lemma note_recalled_fields [row_simps]:
  "r_text (note_recalled r) = r_text r" "r_topic (note_recalled r) = r_topic r"
  "r_name (note_recalled r) = r_name r" "r_lifecycle (note_recalled r) = r_lifecycle r"
  "r_mentions (note_recalled r) = r_mentions r" "r_status (note_recalled r) = r_status r"
  "r_src (note_recalled r) = r_src r" "r_speaker (note_recalled r) = r_speaker r"
  by (simp_all add: note_recalled_def)

end
