(* ===== verification/Slots.thy ===== *)
theory Slots imports Rows begin

text \<open>
  \<open>harness/skills/slots.py\<close> and the address of \<open>harness/skills/semindex.py\<close>: the append-only sidecar
  of same-subject links, the order-frame proposer, the scan of the gap zone and the operator's
  review queue. The served model's judgement (\<open>ask_oracle\<close> after its one-word parse) and the digest
  (sha-256 of the standard library, in hexadecimal) are parameters. A sidecar line that is not a
  link record is skipped by the reader, so the model's sidecar holds records only.
\<close>

section \<open>Addresses\<close>

fun unix_lines :: "string \<Rightarrow> string" where
  "unix_lines (a # b # s) =
     (if a = CHR 0x0D \<and> b = CHR 0x0A then CHR 0x0A # unix_lines s else a # unix_lines (b # s))"
| "unix_lines s = s"

definition norm_body :: "string \<Rightarrow> string" where
  "norm_body body = strip (unix_lines body) @ nl"

definition addr_of :: "(string \<Rightarrow> string) \<Rightarrow> string \<Rightarrow> string" where
  "addr_of digest t = take 16 (digest (norm_body t))"

section \<open>The sidecar\<close>

record link =
  l_a :: string
  l_b :: string
  l_verdict :: string
  l_oracle :: string

text \<open>The sidecar is \<open>None\<close> when \<open>SP_SEM_SLOTS\<close> is unset.\<close>

type_synonym sidecar = "link list option"

definition enabled :: "sidecar \<Rightarrow> bool" where
  "enabled sc \<longleftrightarrow> sc \<noteq> None"

definition links_of :: "sidecar \<Rightarrow> link list" where
  "links_of sc = (case sc of None \<Rightarrow> [] | Some ls \<Rightarrow> ls)"

definition pair_of :: "link \<Rightarrow> string set" where
  "pair_of l = {l_a l, l_b l}"

definition same_pairs :: "sidecar \<Rightarrow> string set set" where
  "same_pairs sc = set (map pair_of (filter (\<lambda>l. l_verdict l = ''same'') (links_of sc)))"

definition seen_pairs :: "sidecar \<Rightarrow> string set set" where
  "seen_pairs sc = set (map pair_of (links_of sc))"

definition linked :: "sidecar \<Rightarrow> string \<Rightarrow> string \<Rightarrow> bool" where
  "linked sc a b \<longleftrightarrow>
     enabled sc \<and> a \<noteq> [] \<and> b \<noteq> [] \<and> a \<noteq> b \<and> {a, b} \<in> same_pairs sc"

definition append_link :: "sidecar \<Rightarrow> link \<Rightarrow> sidecar" where
  "append_link sc l = map_option (\<lambda>ls. ls @ [l]) sc"

section \<open>The order frame\<close>

definition FRAME_COPULA :: rx where
  "FRAME_COPULA = bounded (words [''is'', ''are'', ''was'', ''were'', ''am'', ''='', '':''])"

definition frame :: "string \<Rightarrow> (string \<times> string set \<times> string set) option" where
  "frame txt =
     (let t = strip (strip_prefix txt) in
      case search FRAME_COPULA (lower t) of
        None \<Rightarrow> None
      | Some (p, q) \<Rightarrow>
          (let before = take (length (fst p)) t;
               subj = join '' '' (py_split (lower before));
               sval = topic_of before;
               vals = topic_of (drop (length (fst q)) t)
           in if subj = [] \<or> (vals = {} \<and> sval = {}) then None else Some (subj, sval, vals)))"

datatype frame_why = NoFrame | OtherSubject | AttributePair | NoShared | Restatement | PropertyPair

definition frame_link :: "string \<Rightarrow> string \<Rightarrow> bool \<times> frame_why" where
  "frame_link text_a text_b =
     (case (frame text_a, frame text_b) of
        (Some (sa, aa, va), Some (sb, ab, vb)) \<Rightarrow>
          if sa \<noteq> sb then (False, OtherSubject)
          else if aa \<noteq> {} \<and> va \<noteq> vb then (True, AttributePair)
          else (let shared = va \<inter> vb in
                if shared = {} then (False, NoShared)
                else if va - shared = {} \<or> vb - shared = {} then (False, Restatement)
                else (True, PropertyPair))
      | _ \<Rightarrow> (False, NoFrame))"

section \<open>The scan of the gap zone\<close>

definition spk :: "row \<Rightarrow> string" where
  "spk r = or_str (r_speaker r) ''user''"

definition has_text :: "row \<Rightarrow> bool" where
  "has_text r \<longleftrightarrow> live r \<and> r_text r \<noteq> []"

definition text_topics :: "row \<Rightarrow> string set" where
  "text_topics r = topic_of (strip_prefix (r_text r))"

definition mk_link :: "string \<Rightarrow> string \<Rightarrow> string \<Rightarrow> string \<Rightarrow> link" where
  "mk_link a b v o' = \<lparr>l_a = a, l_b = b, l_verdict = v, l_oracle = o'\<rparr>"

text \<open>
  What the scan appends for one pair; \<open>seen\<close> is read once, before the scan starts.
  \<open>auto_frame\<close>, \<open>review_frame\<close> and \<open>use_oracle\<close> say which proposers are in force.
\<close>

definition propose ::
  "(string \<Rightarrow> string) \<Rightarrow> (string \<Rightarrow> string \<Rightarrow> string option) \<Rightarrow> bool \<Rightarrow> bool \<Rightarrow> bool \<Rightarrow> string set set
     \<Rightarrow> row \<Rightarrow> row \<Rightarrow> link list" where
  "propose digest oracle auto_frame review_frame use_oracle seen b a =
     (let aa = addr_of digest (r_text a); ab = addr_of digest (r_text b) in
      if spk a \<noteq> spk b \<or> card (text_topics a \<inter> text_topics b) \<noteq> 1 \<or> {aa, ab} \<in> seen then []
      else if (auto_frame \<or> review_frame) \<and> fst (frame_link (r_text a) (r_text b))
      then [mk_link aa ab (if auto_frame then ''same'' else ''pending'') ''order-frame-v1'']
      else if use_oracle
      then (case oracle (r_text a) (r_text b) of
              None \<Rightarrow> []
            | Some v \<Rightarrow> [mk_link aa ab v ''oneshot-greedy-v1''])
      else [])"

definition scan_rows ::
  "(string \<Rightarrow> string) \<Rightarrow> (string \<Rightarrow> string \<Rightarrow> string option) \<Rightarrow> bool \<Rightarrow> bool \<Rightarrow> bool \<Rightarrow> row list
     \<Rightarrow> sidecar \<Rightarrow> sidecar" where
  "scan_rows digest oracle auto_frame review_frame use_oracle rows sc =
     (if \<not> enabled sc then sc
      else let alive = filter has_text rows; gt = filter ground alive;
               inferred = filter (\<lambda>r. \<not> ground r) alive; seen = seen_pairs sc;
               new = concat (map (\<lambda>b. concat (map
                 (\<lambda>a. propose digest oracle auto_frame review_frame use_oracle seen b a) gt)) inferred)
           in map_option (\<lambda>ls. ls @ new) sc)"

section \<open>The operator's review\<close>

definition pending :: "sidecar \<Rightarrow> link list" where
  "pending sc =
     (let rows = links_of sc;
          resolved = set (map pair_of (filter (\<lambda>r. (l_verdict r = ''same'' \<or> l_verdict r = ''different'')
                                                  \<and> l_oracle r = ''operator'') rows))
      in filter (\<lambda>r. l_verdict r = ''pending'' \<and> pair_of r \<notin> resolved) rows)"

text \<open>\<open>resolve\<close> refuses any other verdict (its \<open>assert\<close>).\<close>

definition resolve :: "string \<Rightarrow> string \<Rightarrow> string \<Rightarrow> sidecar \<Rightarrow> sidecar option" where
  "resolve a b v sc =
     (if v = ''same'' \<or> v = ''different'' then Some (append_link sc (mk_link a b v ''operator'')) else None)"

section \<open>Lemmas\<close>

lemma linked_sym: "linked sc a b \<longleftrightarrow> linked sc b a"
  by (auto simp: linked_def insert_commute)

lemma linked_append: "linked sc a b \<Longrightarrow> linked (map_option (\<lambda>ls. ls @ new) sc) a b"
  by (auto simp: linked_def enabled_def same_pairs_def links_of_def)

lemma linked_append_link: "linked sc a b \<Longrightarrow> linked (append_link sc l) a b"
  unfolding append_link_def by (rule linked_append)

lemma propose_same:
  assumes "l \<in> set (propose d orc auto_f rev_f use_o seen b a)" and "l_verdict l = ''same''"
  shows "spk a = spk b \<and> card (text_topics a \<inter> text_topics b) = 1
   \<and> ((auto_f \<and> fst (frame_link (r_text a) (r_text b)))
      \<or> (use_o \<and> orc (r_text a) (r_text b) = Some ''same''))"
proof -
  let ?skip = "spk a \<noteq> spk b \<or> card (text_topics a \<inter> text_topics b) \<noteq> 1
    \<or> {addr_of d (r_text a), addr_of d (r_text b)} \<in> seen"
  let ?fr = "(auto_f \<or> rev_f) \<and> fst (frame_link (r_text a) (r_text b))"
  have "\<not> ?skip" using assms(1) by (cases ?skip) (simp_all add: propose_def Let_def)
  moreover have ?thesis if "\<not> ?skip" ?fr
    using that assms by (cases auto_f) (auto simp: propose_def Let_def mk_link_def)
  moreover have ?thesis if "\<not> ?skip" "\<not> ?fr"
    using that assms by (cases use_o; cases "orc (r_text a) (r_text b)")
      (auto simp: propose_def Let_def mk_link_def)
  ultimately show ?thesis by blast
qed

lemma scan_rows_appends:
  "\<exists>new. scan_rows d orc auto_f rev_f use_o rows sc = map_option (\<lambda>ls. ls @ new) sc"
  by (auto simp: scan_rows_def enabled_def Let_def intro: exI [of _ "[]"] option.map_ident [symmetric])

text \<open>Links only accumulate: no scan and no ruling ever removes one.\<close>

lemma scan_rows_linked: "linked sc a b \<Longrightarrow> linked (scan_rows d orc auto_f rev_f use_o rows sc) a b"
  using scan_rows_appends [of d orc auto_f rev_f use_o rows sc] linked_append by metis

lemma resolve_linked: "resolve x y v sc = Some sc' \<Longrightarrow> linked sc a b \<Longrightarrow> linked sc' a b"
  by (auto simp: resolve_def linked_append_link split: if_splits)

text \<open>The shipped configuration (frame review, no oracle) links nothing by itself.\<close>

lemma propose_review: "l \<in> set (propose d orc False rv False seen b a) \<Longrightarrow> l_verdict l \<noteq> ''same''"
  by (auto simp: propose_def Let_def mk_link_def split: if_splits)

lemma same_pairs_append: "\<forall>l \<in> set new. l_verdict l \<noteq> ''same'' \<Longrightarrow>
    same_pairs (Some (ls @ new)) = same_pairs (Some ls)"
  by (auto simp: same_pairs_def links_of_def)

lemma review_scan_links_nothing:
  "linked (scan_rows d orc False True False rows sc) a b \<longleftrightarrow> linked sc a b"
proof (cases sc)
  case (Some ls)
  obtain new where n: "scan_rows d orc False True False rows sc = Some (ls @ new)"
    and new: "\<forall>l \<in> set new. l_verdict l \<noteq> ''same''"
    by (auto simp: scan_rows_def Let_def Some enabled_def dest!: propose_review)
  then show ?thesis using same_pairs_append [OF new, of ls] Some
    by (simp add: linked_def enabled_def)
qed (simp add: scan_rows_def enabled_def)

lemma resolve_clears:
  assumes "resolve a b v (Some ls) = Some sc'" and "l_a l = a" "l_b l = b"
  shows "l \<notin> set (pending sc')"
proof -
  have v: "v = ''same'' \<or> v = ''different''" and sc': "sc' = Some (ls @ [mk_link a b v ''operator''])"
    using assms(1) by (auto simp: resolve_def append_link_def split: if_splits)
  have "{a, b} \<in> pair_of ` {r \<in> set (links_of sc').
      (l_verdict r = ''same'' \<or> l_verdict r = ''different'') \<and> l_oracle r = ''operator''}"
    using v by (intro image_eqI [of _ _ "mk_link a b v ''operator''"])
      (auto simp: sc' links_of_def mk_link_def pair_of_def)
  then show ?thesis using assms(2,3) by (simp add: pending_def Let_def pair_of_def)
qed

end
