(* ===== verification/Verdict.thy ===== *)
theory Verdict imports Slots begin

text \<open>
  \<open>harness/skills/verdict.py\<close>: the signature of a row, the competition and attribute coordinates,
  the projections (framing, supersede permission, evidence), the committed table as a partial
  function on cells, enforcement and the shadow. A cell is the tuple of the six coordinates the
  source prints into its key; \<open>None\<close> of the table is an unmapped cell. \<open>attr_absent\<close> of the memory
  component comes in as a function of the query and the text.
\<close>

record sig =
  s_speaker :: string
  s_status :: string
  s_lifecycle :: nat
  s_class :: string

definition sigma :: "row \<Rightarrow> sig" where
  "sigma r =
     \<lparr>s_speaker = or_str (r_speaker r) ''user'', s_status = status_of r,
      s_lifecycle = (if r_lifecycle r \<noteq> 0 then 1 else 0),
      s_class = (if r_class r = [] then ''fact'' else r_class r)\<rparr>"

definition competes :: "(string \<Rightarrow> string) \<Rightarrow> sidecar \<Rightarrow> row \<Rightarrow> row \<Rightarrow> bool" where
  "competes digest sc r g \<longleftrightarrow>
     s_lifecycle (sigma g) = 0 \<and> s_status (sigma g) \<in> GROUND_TRUTH
     \<and> s_speaker (sigma g) = s_speaker (sigma r)
     \<and> (2 \<le> card (topics r \<inter> topics g)
        \<or> (let mine = (if enabled sc then addr_of digest (r_text r) else [])
           in mine \<noteq> [] \<and> linked sc mine (addr_of digest (r_text g))))"

text \<open>The loop skips the row itself and any row of the same name.\<close>

definition competition :: "(string \<Rightarrow> string) \<Rightarrow> sidecar \<Rightarrow> row \<Rightarrow> row list \<Rightarrow> string" where
  "competition digest sc r rows =
     (if s_status (sigma r) \<in> GROUND_TRUTH then ''.''
      else if (\<exists>g \<in> set rows. r_name g \<noteq> r_name r \<and> competes digest sc r g) then ''1''
      else ''0'')"

definition attr :: "(string \<Rightarrow> string \<Rightarrow> bool) \<Rightarrow> row \<Rightarrow> string \<Rightarrow> string" where
  "attr absent r query =
     (if s_class (sigma r) \<noteq> ''private-secret'' then ''.''
      else if absent query (r_text r) then ''-'' else ''+'')"

type_synonym cell_key = "string \<times> string \<times> nat \<times> string \<times> string \<times> string"

definition cell :: "(string \<Rightarrow> string) \<Rightarrow> sidecar \<Rightarrow> (string \<Rightarrow> string \<Rightarrow> bool) \<Rightarrow> row \<Rightarrow> string \<Rightarrow> row list \<Rightarrow> cell_key"
  where
  "cell digest sc absent r query rows =
     (let s = sigma r in
      (s_speaker s, s_status s, s_lifecycle s, s_class s, competition digest sc r rows, attr absent r query))"

section \<open>The projections\<close>

datatype framing = ComeToThink | WeSettled | AboutMyself | KnackTold

definition FRAMING :: "(string \<times> string \<times> framing) list" where
  "FRAMING = [(''inferred'', ''*'', ComeToThink), (''confirmed'', ''*'', WeSettled),
     (''*'', ''self'', AboutMyself), (''*'', ''*'', KnackTold)]"

fun framing_in :: "(string \<times> string \<times> framing) list \<Rightarrow> string \<Rightarrow> string \<Rightarrow> framing" where
  "framing_in [] status speaker = KnackTold"
| "framing_in ((st, sp, tpl) # rest) status speaker =
     (if (st = ''*'' \<or> st = status) \<and> (sp = ''*'' \<or> sp = speaker) then tpl
      else framing_in rest status speaker)"

definition framing_for :: "string \<Rightarrow> string \<Rightarrow> framing" where
  "framing_for status speaker = framing_in FRAMING status speaker"

definition frame_text :: "framing \<Rightarrow> string \<Rightarrow> string" where
  "frame_text f t =
     (case f of ComeToThink \<Rightarrow> ''I'' @ [CHR 0x27] @ ''ve come to think: '' | WeSettled \<Rightarrow> ''We settled that: ''
      | AboutMyself \<Rightarrow> ''About myself: '' | KnackTold \<Rightarrow> ''Knack told me: '') @ t"

definition may_supersede :: "string \<Rightarrow> string \<Rightarrow> bool" where
  "may_supersede incoming_status held_status \<longleftrightarrow>
     \<not> (incoming_status = STATUS_INFERRED \<and> held_status \<in> GROUND_TRUTH)"

definition is_evidence :: "row \<Rightarrow> bool" where
  "is_evidence r \<longleftrightarrow>
     s_lifecycle (sigma r) = 0 \<and> s_speaker (sigma r) = ''user'' \<and> s_status (sigma r) \<in> GROUND_TRUTH"

section \<open>The table, enforcement and the shadow\<close>

record ruling_t =
  ru_seam :: bool
  ru_spoken :: bool
  ru_declined :: bool

type_synonym table = "(cell_key \<times> ruling_t) list"

definition ruling ::
  "(string \<Rightarrow> string) \<Rightarrow> sidecar \<Rightarrow> (string \<Rightarrow> string \<Rightarrow> bool) \<Rightarrow> table \<Rightarrow> row \<Rightarrow> string \<Rightarrow> row list
     \<Rightarrow> ruling_t option" where
  "ruling digest sc absent tbl r query rows = map_of tbl (cell digest sc absent r query rows)"

record law_stats =
  st_checked :: nat
  st_divergent :: nat
  st_unmapped :: nat
  st_drops :: nat

fun enforce_loop ::
  "(row \<Rightarrow> ruling_t option) \<Rightarrow> (real \<times> row) list \<Rightarrow> law_stats \<Rightarrow> (real \<times> row) list \<times> law_stats" where
  "enforce_loop rule [] st = ([], st)"
| "enforce_loop rule ((s, e) # rest) st =
     (case rule e of
        None \<Rightarrow> (let (kept, st') = enforce_loop rule rest (st\<lparr>st_unmapped := st_unmapped st + 1\<rparr>)
                 in ((s, e) # kept, st'))
      | Some r \<Rightarrow>
          if ru_seam r then (let (kept, st') = enforce_loop rule rest st in ((s, e) # kept, st'))
          else enforce_loop rule rest (st\<lparr>st_drops := st_drops st + 1\<rparr>))"

text \<open>\<open>enforce\<close>: unarmed, or with no table, the input passes through untouched.\<close>

definition enforce ::
  "bool \<Rightarrow> (string \<Rightarrow> string) \<Rightarrow> sidecar \<Rightarrow> (string \<Rightarrow> string \<Rightarrow> bool) \<Rightarrow> table \<Rightarrow> string
     \<Rightarrow> (real \<times> row) list \<Rightarrow> row list \<Rightarrow> law_stats \<Rightarrow> (real \<times> row) list \<times> law_stats" where
  "enforce armed digest sc absent tbl query scored all_rows st =
     (if \<not> armed \<or> tbl = [] then (scored, st)
      else enforce_loop (\<lambda>e. ruling digest sc absent tbl e query all_rows) scored st)"

fun shadow_loop :: "(row \<Rightarrow> ruling_t option) \<Rightarrow> row list \<Rightarrow> law_stats \<Rightarrow> law_stats" where
  "shadow_loop rule [] st = st"
| "shadow_loop rule (e # rest) st =
     (let st = st\<lparr>st_checked := st_checked st + 1\<rparr> in
      shadow_loop rule rest
        (case rule e of
           None \<Rightarrow> st\<lparr>st_unmapped := st_unmapped st + 1\<rparr>
         | Some r \<Rightarrow> if ru_seam r then st else st\<lparr>st_divergent := st_divergent st + 1\<rparr>))"

definition shadow ::
  "bool \<Rightarrow> (string \<Rightarrow> string) \<Rightarrow> sidecar \<Rightarrow> (string \<Rightarrow> string \<Rightarrow> bool) \<Rightarrow> table \<Rightarrow> string
     \<Rightarrow> row list \<Rightarrow> row list \<Rightarrow> law_stats \<Rightarrow> law_stats" where
  "shadow armed digest sc absent tbl query admitted all_rows st =
     (if \<not> armed \<or> tbl = [] then st
      else shadow_loop (\<lambda>e. ruling digest sc absent tbl e query all_rows) admitted st)"

section \<open>Lemmas\<close>

lemma framing_for_total [law_simps]:
  "framing_for st sp =
     (if st = STATUS_INFERRED then ComeToThink else if st = STATUS_CONFIRMED then WeSettled
      else if sp = ''self'' then AboutMyself else KnackTold)"
  by (simp add: framing_for_def FRAMING_def STATUS_INFERRED_def STATUS_CONFIRMED_def)

lemma is_evidence_iff [law_simps]:
  "is_evidence r \<longleftrightarrow> live r \<and> spk r = ''user'' \<and> ground r"
  by (simp add: is_evidence_def sigma_def live_def spk_def ground_def)

lemma competition_cases: "competition d sc r rows \<in> {''.'', ''0'', ''1''}"
  by (simp add: competition_def)

lemma competes_link_mono:
  assumes "competes d sc r g"
  shows "competes d (append_link sc l) r g"
proof -
  have "enabled (append_link sc l) = enabled sc" by (simp add: enabled_def append_link_def)
  with assms show ?thesis
    using linked_append_link [of sc "addr_of d (r_text r)" "addr_of d (r_text g)" l]
    by (auto simp: competes_def Let_def)
qed

text \<open>A new link can only push the coordinate towards silence.\<close>

lemma competition_link_mono:
  "competition d sc r rows = ''1'' \<Longrightarrow> competition d (append_link sc l) r rows = ''1''"
  by (auto simp: competition_def intro: competes_link_mono split: if_splits)

lemma enforce_loop_filter:
  "fst (enforce_loop rule scored st)
     = filter (\<lambda>(s, e). case rule e of None \<Rightarrow> True | Some r \<Rightarrow> ru_seam r) scored"
  by (induction rule scored st rule: enforce_loop.induct) (auto split: option.splits prod.splits)

lemma enforce_filter:
  "fst (enforce armed d sc ab tbl q scored rows st) =
     (if \<not> armed \<or> tbl = [] then scored
      else filter (\<lambda>(s, e). case ruling d sc ab tbl e q rows of None \<Rightarrow> True | Some r \<Rightarrow> ru_seam r) scored)"
  by (simp add: enforce_def enforce_loop_filter)

lemma subseq_enforce: "subseq (fst (enforce armed d sc ab tbl q scored rows st)) scored"
  by (simp add: enforce_filter)

lemma enforce_counts:
  "enforce_loop rule scored st = (kept, st') \<Longrightarrow>
   length kept + st_drops st' = length scored + st_drops st
   \<and> st_unmapped st' = st_unmapped st + length (filter (\<lambda>(s, e). rule e = None) scored)"
proof (induction rule scored st arbitrary: kept st' rule: enforce_loop.induct)
  case (2 rule s e rest st)
  then show ?case by (cases "rule e") (fastforce split: if_splits prod.splits)+
qed simp

lemma shadow_loop_counts:
  "st_divergent (shadow_loop rule rows st)
     = st_divergent st + length (filter (\<lambda>e. case rule e of None \<Rightarrow> False | Some r \<Rightarrow> \<not> ru_seam r) rows)"
  by (induction rule rows st rule: shadow_loop.induct) (auto simp: Let_def split: option.splits)

text \<open>After enforcement under the same law the shadow counts no divergence.\<close>

lemma shadow_after_enforce:
  assumes "fst (enforce True d sc ab tbl q scored rows st) = kept" and "tbl \<noteq> []"
  shows "st_divergent (shadow True d sc ab tbl q (map snd kept) rows st2) = st_divergent st2"
  using assms
  by (auto simp: shadow_def shadow_loop_counts enforce_filter filter_empty_conv split: option.splits)

end
