(* ===== verification/Supersede.thy ===== *)
theory Supersede imports Verdict begin

text \<open>
  The two functions of \<open>harness/skills/lifecycle.py\<close> that rest on the verdict projections: which
  rows a new fact retires, and how a row reads back to the model.
\<close>

definition conflicts :: "string \<Rightarrow> string \<Rightarrow> string \<Rightarrow> row \<Rightarrow> bool" where
  "conflicts new_fact speaker status r \<longleftrightarrow>
     r_superseded_by r = [] \<and> get_str (r_speaker r) ''user'' = speaker
     \<and> (let txt = strip_prefix (row_text r) in
        attribute_key txt speaker = attribute_key new_fact speaker \<and> value_of txt \<noteq> value_of new_fact)
     \<and> may_supersede status (status_of r)"

definition find_superseded :: "string \<Rightarrow> string \<Rightarrow> row list \<Rightarrow> string \<Rightarrow> row list" where
  "find_superseded new_fact speaker rows status =
     (if attribute_key new_fact speaker = None then []
      else filter (conflicts new_fact speaker status) rows)"

definition render :: "row \<Rightarrow> string" where
  "render r =
     frame_text (framing_for (status_of r) (or_str (r_speaker r) ''user'')) (strip_prefix (row_text r))"

lemma find_superseded_sub: "set (find_superseded f sp rows st) \<subseteq> set rows"
  by (auto simp: find_superseded_def)

text \<open>The one rule: an inference retires no testimony.\<close>

lemma find_superseded_inferred:
  "r \<in> set (find_superseded f sp rows STATUS_INFERRED) \<Longrightarrow> \<not> ground r"
  by (auto simp: find_superseded_def conflicts_def may_supersede_def ground_def split: if_splits)

lemma find_superseded_slot:
  assumes "r \<in> set (find_superseded f sp rows st)"
  obtains k where "attribute_key f sp = Some k" "attribute_key (strip_prefix (row_text r)) sp = Some k"
    "value_of (strip_prefix (row_text r)) \<noteq> value_of f" "get_str (r_speaker r) ''user'' = sp"
  using assms by (auto simp: find_superseded_def conflicts_def Let_def split: if_splits)

lemma attribute_key_speaker: "attribute_key f sp = Some k \<Longrightarrow> startswith k sp"
  using attribute_key_possessive [of f sp k] by (auto simp: startswith_iff)

text \<open>A property of a person fills no slot: it retires nothing and nothing retires it.\<close>

lemma property_accumulates:
  assumes "attribute_key f sp = None"
  shows "find_superseded f sp rows st = []" "r \<in> set (find_superseded g sp rows' st) \<Longrightarrow>
     attribute_key (strip_prefix (row_text r)) sp \<noteq> None"
  using assms by (auto simp: find_superseded_def conflicts_def Let_def split: if_splits)

lemma render_frames [law_simps]:
  "status_of r = STATUS_INFERRED \<Longrightarrow> render r = frame_text ComeToThink (strip_prefix (row_text r))"
  "status_of r = STATUS_CONFIRMED \<Longrightarrow> render r = frame_text WeSettled (strip_prefix (row_text r))"
  "status_of r \<notin> {STATUS_INFERRED, STATUS_CONFIRMED} \<Longrightarrow> or_str (r_speaker r) ''user'' = ''self'' \<Longrightarrow>
     render r = frame_text AboutMyself (strip_prefix (row_text r))"
  "status_of r \<notin> {STATUS_INFERRED, STATUS_CONFIRMED} \<Longrightarrow> or_str (r_speaker r) ''user'' \<noteq> ''self'' \<Longrightarrow>
     render r = frame_text KnackTold (strip_prefix (row_text r))"
  by (simp_all add: render_def framing_for_total STATUS_INFERRED_def STATUS_CONFIRMED_def)

lemma frame_text_inject: "frame_text f t = frame_text g u \<Longrightarrow> f = g \<and> t = u"
  by (cases f; cases g) (simp_all add: frame_text_def)

end
