(* ===== verification/Memory.thy ===== *)
theory Memory imports Supersede begin

text \<open>
  The store of \<open>harness/skills/memory.py\<close>: the registry file, the bag-of-words matcher and the write
  tools (\<open>remember\<close>, \<open>remember_about_self\<close>, \<open>forget\<close>), the mint queue and the registry hygiene.

  The registry file is a list of lines; a line is a row or text that does not parse as JSON. The
  environment \<open>env\<close> holds what a call reads from outside: the clock, her own identity values, the
  mint switch and the daemon's answer to a capture. Replies are values of \<open>reply\<close>.
\<close>

section \<open>Matching\<close>

definition STOP :: "string list" where
  "STOP = py_split (join '' ''
    [''the a an is are of to in on and or my your you it that this was were has have'',
     ''what who where when why how which did does do can could would should will'',
     ''had these those there here just please'',
     ''remember remembers remembered recall recalls know knows knew tell tells told say says said'',
     ''memory memories forget forgets forgot mention mentions mentioned stored''])"

text \<open>The list written out, for evaluation.\<close>

lemma STOP_list [code]: "STOP =
     [''the'', ''a'', ''an'', ''is'', ''are'', ''of'', ''to'', ''in'', ''on'', ''and'', ''or'',
      ''my'', ''your'', ''you'', ''it'', ''that'', ''this'', ''was'', ''were'', ''has'', ''have'',
      ''what'', ''who'', ''where'', ''when'', ''why'', ''how'', ''which'', ''did'', ''does'',
      ''do'', ''can'', ''could'', ''would'', ''should'', ''will'', ''had'', ''these'', ''those'',
      ''there'', ''here'', ''just'', ''please'', ''remember'', ''remembers'', ''remembered'',
      ''recall'', ''recalls'', ''know'', ''knows'', ''knew'', ''tell'', ''tells'', ''told'',
      ''say'', ''says'', ''said'', ''memory'', ''memories'', ''forget'', ''forgets'', ''forgot'',
      ''mention'', ''mentions'', ''mentioned'', ''stored'']"
  by code_simp

definition depluralise :: "string \<Rightarrow> string" where
  "depluralise w =
     (if 3 < length w \<and> endswith w ''s'' \<and> \<not> (endswith w ''ss'' \<or> endswith w ''us'' \<or> endswith w ''is'')
      then butlast w else w)"

definition content_words :: "string \<Rightarrow> string list" where
  "content_words s = filter (\<lambda>w. 3 \<le> length w \<and> w \<notin> set STOP) (runs is_alnum (lower s))"

definition toks :: "string \<Rightarrow> string set" where
  "toks s = set (map depluralise (content_words s))"

definition overlap :: "string \<Rightarrow> string \<Rightarrow> real" where
  "overlap query target =
     (let qt = toks query in
      if qt = {} then 0 else of_nat (card (qt \<inter> toks target)) / of_nat (card qt))"

definition ATTR_STOP :: "string list" where
  "ATTR_STOP = py_split (join '' ''
    [''the a an of to in on at for and or is are was what which who where when'',
     ''my your name number code colour color brand breed seat''])"

text \<open>The list written out, for evaluation.\<close>

lemma ATTR_STOP_list [code]: "ATTR_STOP =
     [''the'', ''a'', ''an'', ''of'', ''to'', ''in'', ''on'', ''at'', ''for'', ''and'', ''or'',
      ''is'', ''are'', ''was'', ''what'', ''which'', ''who'', ''where'', ''when'', ''my'',
      ''your'', ''name'', ''number'', ''code'', ''colour'', ''color'', ''brand'', ''breed'',
      ''seat'']"
  by code_simp

definition alnum_low :: "char \<Rightarrow> bool" where
  "alnum_low c \<longleftrightarrow> is_lower c \<or> is_digit c"

definition long_words :: "string \<Rightarrow> string set" where
  "long_words s = set (filter (\<lambda>w. 2 < length w) (runs alnum_low (lower s)))"

definition attr_absent :: "string \<Rightarrow> string \<Rightarrow> bool" where
  "attr_absent query fct =
     (let qs = long_words query - set ATTR_STOP - set STOP; n = card (qs - long_words fct)
      in qs \<noteq> {} \<and> 2 \<le> n \<and> card qs \<le> n * 2)"

lemma finite_toks [simp]: "finite (toks s)"
  by (simp add: toks_def)

lemma overlap_range: "0 \<le> overlap q t \<and> overlap q t \<le> 1"
proof -
  have "card (toks q \<inter> toks t) \<le> card (toks q)" by (intro card_mono) auto
  then show ?thesis by (auto simp: overlap_def Let_def divide_le_eq)
qed

lemma overlap_self: "toks q \<noteq> {} \<Longrightarrow> overlap q q = 1"
  by (simp add: overlap_def)

section \<open>The registry file\<close>

datatype line = Row row | Junk

record mem =
  m_path :: string
  m_file :: "line list option"
  m_author :: string
  m_question :: string
  m_queue :: "(string \<times> string) list"

fun rows_of :: "line list \<Rightarrow> row list" where
  "rows_of [] = []"
| "rows_of (Row r # ls) = r # rows_of ls"
| "rows_of (Junk # ls) = rows_of ls"

definition load_rows :: "mem \<Rightarrow> row list" where
  "load_rows s =
     (if m_path s = [] then [] else (case m_file s of None \<Rightarrow> [] | Some ls \<Rightarrow> rows_of ls))"

definition save_all :: "row list \<Rightarrow> mem \<Rightarrow> mem" where
  "save_all rows s = (if m_path s = [] then s else s\<lparr>m_file := Some (map Row rows)\<rparr>)"

text \<open>Opening for append creates a missing file.\<close>

definition append_row :: "row \<Rightarrow> mem \<Rightarrow> mem" where
  "append_row r s =
     s\<lparr>m_file := Some ((case m_file s of None \<Rightarrow> [] | Some ls \<Rightarrow> ls) @ [Row r])\<rparr>"

lemma rows_of_map_Row [simp]: "rows_of (map Row rs) = rs"
  by (induction rs) auto

lemma rows_of_append [simp]: "rows_of (a @ b) = rows_of a @ rows_of b"
  by (induction a rule: rows_of.induct) auto

lemma load_save [row_simps]: "m_path s \<noteq> [] \<Longrightarrow> load_rows (save_all rows s) = rows"
  by (simp add: load_rows_def save_all_def)

lemma load_append [row_simps]: "m_path s \<noteq> [] \<Longrightarrow> load_rows (append_row r s) = load_rows s @ [r]"
  by (simp add: load_rows_def append_row_def split: option.splits)

lemma path_save [row_simps]: "m_path (save_all rows s) = m_path s" "m_path (append_row r s) = m_path s"
  by (simp_all add: save_all_def append_row_def)

section \<open>The environment of a call\<close>

record env =
  e_now :: real
  e_self :: "string list"
  e_async :: bool
  e_capture :: "string \<Rightarrow> string \<Rightarrow> int \<times> bool"

text \<open>\<open>_self_names\<close>: the floor, and what the persona's state says. \<open>None\<close>: the read failed.\<close>

definition GENDER_WORDS :: "(string \<times> string list) list" where
  "GENDER_WORDS = [(''female'', [''female'', ''woman'', ''girl'', ''she'', ''her'']),
     (''male'', [''male'', ''man'', ''boy'', ''he'', ''him''])]"

definition self_names :: "(string \<times> string) list option \<Rightarrow> string list" where
  "self_names persona =
     [''shannon'', ''shannon-prime''] @
     (case persona of None \<Rightarrow> []
      | Some st \<Rightarrow>
          concat (map (\<lambda>k. case map_of st k of
              None \<Rightarrow> [] | Some v \<Rightarrow> if strip v \<noteq> [] then [lower (strip v)] else []) [''name'', ''self_name''])
          @ (case map_of st ''gender'' of
               None \<Rightarrow> []
             | Some g \<Rightarrow> if strip g = [] then []
                 else (case map_of GENDER_WORDS (lower (strip g)) of
                         None \<Rightarrow> [lower (strip g)] | Some ws \<Rightarrow> ws)))"

fun dec_nat :: "nat \<Rightarrow> string" where
  "dec_nat n = (if n < 10 then [digit (int n)] else dec_nat (n div 10) @ [digit (int (n mod 10))])"

declare dec_nat.simps [simp del]

definition dirname :: "string \<Rightarrow> string" where
  "dirname p = rev (drop 1 (dropWhile (\<lambda>c. c \<noteq> CHR ''/'') (rev p)))"

definition ep_name :: "real \<Rightarrow> string" where
  "ep_name now = ''ep_tool_'' @ dec_nat (nat \<lfloor>now * 1000\<rfloor>)"

definition out_dir :: "string \<Rightarrow> real \<Rightarrow> string" where
  "out_dir path now =
     (let d = dirname path in (if d = [] then [] else d @ ''/'') @ ''eps/'' @ ep_name now)"

definition blank_row :: row where
  "blank_row = \<lparr>r_name = None, r_dir = [], r_npos = 0, r_topic = [], r_text = [], r_speaker = None,
     r_status = [], r_class = [], r_src = None, r_ts = None, r_verified = False, r_lifecycle = 0,
     r_superseded_by = [], r_superseded_at = [], r_forgotten_at = [], r_supersedes = [],
     r_mentions = None, r_first_seen = None, r_last_seen = None, r_recalled = None, r_minted_at = []\<rparr>"

section \<open>remember\<close>

datatype reply =
    NoRegistry
  | NotStored refusal
  | Reinforced int string bool
  | Stored string "string option" bool

definition door :: "env \<Rightarrow> string \<Rightarrow> string \<Rightarrow> refusal option" where
  "door ev author fct =
     (case is_memorable fct of
        Some why \<Rightarrow> Some why
      | None \<Rightarrow> if author \<noteq> ''self'' then admit_to_user_store fct (e_self ev) else None)"

definition exact_hit :: "string \<Rightarrow> row \<Rightarrow> bool" where
  "exact_hit fct e \<longleftrightarrow> live e \<and> strip (row_text e) = strip fct"

definition near :: "string set \<Rightarrow> string set \<Rightarrow> bool" where
  "near ft et \<longleftrightarrow> ft \<noteq> {} \<and> et \<noteq> {} \<and> 9 * card ft \<le> 10 * card (ft \<inter> et) \<and> 9 * card et \<le> 10 * card (ft \<inter> et)"

definition near_hit :: "string \<Rightarrow> row \<Rightarrow> bool" where
  "near_hit fct e \<longleftrightarrow> live e \<and> near (toks fct) (toks (row_text e))"

definition reinforced_reply :: "env \<Rightarrow> row list \<Rightarrow> (row \<Rightarrow> bool) \<Rightarrow> bool \<Rightarrow> reply" where
  "reinforced_reply ev existing P said =
     (case find P existing of
        None \<Rightarrow> NoRegistry
      | Some e \<Rightarrow> (let e' = reinforce e (stamp_of (e_now ev)) in
                   Reinforced (case r_mentions e' of None \<Rightarrow> 2 | Some n \<Rightarrow> n) (row_text e') said))"

definition reinforce_first :: "env \<Rightarrow> row list \<Rightarrow> (row \<Rightarrow> bool) \<Rightarrow> row list" where
  "reinforce_first ev existing P = update_first P (\<lambda>e. reinforce e (stamp_of (e_now ev))) existing"

text \<open>Both lanes of a tombstone: \<open>lifecycle\<close> for the engine, the other two for the audit trail.\<close>

definition tombstone :: "string \<Rightarrow> string \<Rightarrow> row \<Rightarrow> row" where
  "tombstone by ts r = r\<lparr>r_lifecycle := 1, r_superseded_by := by, r_superseded_at := ts\<rparr>"

definition retire :: "string option list \<Rightarrow> string \<Rightarrow> string \<Rightarrow> row list \<Rightarrow> row list" where
  "retire names by ts rows = map (\<lambda>r. if r_name r \<in> set names then tombstone by ts r else r) rows"

definition source_status :: "string \<Rightarrow> string" where
  "source_status source = (if contains source ''reflection'' then STATUS_INFERRED else STATUS_OBSERVED)"

definition new_row :: "env \<Rightarrow> string \<Rightarrow> string \<Rightarrow> string \<Rightarrow> int \<Rightarrow> string \<Rightarrow> row list \<Rightarrow> row" where
  "new_row ev path fct speaker npos source retired =
     (let d = out_dir path (e_now ev);
          base = blank_row\<lparr>r_name := Some (ep_name (e_now ev)), r_dir := d, r_npos := npos,
                           r_topic := take 40 fct\<rparr>
      in (stamp base fct speaker source (map (\<lambda>r. get_str (r_name r) []) retired)
            (stamp_of (e_now ev)))\<lparr>r_lifecycle := 0\<rparr>)"

text \<open>The part of \<open>remember\<close> after the doors, on the snapshot \<open>existing\<close> it has read.\<close>

definition remember_commit :: "env \<Rightarrow> string \<Rightarrow> string \<Rightarrow> row list \<Rightarrow> mem \<Rightarrow> reply \<times> mem" where
  "remember_commit ev fct source existing s =
     (if \<exists>e \<in> set existing. exact_hit fct e
      then (reinforced_reply ev existing (exact_hit fct) False,
            save_all (reinforce_first ev existing (exact_hit fct)) s)
      else if \<exists>e \<in> set existing. near_hit fct e
      then (reinforced_reply ev existing (near_hit fct) True,
            save_all (reinforce_first ev existing (near_hit fct)) s)
      else
        let d = out_dir (m_path s) (e_now ev);
            (npos, minted) = (if e_async ev then (0, False) else e_capture ev fct d);
            s1 = (if e_async ev then s\<lparr>m_queue := m_queue s @ [(fct, d)]\<rparr> else s);
            speaker = infer_speaker fct (m_author s);
            retired = find_superseded fct speaker existing (source_status source);
            line = new_row ev (m_path s) fct speaker npos source retired;
            s2 = (if retired = [] then s1
                  else save_all (retire (map r_name retired) (get_str (r_name line) []) (get_str (r_ts line) [])
                                   (load_rows s1)) s1)
        in (Stored fct (case retired of [] \<Rightarrow> None | r # _ \<Rightarrow> Some (strip_prefix (row_text r))) minted,
            append_row line s2))"

definition remember :: "env \<Rightarrow> string \<Rightarrow> string \<Rightarrow> mem \<Rightarrow> reply \<times> mem" where
  "remember ev raw source s =
     (if m_path s = [] then (NoRegistry, s)
      else let fct = normalize_fact raw in
        (case door ev (m_author s) fct of
           Some why \<Rightarrow> (NotStored why, s)
         | None \<Rightarrow> remember_commit ev fct source (load_rows s) s))"

definition set_author :: "string \<Rightarrow> mem \<Rightarrow> mem" where
  "set_author who s = s\<lparr>m_author := (if who = ''self'' then ''self'' else ''user'')\<rparr>"

definition remember_about_self :: "env \<Rightarrow> string \<Rightarrow> mem \<Rightarrow> reply \<times> mem" where
  "remember_about_self ev raw s =
     (let (r, s') = remember ev raw ''self'' (set_author ''self'' s) in (r, set_author ''user'' s'))"

section \<open>forget, provenance\<close>

datatype forget_reply = MemoryEmpty | NoMatch string | Forgotten string

definition best_live :: "string \<Rightarrow> row list \<Rightarrow> real \<times> (nat \<times> row) option" where
  "best_live fct rows =
     best_from (\<lambda>(i, e). overlap fct (row_text e)) (-1, None) (filter (\<lambda>(i, e). live e) (enumerate 0 rows))"

definition forget :: "env \<Rightarrow> string \<Rightarrow> mem \<Rightarrow> forget_reply \<times> mem" where
  "forget ev fct s =
     (let rows = load_rows s in
      if rows = [] then (MemoryEmpty, s)
      else (case best_live fct rows of
              (b, Some (i, e)) \<Rightarrow>
                if b < 3 / 10 then (NoMatch fct, s)
                else (Forgotten (row_text e),
                      save_all (rows[i := e\<lparr>r_lifecycle := 1, r_superseded_by := ''forget'',
                                           r_forgotten_at := stamp_of (e_now ev)\<rparr>]) s)
            | (b, None) \<Rightarrow> (NoMatch fct, s)))"

datatype prov_reply = ProvEmpty | ProvNone string | LearnedFrom string string string

definition provenance :: "string \<Rightarrow> mem \<Rightarrow> prov_reply" where
  "provenance fct s =
     (let eps = filter live (load_rows s) in
      if eps = [] then ProvEmpty
      else (case best_from (\<lambda>e. overlap fct (row_text e)) (-1, None) eps of
              (b, Some e) \<Rightarrow>
                if b < 3 / 10 then ProvNone fct
                else LearnedFrom (row_text e) (get_str (r_src e) ''unknown source'')
                       (get_str (r_ts e) ''unknown time'')
            | (b, None) \<Rightarrow> ProvNone fct))"

definition list_memories :: "mem \<Rightarrow> string list" where
  "list_memories s =
     map (\<lambda>(i, e). dec_nat (i + 1) @ ''. '' @ render e) (enumerate 0 (filter live (load_rows s)))"

definition count_memories :: "mem \<Rightarrow> nat" where
  "count_memories s = length (load_rows s)"

section \<open>The mint queue\<close>

text \<open>One turn of the worker: the row is found by its directory and updated in place.\<close>

definition mint_step :: "env \<Rightarrow> mem \<Rightarrow> mem" where
  "mint_step ev s =
     (case m_queue s of
        [] \<Rightarrow> s
      | (fct, d) # rest \<Rightarrow>
          (let s1 = s\<lparr>m_queue := rest\<rparr>; (npos, minted) = e_capture ev fct d; rows = load_rows s1 in
           if \<not> minted then s1
           else if \<exists>r \<in> set rows. r_dir r = d
           then save_all (update_first (\<lambda>r. r_dir r = d)
                  (\<lambda>r. r\<lparr>r_npos := npos, r_minted_at := stamp_of (e_now ev)\<rparr>) rows) s1
           else s1))"

definition mint_backlog :: "mem \<Rightarrow> nat" where
  "mint_backlog s = length (m_queue s)"

section \<open>Registry hygiene\<close>

datatype health = Unconfigured | Healthy | NeedsCompaction

record reg_stats =
  g_rows :: nat
  g_parsed :: nat
  g_malformed :: nat
  g_exact_dups :: nat
  g_near_dups :: nat
  g_unminted :: nat
  g_no_prov :: nat

fun near_pairs :: "string set list \<Rightarrow> nat" where
  "near_pairs [] = 0"
| "near_pairs (t # ts) = length (filter (near t) ts) + near_pairs ts"

definition registry_health :: "mem \<Rightarrow> reg_stats option \<times> health" where
  "registry_health s =
     (if m_path s = [] then (None, Unconfigured)
      else (case m_file s of
              None \<Rightarrow> (None, Unconfigured)
            | Some ls \<Rightarrow>
                (let eps = load_rows s; texts = map (\<lambda>e. strip (row_text e)) eps;
                     malformed = length (filter (\<lambda>l. l = Junk) ls);
                     dups = length texts - length (remdups texts)
                 in (Some \<lparr>g_rows = length ls, g_parsed = length eps, g_malformed = malformed,
                           g_exact_dups = dups, g_near_dups = near_pairs (map toks texts),
                           g_unminted = length (filter (\<lambda>e. r_dir e = [] \<or> r_npos e \<le> 0) eps),
                           g_no_prov = length (filter (\<lambda>e. or_str (r_src e) [] = []) eps)\<rparr>,
                     if malformed = 0 \<and> dups = 0 then Healthy else NeedsCompaction))))"

fun compact_lines :: "string list \<Rightarrow> line list \<Rightarrow> row list \<times> nat" where
  "compact_lines seen [] = ([], 0)"
| "compact_lines seen (Junk # ls) = (case compact_lines seen ls of (kept, n) \<Rightarrow> (kept, n + 1))"
| "compact_lines seen (Row e # ls) =
     (let key = strip (row_text e) in
      if key \<noteq> [] \<and> key \<in> set seen
      then (case compact_lines seen ls of (kept, n) \<Rightarrow> (kept, n + 1))
      else (case compact_lines (key # seen) ls of (kept, n) \<Rightarrow> (e # kept, n)))"

definition compact_registry :: "mem \<Rightarrow> (nat \<times> nat) option \<times> mem" where
  "compact_registry s =
     (if m_path s = [] then (None, s)
      else (case m_file s of
              None \<Rightarrow> (None, s)
            | Some ls \<Rightarrow>
                (case compact_lines [] ls of
                   (kept, dropped) \<Rightarrow> (Some (length kept, dropped), s\<lparr>m_file := Some (map Row kept)\<rparr>))))"

fun count_keys :: "string list \<Rightarrow> (string \<times> nat) list \<Rightarrow> (string \<times> nat) list" where
  "count_keys [] acc = acc"
| "count_keys (k # ks) acc =
     count_keys ks (if k \<in> fst ` set acc then map (\<lambda>(x, n). if x = k then (x, n + 1) else (x, n)) acc
                    else acc @ [(k, 1)])"

definition memory_stats :: "mem \<Rightarrow> nat \<times> nat \<times> (string \<times> nat) list" where
  "memory_stats s =
     (let eps = load_rows s in
      (length eps, length (filter (\<lambda>e. 0 < r_npos e) eps),
       sort_key (\<lambda>p. - int (snd p)) (count_keys (map (\<lambda>e. get_str (r_src e) ''unknown'') eps) [])))"

end
