(* ===== verification/Contracts.thy ===== *)
theory Contracts imports Prelude begin

text \<open>
  The interfaces the components share, as locales.

  \<open>tombstone_store\<close>: a store whose operations never erase a row and never revive a dead one; the
  fact registry and the note board both promise it. \<open>silence_stage\<close>: a stage of the recall seam
  that may only drop candidates. \<open>content_sink\<close>: a content-addressed sink whose writes are
  idempotent. \<open>bounded_speaker\<close>: a policy that speaks only under a budget.
\<close>

section \<open>Stores that tombstone\<close>

locale tombstone_store =
  fixes step :: "'op \<Rightarrow> 's \<Rightarrow> 's"
    and rows :: "'s \<Rightarrow> 'r list"
    and ident :: "'r \<Rightarrow> 'k"
    and dead :: "'r \<Rightarrow> bool"
  assumes step_keeps: "\<exists>more. map ident (rows (step a s)) = map ident (rows s) @ more"
    and step_dead: "i < length (rows s) \<Longrightarrow> dead (rows s ! i) \<Longrightarrow> dead (rows (step a s) ! i)"
begin

lemma run_keeps: "\<exists>more. map ident (rows (fold step ops s)) = map ident (rows s) @ more"
proof (induction ops arbitrary: s)
  case (Cons a ops)
  obtain m1 where "map ident (rows (step a s)) = map ident (rows s) @ m1"
    using step_keeps by blast
  with Cons.IH [of "step a s"] show ?case by auto
qed simp

lemma run_length: "length (rows s) \<le> length (rows (fold step ops s))"
proof -
  obtain more where "map ident (rows (fold step ops s)) = map ident (rows s) @ more"
    using run_keeps by blast
  from arg_cong [OF this, of length] show ?thesis by simp
qed

lemma run_ident:
  assumes "i < length (rows s)"
  shows "ident (rows (fold step ops s) ! i) = ident (rows s ! i)"
proof -
  obtain more where more: "map ident (rows (fold step ops s)) = map ident (rows s) @ more"
    using run_keeps by blast
  have "map ident (rows (fold step ops s)) ! i = map ident (rows s) ! i"
    by (simp add: more nth_append assms)
  then show ?thesis using assms run_length [of s ops] by simp
qed

lemma run_dead:
  "i < length (rows s) \<Longrightarrow> dead (rows s ! i) \<Longrightarrow> dead (rows (fold step ops s) ! i)"
proof (induction ops arbitrary: s)
  case (Cons a ops)
  then show ?case
    using step_dead [of i s a] run_length [of s "[a]"] by simp
qed simp

end

section \<open>Stages of the recall seam\<close>

locale silence_stage =
  fixes stage :: "(real \<times> 'r) list \<Rightarrow> (real \<times> 'r) list"
  assumes only_drops: "set (map snd (stage xs)) \<subseteq> set (map snd xs)"
    and no_longer: "length (stage xs) \<le> length xs"
begin

lemma keeps_all: "\<forall>p \<in> set xs. P (snd p) \<Longrightarrow> p \<in> set (stage xs) \<Longrightarrow> P (snd p)"
  using only_drops [of xs] by fastforce

lemma then_stage:
  assumes "set (map snd (g (stage xs))) \<subseteq> set (map snd (stage xs))"
  shows "set (map snd (g (stage xs))) \<subseteq> set (map snd xs)"
  using assms only_drops [of xs] by blast

end

section \<open>Idempotent sinks\<close>

locale content_sink =
  fixes put :: "string \<Rightarrow> 's \<Rightarrow> bool \<times> 's"
    and holds :: "string \<Rightarrow> 's \<Rightarrow> bool"
  assumes put_holds: "fst (put r s) \<Longrightarrow> holds r (snd (put r s))"
    and put_keeps: "holds q s \<Longrightarrow> holds q (snd (put r s))"
    and put_again: "holds r s \<Longrightarrow> put r s = (False, snd (put r s))"
    and put_old: "holds r s \<Longrightarrow> holds q (snd (put r s)) \<longleftrightarrow> holds q s"
begin

fun put_all :: "string list \<Rightarrow> 's \<Rightarrow> nat \<times> 's" where
  "put_all [] s = (0, s)"
| "put_all (r # rs) s =
     (case put r s of (isnew, s1) \<Rightarrow> (case put_all rs s1 of (n, s2) \<Rightarrow> ((if isnew then n + 1 else n), s2)))"

lemma put_all_keeps: "holds q s \<Longrightarrow> holds q (snd (put_all rs s))"
proof (induction rs arbitrary: s)
  case (Cons r rs)
  obtain b s1 where p: "put r s = (b, s1)" by fastforce
  then have "holds q s1" using put_keeps [of q s r] Cons.prems by simp
  from Cons.IH [OF this] show ?case by (cases "put_all rs s1") (simp add: p)
qed simp

lemma put_all_again: "\<forall>r \<in> set rs. holds r s \<Longrightarrow> fst (put_all rs s) = 0"
proof (induction rs arbitrary: s)
  case (Cons r rs)
  obtain s1 where s1: "put r s = (False, s1)"
    using put_again [of r s] Cons.prems by (metis list.set_intros(1))
  then have "\<forall>q \<in> set rs. holds q s1"
    using Cons.prems put_keeps [of _ s r] by simp
  then show ?case using Cons.IH [of s1] by (auto simp: s1 split: prod.splits)
qed simp

end

section \<open>Speaking under a budget\<close>

text \<open>
  \<open>recent st now\<close> counts what was said inside the window. A policy that honours the budget says
  nothing at or above the cap, and saying something adds at most one to the count.
\<close>

locale bounded_speaker =
  fixes wants :: "'st \<Rightarrow> real \<Rightarrow> 'in \<Rightarrow> bool"
    and said :: "'st \<Rightarrow> real \<Rightarrow> 'st"
    and recent :: "'st \<Rightarrow> real \<Rightarrow> nat"
    and cap :: nat
  assumes under_cap: "wants st now i \<Longrightarrow> recent st now < cap"
    and said_one: "recent (said st now) t \<le> recent st t + 1"
    and window_shrinks: "now \<le> t \<Longrightarrow> recent st t \<le> recent st now"
begin

lemma speak_within_cap:
  "wants st now i \<Longrightarrow> now \<le> t \<Longrightarrow> recent (said st t) t \<le> cap"
  using under_cap [of st now i] said_one [of st t t] window_shrinks [of now t st] by linarith

end

end
