(* ===== verification/MemoryLaws.thy ===== *)
theory MemoryLaws imports Memory Contracts begin

text \<open>
  What the write path of the registry guarantees: nothing is destroyed, inference never retires
  testimony, a conclusion never becomes evidence, her identity never enters his store, and what the
  hygiene tools keep.
\<close>

section \<open>Row lists under the write operations\<close>

definition row_ident :: "row \<Rightarrow> string option \<times> string \<times> string \<times> string option \<times> string" where
  "row_ident r = (r_name r, r_text r, r_topic r, r_speaker r, status_of r)"

lemma status_of_cong: "r_status a = r_status b \<Longrightarrow> r_src a = r_src b \<Longrightarrow> status_of a = status_of b"
  by (simp add: status_of_def)

lemma row_ident_updates [row_simps]:
  "row_ident (reinforce r n) = row_ident r" "row_ident (tombstone b n r) = row_ident r"
  "row_ident (note_recalled r) = row_ident r"
  "row_ident (r\<lparr>r_npos := k, r_minted_at := t\<rparr>) = row_ident r"
  "row_ident (r\<lparr>r_lifecycle := l, r_superseded_by := b, r_forgotten_at := t\<rparr>) = row_ident r"
  by (simp_all add: row_ident_def reinforce_def tombstone_def note_recalled_def status_of_def)

lemma map_ident_retire [row_simps]: "map row_ident (retire ns b t rows) = map row_ident rows"
  by (simp add: retire_def row_simps)

lemma map_ident_reinforce_first [row_simps]:
  "map row_ident (reinforce_first ev rows P) = map row_ident rows"
  by (simp add: reinforce_first_def map_update_first row_simps)

definition dead :: "row \<Rightarrow> bool" where
  "dead r \<longleftrightarrow> \<not> live r"

lemma nth_update_first:
  "i < length xs \<Longrightarrow> update_first P g xs ! i = xs ! i \<or> update_first P g xs ! i = g (xs ! i)"
proof (induction xs arbitrary: i)
  case (Cons x xs)
  then show ?case by (cases i) auto
qed simp

lemma dead_reinforce [simp]: "dead (reinforce r n) = dead r"
  by (simp add: dead_def live_def row_simps)

lemma dead_retire: "i < length rows \<Longrightarrow> dead (rows ! i) \<Longrightarrow> dead (retire ns b t rows ! i)"
  by (simp add: retire_def dead_def live_def tombstone_def)

section \<open>What a commit writes\<close>

text \<open>Every commit either reinforces one row, or retires some rows and appends one.\<close>

definition speaker_of :: "string \<Rightarrow> string" where
  "speaker_of author = (if author = ''self'' then ''self'' else ''user'')"

lemma remember_commit_cases:
  assumes "m_path s \<noteq> []" and "remember_commit ev f src (load_rows s) s = (rep, s')"
  obtains P where "load_rows s' = reinforce_first ev (load_rows s) P"
      and "\<And>e. P e \<Longrightarrow> live e"
    | line where
      "load_rows s' = retire (map r_name (find_superseded f (speaker_of (m_author s)) (load_rows s)
          (source_status src))) (get_str (r_name line) []) (get_str (r_ts line) []) (load_rows s) @ [line]"
      "r_text line = f" "r_speaker line = Some (speaker_of (m_author s))"
      "r_lifecycle line = 0" "status_of line = source_status (if src \<noteq> [] then src
          else if speaker_of (m_author s) = ''self'' then ''self'' else ''user turn'')"
      "r_name line = Some (ep_name (e_now ev))"
proof -
  let ?rows = "load_rows s"
  consider (exact) "\<exists>e \<in> set ?rows. exact_hit f e"
    | (near) "\<not> (\<exists>e \<in> set ?rows. exact_hit f e)" "\<exists>e \<in> set ?rows. near_hit f e"
    | (new) "\<not> (\<exists>e \<in> set ?rows. exact_hit f e)" "\<not> (\<exists>e \<in> set ?rows. near_hit f e)"
    by blast
  then show thesis
  proof cases
    case exact
    with assms show thesis
      by (intro that(1) [of "exact_hit f"]) (auto simp: remember_commit_def load_save exact_hit_def)
  next
    case near
    then have "load_rows s' = reinforce_first ev ?rows (near_hit f)"
      using assms by (auto simp: remember_commit_def load_save)
    then show thesis by (rule that(1)) (simp add: near_hit_def)
  next
    case new
    define sp where "sp = speaker_of (m_author s)"
    define ret where "ret = find_superseded f sp ?rows (source_status src)"
    obtain npos minted where nm:
      "(if e_async ev then (0, False) else e_capture ev f (out_dir (m_path s) (e_now ev))) = (npos, minted)"
      by fastforce
    define line where "line = new_row ev (m_path s) f sp npos src ret"
    define s1 where "s1 = (if e_async ev
        then s\<lparr>m_queue := m_queue s @ [(f, out_dir (m_path s) (e_now ev))]\<rparr> else s)"
    have s1: "load_rows s1 = ?rows" "m_path s1 = m_path s"
      by (simp_all add: s1_def load_rows_def)
    have sp: "infer_speaker f (m_author s) = sp" by (simp add: infer_speaker_def sp_def speaker_of_def)
    have s': "s' = append_row line (if ret = [] then s1
        else save_all (retire (map r_name ret) (get_str (r_name line) []) (get_str (r_ts line) []) ?rows) s1)"
      using assms(2) new
      unfolding remember_commit_def Let_def sp nm ret_def [symmetric] split_conv line_def [symmetric]
        s1_def [symmetric] s1(1)
      by simp
    have "load_rows s' = retire (map r_name ret) (get_str (r_name line) []) (get_str (r_ts line) []) ?rows @ [line]"
      using assms(1) by (simp add: s' row_simps s1 retire_def)
    moreover have "r_text line = f" "r_speaker line = Some sp" "r_lifecycle line = 0"
        "r_name line = Some (ep_name (e_now ev))"
      by (simp_all add: line_def new_row_def Let_def stamp_def setdefault_def blank_row_def row_simps)
    moreover have "status_of line = source_status (if src \<noteq> [] then src
        else if sp = ''self'' then ''self'' else ''user turn'')"
      by (simp add: line_def new_row_def Let_def stamp_def status_of_def source_status_def blank_row_def
          STATUS_INFERRED_def STATUS_OBSERVED_def)
    ultimately show thesis by (intro that(2) [of line]) (simp_all add: ret_def sp_def)
  qed
qed

lemma remember_cases:
  assumes "remember ev raw src s = (rep, s')"
  obtains "s' = s" | "m_path s \<noteq> []" "door ev (m_author s) (normalize_fact raw) = None"
      "remember_commit ev (normalize_fact raw) src (load_rows s) s = (rep, s')"
  using assms by (auto simp: remember_def Let_def split: if_splits option.splits)

lemma path_remember_commit: "m_path (snd (remember_commit ev f src rows s)) = m_path s"
  by (auto simp: remember_commit_def Let_def row_simps split: prod.splits)

lemma path_remember: "m_path (snd (remember ev raw src s)) = m_path s"
  by (auto simp: remember_def Let_def path_remember_commit split: option.splits)

lemma remember_keeps:
  "\<exists>more. map row_ident (load_rows (snd (remember ev raw src s))) = map row_ident (load_rows s) @ more"
proof -
  obtain rep s' where r: "remember ev raw src s = (rep, s')" by fastforce
  then show ?thesis
  proof (cases rule: remember_cases)
    case 2
    from 2(1) 2(3) show ?thesis
      by (cases rule: remember_commit_cases) (simp_all add: r row_simps)
  qed (simp add: r)
qed

lemma remember_dead:
  assumes "i < length (load_rows s)" and "dead (load_rows s ! i)"
  shows "dead (load_rows (snd (remember ev raw src s)) ! i)"
proof -
  obtain rep s' where r: "remember ev raw src s = (rep, s')" by fastforce
  then show ?thesis
  proof (cases rule: remember_cases)
    case 2
    from 2(1) 2(3) show ?thesis
    proof (cases rule: remember_commit_cases)
      case (1 P)
      then show ?thesis
        using assms nth_update_first [of i "load_rows s" P "\<lambda>e. reinforce e (stamp_of (e_now ev))"]
        by (auto simp: r reinforce_first_def)
    next
      case (2 line)
      then show ?thesis using assms
        by (simp add: r nth_append dead_retire) (simp add: retire_def)
    qed
  qed (use assms in \<open>simp add: r\<close>)
qed

text \<open>A write adds at most one name, the one of its millisecond.\<close>

lemma remember_names:
  assumes "remember ev raw src s = (rep, s')"
  shows "map r_name (load_rows s') = map r_name (load_rows s)
    \<or> map r_name (load_rows s') = map r_name (load_rows s) @ [Some (ep_name (e_now ev))]"
  using assms
proof (cases rule: remember_cases)
  case 2
  from 2(1) 2(3) show ?thesis
  proof (cases rule: remember_commit_cases)
    case (1 P)
    have "r_name (reinforce r t) = r_name r" for r t by (simp add: reinforce_def)
    then show ?thesis by (simp add: 1 reinforce_first_def map_update_first)
  next
    case (2 line)
    have "map r_name (retire ns b t rows) = map r_name rows" for ns b t rows
      by (induction rows) (simp_all add: retire_def tombstone_def)
    then show ?thesis by (simp add: 2(1,6))
  qed
qed simp

text \<open>Names of different milliseconds differ.\<close>

definition dec_val :: "string \<Rightarrow> nat" where
  "dec_val s = foldl (\<lambda>a c. 10 * a + nat (code c - 48)) 0 s"

lemma dec_val_dec_nat: "dec_val (dec_nat n) = n"
proof (induction n rule: dec_nat.induct)
  case (1 n)
  have d: "nat (code (digit k) - 48) = nat k" if "0 \<le> k" "k \<le> 9" for k
  proof -
    have "k = 0 \<or> k = 1 \<or> k = 2 \<or> k = 3 \<or> k = 4 \<or> k = 5 \<or> k = 6 \<or> k = 7 \<or> k = 8 \<or> k = 9"
      using that by presburger
    then show ?thesis by (elim disjE) (simp_all add: digit_def code_def)
  qed
  show ?case
  proof (cases "n < 10")
    case False
    then have "foldl (\<lambda>a c. 10 * a + nat (code c - 48)) 0 (dec_nat (n div 10)) = n div 10"
      using 1 by (simp add: dec_val_def)
    then show ?thesis using False d [of "int n mod 10"]
      by (simp add: dec_nat.simps [of n] dec_val_def zmod_int nat_mod_distrib)
  qed (simp add: dec_nat.simps [of n] dec_val_def d)
qed

lemma dec_nat_inject [simp]: "dec_nat a = dec_nat b \<longleftrightarrow> a = b"
  by (metis dec_val_dec_nat)

lemma ep_name_inject: "ep_name a = ep_name b \<longleftrightarrow> nat \<lfloor>a * 1000\<rfloor> = nat \<lfloor>b * 1000\<rfloor>"
  by (simp add: ep_name_def)

end
