(* ===== verification/Semindex.thy ===== *)
theory Semindex imports Slots "HOL-Library.AList" begin

text \<open>
  \<open>harness/skills/semindex.py\<close>: the append-only semantic index beside the registry. A line of the
  index file is a row or text the reader skips. The digests (sha-1 as a number, sha-256 as
  hexadecimal text) are standard-library functions and parameters here; what is read from
  \<open>ep.l5\<close> in an episode directory is the parameter \<open>ep\<close>. The in-memory cache of the loaded index is
  not modelled: it is a memo of \<open>load_index\<close>.
\<close>

record semrow =
  x_addr :: string
  x_ts :: string
  x_model :: string
  x_vec :: "real list"

datatype semline = SemRow semrow | SemJunk

definition MODEL_HASH :: string where "MODEL_HASH = ''hash256-v1''"

definition MODEL_L5 :: string where "MODEL_L5 = ''l5-512-v1''"

definition KNOWN_MODELS :: "string list" where "KNOWN_MODELS = [MODEL_HASH, MODEL_L5]"

definition HASH_DIM :: nat where "HASH_DIM = 256"

definition L5_DIM :: nat where "L5_DIM = 512"

record semstate =
  x_path :: string
  x_armed :: bool
  x_lines :: "semline list option"
  x_dropped :: nat

definition sem_enabled :: "semstate \<Rightarrow> bool" where
  "sem_enabled s \<longleftrightarrow> x_armed s \<and> x_path s \<noteq> []"

section \<open>Vectors\<close>

definition round6 :: "real \<Rightarrow> real" where
  "round6 x = of_int (py_round (x * 1000000)) / 1000000"

definition vec_norm :: "real list \<Rightarrow> real" where
  "vec_norm v = (let n = sqrt (sum_list (map (\<lambda>x. x * x) v)) in if n = 0 then 1 else n)"

definition hash_counts :: "(string \<Rightarrow> nat) \<Rightarrow> nat \<Rightarrow> string \<Rightarrow> real list" where
  "hash_counts sha1 width t =
     foldl (\<lambda>v w. v[sha1 w mod width := v ! (sha1 w mod width) + 1]) (replicate width 0) (py_split (lower t))"

definition hash_embed :: "(string \<Rightarrow> nat) \<Rightarrow> string \<Rightarrow> real list" where
  "hash_embed sha1 t =
     (let v = hash_counts sha1 HASH_DIM t; n = vec_norm v in map (\<lambda>x. round6 (x / n)) v)"

definition dot_prod :: "real list \<Rightarrow> real list \<Rightarrow> real" where
  "dot_prod a b = sum_list (map (\<lambda>(x, y). x * y) (zip a b))"

definition cosine :: "real list \<Rightarrow> real list \<Rightarrow> real" where
  "cosine a b =
     (if a = [] \<or> b = [] \<or> length a \<noteq> length b then 0
      else dot_prod a b / (vec_norm a * vec_norm b))"

definition vec_minus :: "real list \<Rightarrow> real list \<Rightarrow> real list" where
  "vec_minus a m = map (\<lambda>(x, y). x - y) (zip a m)"

definition centered_cosine :: "real list \<Rightarrow> real list \<Rightarrow> real list option \<Rightarrow> real" where
  "centered_cosine a b mu =
     (case mu of None \<Rightarrow> cosine a b
      | Some m \<Rightarrow> if length m \<noteq> length a \<or> length a \<noteq> length b then cosine a b
                  else cosine (vec_minus a m) (vec_minus b m))"

section \<open>Reading the index\<close>

type_synonym semkey = "string \<times> string"

type_synonym semidx = "(semkey \<times> semrow) list"

fun rank_in :: "string list \<Rightarrow> string \<Rightarrow> int" where
  "rank_in [] m = - 1"
| "rank_in (x # xs) m = (if x = m then 0 else (let r = rank_in xs m in if r < 0 then r else r + 1))"

definition row_key :: "semrow \<Rightarrow> semkey" where
  "row_key r = (x_addr r, x_ts r)"

definition absorb :: "string list \<Rightarrow> semline \<Rightarrow> semidx \<Rightarrow> semidx" where
  "absorb models l idx =
     (case l of SemJunk \<Rightarrow> idx
      | SemRow r \<Rightarrow>
          if x_model r \<notin> set models then idx
          else (case map_of idx (row_key r) of
                  None \<Rightarrow> AList.update (row_key r) r idx
                | Some prev \<Rightarrow>
                    if rank_in KNOWN_MODELS (x_model prev) \<le> rank_in KNOWN_MODELS (x_model r)
                    then AList.update (row_key r) r idx else idx))"

definition load_index :: "string list \<Rightarrow> semstate \<Rightarrow> semidx" where
  "load_index models s =
     (if x_path s = [] then []
      else (case x_lines s of None \<Rightarrow> [] | Some ls \<Rightarrow> fold (absorb models) ls []))"

definition space_mean :: "semidx \<Rightarrow> string \<Rightarrow> real list option" where
  "space_mean idx model =
     (let vecs = map x_vec (filter (\<lambda>r. x_model r = model \<and> x_vec r \<noteq> []) (map snd idx)) in
      if length vecs < 3 then None
      else Some (map (\<lambda>i. sum_list (map (\<lambda>v. v ! i) vecs) / of_nat (length vecs))
                   [0..<length (hd vecs)]))"

section \<open>The two writers\<close>

definition sem_append :: "semrow \<Rightarrow> semstate \<Rightarrow> semstate" where
  "sem_append r s = s\<lparr>x_lines := Some ((case x_lines s of None \<Rightarrow> [] | Some ls \<Rightarrow> ls) @ [SemRow r])\<rparr>"

definition mint_sem ::
  "(string \<Rightarrow> string) \<Rightarrow> (string \<Rightarrow> nat) \<Rightarrow> (string \<Rightarrow> real list option) \<Rightarrow> string \<Rightarrow> string \<Rightarrow> string option
     \<Rightarrow> semstate \<Rightarrow> bool \<times> semstate" where
  "mint_sem digest sha1 ep fct ts out s =
     (if \<not> sem_enabled s \<or> fct = [] then (False, s)
      else (let vec = (case out of None \<Rightarrow> None | Some d \<Rightarrow> if d = [] then None else ep d) in
            (True, sem_append \<lparr>x_addr = addr_of digest fct, x_ts = ts,
               x_model = (if vec \<noteq> None then MODEL_L5 else MODEL_HASH),
               x_vec = (case vec of Some v \<Rightarrow> v | None \<Rightarrow> hash_embed sha1 fct)\<rparr> s)))"

definition upgrade ::
  "(string \<Rightarrow> string) \<Rightarrow> (string \<Rightarrow> real list option) \<Rightarrow> string \<Rightarrow> string \<Rightarrow> string \<Rightarrow> semstate
     \<Rightarrow> bool \<times> semstate" where
  "upgrade digest ep out fct ts s =
     (if \<not> sem_enabled s \<or> fct = [] then (False, s)
      else (case ep out of
              None \<Rightarrow> (False, s)
            | Some v \<Rightarrow> (True, sem_append \<lparr>x_addr = addr_of digest fct, x_ts = ts,
                                 x_model = MODEL_L5, x_vec = v\<rparr> s)))"

section \<open>Maintenance\<close>

definition live_texts :: "row list \<Rightarrow> row list" where
  "live_texts rows = filter has_text rows"

definition reg_key :: "(string \<Rightarrow> string) \<Rightarrow> row \<Rightarrow> semkey" where
  "reg_key digest r = (addr_of digest (r_text r), or_str (r_ts r) [])"

definition indexed :: "semidx \<Rightarrow> semkey \<Rightarrow> bool" where
  "indexed idx k \<longleftrightarrow> map_of idx k \<noteq> None"

definition coverage :: "(string \<Rightarrow> string) \<Rightarrow> row list \<Rightarrow> semstate \<Rightarrow> nat \<times> nat \<times> real option" where
  "coverage digest rows s =
     (let idx = load_index KNOWN_MODELS s; live = live_texts rows;
          have_n = length (filter (\<lambda>r. indexed idx (reg_key digest r)) live)
      in (length live, have_n,
          if live = [] then None else Some (round4 (of_nat have_n / of_nat (length live)))))"

fun backfill_loop ::
  "(string \<Rightarrow> string) \<Rightarrow> (string \<Rightarrow> nat) \<Rightarrow> (string \<Rightarrow> real list option) \<Rightarrow> semidx \<Rightarrow> row list \<Rightarrow> semstate
     \<Rightarrow> nat \<times> nat \<times> nat \<Rightarrow> (nat \<times> nat \<times> nat) \<times> semstate" where
  "backfill_loop digest sha1 ep idx [] s c = (c, s)"
| "backfill_loop digest sha1 ep idx (r # rs) s (minted, skipped, refused) =
     (if indexed idx (reg_key digest r)
      then backfill_loop digest sha1 ep idx rs s (minted, skipped + 1, refused)
      else (case mint_sem digest sha1 ep (r_text r) (or_str (r_ts r) []) (Some (r_dir r)) s of
              (ok, s') \<Rightarrow> backfill_loop digest sha1 ep idx rs s'
                (if ok then (minted + 1, skipped, refused) else (minted, skipped, refused + 1))))"

definition backfill ::
  "(string \<Rightarrow> string) \<Rightarrow> (string \<Rightarrow> nat) \<Rightarrow> (string \<Rightarrow> real list option) \<Rightarrow> row list \<Rightarrow> semstate
     \<Rightarrow> (nat \<times> nat \<times> nat) \<times> semstate" where
  "backfill digest sha1 ep rows s =
     (if \<not> sem_enabled s then ((0, 0, 0), s)
      else backfill_loop digest sha1 ep (load_index KNOWN_MODELS s) (live_texts rows) s (0, 0, 0))"

section \<open>Lemmas\<close>

lemma rank_models [simp]:
  "rank_in KNOWN_MODELS MODEL_HASH = 0" "rank_in KNOWN_MODELS MODEL_L5 = 1"
  by (simp_all add: KNOWN_MODELS_def MODEL_HASH_def MODEL_L5_def)

lemma rank_le_l5: "rank_in KNOWN_MODELS m \<le> 1"
  by (simp add: KNOWN_MODELS_def Let_def)

text \<open>The best row of a key so far: its rank never goes down, and a key never leaves.\<close>

lemma absorb_keeps:
  assumes "map_of idx k = Some r"
  shows "\<exists>r'. map_of (absorb models l idx) k = Some r'
    \<and> rank_in KNOWN_MODELS (x_model r) \<le> rank_in KNOWN_MODELS (x_model r')"
  using assms by (auto simp: absorb_def update_conv' split: semline.splits option.splits)

lemma fold_absorb_keeps:
  "map_of idx k = Some r \<Longrightarrow> \<exists>r'. map_of (fold (absorb models) ls idx) k = Some r'
     \<and> rank_in KNOWN_MODELS (x_model r) \<le> rank_in KNOWN_MODELS (x_model r')"
proof (induction ls arbitrary: idx r)
  case (Cons l ls)
  obtain r1 where r1: "map_of (absorb models l idx) k = Some r1"
    "rank_in KNOWN_MODELS (x_model r) \<le> rank_in KNOWN_MODELS (x_model r1)"
    using absorb_keeps [OF Cons.prems] by blast
  from Cons.IH [OF r1(1)] r1(2) show ?case by fastforce
qed auto

lemma absorb_models:
  assumes "\<forall>r. map_of idx k = Some r \<longrightarrow> x_model r \<in> set models"
  shows "\<forall>r. map_of (absorb models l idx) k = Some r \<longrightarrow> x_model r \<in> set models"
  using assms by (auto simp: absorb_def update_conv' split: semline.splits option.splits)

lemma fold_absorb_models:
  "(\<And>k r. map_of idx k = Some r \<Longrightarrow> x_model r \<in> set models) \<Longrightarrow>
   map_of (fold (absorb models) ls idx) k = Some r \<Longrightarrow> x_model r \<in> set models"
proof (induction ls arbitrary: idx)
  case (Cons l ls)
  have a: "\<And>k' r'. map_of (absorb models l idx) k' = Some r' \<Longrightarrow> x_model r' \<in> set models"
    using absorb_models [of idx _ models l] Cons.prems(1) by blast
  show ?case using Cons.IH [of "absorb models l idx", OF a] Cons.prems(2) by simp
qed simp

lemma load_append_l5:
  assumes "x_path s \<noteq> []" "x_model r = MODEL_L5"
  shows "map_of (load_index KNOWN_MODELS (sem_append r s)) (row_key r) = Some r"
proof -
  have "x_model r \<in> set KNOWN_MODELS" by (simp add: assms KNOWN_MODELS_def)
  then show ?thesis
    using assms rank_le_l5
    by (auto simp: load_index_def sem_append_def absorb_def update_conv' split: option.split)
qed

lemma load_append_key:
  assumes "x_path s \<noteq> []" "x_model r \<in> set KNOWN_MODELS"
  shows "indexed (load_index KNOWN_MODELS (sem_append r s)) (row_key r)"
  using assms
  by (auto simp: load_index_def sem_append_def absorb_def update_conv' indexed_def split: option.split)

lemma load_append_keeps:
  assumes "indexed (load_index KNOWN_MODELS s) k"
  shows "indexed (load_index KNOWN_MODELS (sem_append r s)) k"
proof -
  obtain q where "map_of (load_index KNOWN_MODELS s) k = Some q" and p: "x_path s \<noteq> []"
    using assms by (auto simp: indexed_def load_index_def split: if_splits)
  then show ?thesis
    using absorb_keeps [of "load_index KNOWN_MODELS s" k q KNOWN_MODELS "SemRow r"]
    by (auto simp: indexed_def load_index_def sem_append_def split: option.splits)
qed

lemma mint_sem_indexes:
  assumes "mint_sem digest sha1 ep f ts out s = (True, s')"
  shows "indexed (load_index KNOWN_MODELS s') (addr_of digest f, ts)"
    and "indexed (load_index KNOWN_MODELS s) k \<Longrightarrow> indexed (load_index KNOWN_MODELS s') k"
    and "sem_enabled s'" and "sem_enabled s" and "f \<noteq> []"
proof -
  let ?vec = "case out of None \<Rightarrow> None | Some d \<Rightarrow> if d = [] then None else ep d"
  define r where "r = \<lparr>x_addr = addr_of digest f, x_ts = ts,
     x_model = (if ?vec \<noteq> None then MODEL_L5 else MODEL_HASH),
     x_vec = (case ?vec of Some v \<Rightarrow> v | None \<Rightarrow> hash_embed sha1 f)\<rparr>"
  have s': "s' = sem_append r s" and en: "sem_enabled s" and f: "f \<noteq> []"
    using assms by (auto simp: mint_sem_def r_def Let_def split: if_split_asm)
  have "x_model r \<in> set KNOWN_MODELS" by (simp add: r_def KNOWN_MODELS_def)
  moreover have "row_key r = (addr_of digest f, ts)" by (simp add: row_key_def r_def)
  ultimately show "indexed (load_index KNOWN_MODELS s') (addr_of digest f, ts)"
    using load_append_key [of s r] en by (simp add: s' sem_enabled_def)
  show "indexed (load_index KNOWN_MODELS s) k \<Longrightarrow> indexed (load_index KNOWN_MODELS s') k"
    by (simp add: s' load_append_keeps)
  show "sem_enabled s'" using en by (simp add: s' sem_append_def sem_enabled_def)
  show "sem_enabled s" "f \<noteq> []" by (fact en, fact f)
qed

lemma backfill_loop_spec:
  assumes "sem_enabled s" and "\<forall>r \<in> set rs. r_text r \<noteq> []"
    and "\<And>k. indexed idx k \<Longrightarrow> indexed (load_index KNOWN_MODELS s) k"
    and "backfill_loop digest sha1 ep idx rs s (m, k0, f) = ((m', k', f'), s')"
  shows "f' = f \<and> (\<forall>r \<in> set rs. indexed (load_index KNOWN_MODELS s') (reg_key digest r))
    \<and> (\<forall>k. indexed (load_index KNOWN_MODELS s) k \<longrightarrow> indexed (load_index KNOWN_MODELS s') k)
    \<and> sem_enabled s'
    \<and> m' + k' = m + k0 + length rs
    \<and> ((\<forall>r \<in> set rs. indexed idx (reg_key digest r)) \<longrightarrow> m' = m \<and> s' = s)"
  using assms
proof (induction rs arbitrary: s m k0 f)
  case (Cons r rs)
  show ?case
  proof (cases "indexed idx (reg_key digest r)")
    case True
    with Cons.prems have "backfill_loop digest sha1 ep idx rs s (m, k0 + 1, f) = ((m', k', f'), s')"
      by simp
    moreover have "\<forall>r \<in> set rs. r_text r \<noteq> []" using Cons.prems(2) by simp
    ultimately have ih: "f' = f \<and> (\<forall>r \<in> set rs. indexed (load_index KNOWN_MODELS s') (reg_key digest r))
        \<and> (\<forall>k. indexed (load_index KNOWN_MODELS s) k \<longrightarrow> indexed (load_index KNOWN_MODELS s') k)
        \<and> sem_enabled s' \<and> m' + k' = m + (k0 + 1) + length rs
        \<and> ((\<forall>r \<in> set rs. indexed idx (reg_key digest r)) \<longrightarrow> m' = m \<and> s' = s)"
      using Cons.IH [OF Cons.prems(1) _ Cons.prems(3)] by blast
    moreover have "indexed (load_index KNOWN_MODELS s') (reg_key digest r)"
      using ih Cons.prems(3) [OF True] by blast
    ultimately show ?thesis using True by simp
  next
    case False
    obtain ok s1 where mt: "mint_sem digest sha1 ep (r_text r) (or_str (r_ts r) []) (Some (r_dir r)) s = (ok, s1)"
      by fastforce
    moreover have "ok = True" using mt Cons.prems(1,2) by (auto simp: mint_sem_def Let_def)
    ultimately have mt: "mint_sem digest sha1 ep (r_text r) (or_str (r_ts r) []) (Some (r_dir r)) s = (True, s1)"
      by simp
    note ix = mint_sem_indexes [OF mt]
    have "backfill_loop digest sha1 ep idx rs s1 (m + 1, k0, f) = ((m', k', f'), s')"
      using Cons.prems(4) False mt by simp
    from Cons.IH [OF ix(3) _ _ this] Cons.prems(2,3) ix(1,2) False show ?thesis
      by (simp add: reg_key_def)
  qed
qed simp

lemma backfill_total:
  assumes "sem_enabled s" and "backfill digest sha1 ep rows s = ((m, k, f), s')"
  shows "f = 0 \<and> m + k = length (live_texts rows)
    \<and> (\<forall>r \<in> set (live_texts rows). indexed (load_index KNOWN_MODELS s') (reg_key digest r))
    \<and> sem_enabled s'"
proof -
  have t: "\<forall>r \<in> set (live_texts rows). r_text r \<noteq> []"
    by (simp add: live_texts_def has_text_def)
  have "backfill_loop digest sha1 ep (load_index KNOWN_MODELS s) (live_texts rows) s (0, 0, 0) = ((m, k, f), s')"
    using assms by (simp add: backfill_def)
  from backfill_loop_spec [OF assms(1) t _ this] show ?thesis by simp
qed

lemma backfill_again:
  assumes "sem_enabled s" and "\<forall>r \<in> set (live_texts rows). indexed (load_index KNOWN_MODELS s) (reg_key digest r)"
  shows "\<exists>k f. backfill digest sha1 ep rows s = ((0, k, f), s)"
proof -
  have t: "\<forall>r \<in> set (live_texts rows). r_text r \<noteq> []"
    by (simp add: live_texts_def has_text_def)
  obtain m k f s' where b: "backfill digest sha1 ep rows s = ((m, k, f), s')"
    by (metis prod.exhaust)
  then have "backfill_loop digest sha1 ep (load_index KNOWN_MODELS s) (live_texts rows) s (0, 0, 0) = ((m, k, f), s')"
    using assms(1) by (simp add: backfill_def)
  from backfill_loop_spec [OF assms(1) t _ this] assms(2) b show ?thesis by simp
qed

end
