(* ===== verification/Recall.thy ===== *)
theory Recall imports MemoryLaws Semindex begin

text \<open>
  The read path of \<open>harness/skills/memory.py\<close>: the one seam \<open>search_memories_ranked_rows\<close> every
  reader goes through, the ownership scoping and ranking, and the tools on top of it. The seam is
  configured by a value of \<open>seam\<close>: the clock, the digest, the semantic gate and the committed law
  with its two switches. Results come with the counters of the law.
\<close>

section \<open>The question\<close>

definition last_clause :: "string \<Rightarrow> string" where
  "last_clause query =
     (let c = strip (last (split_on (\<lambda>c. c \<in> set ''.:;!'') query)) in if c = [] then query else c)"

definition ASKS_SELF :: rx where
  "ASKS_SELF = bounded (words [''your'', ''yours'', ''you'', ''you'' @ [CHR 0x27] @ ''re'', ''youre''])"

definition ASKS_USER :: rx where
  "ASKS_USER = bounded (words [''my'', ''mine'', ''me'', ''i'', ''i'' @ [CHR 0x27] @ ''m'', ''im''])"

definition ASK_FRAME :: rx where
  "ASK_FRAME = seqs [Bos, sp0, alts
     [seqs [words [''hey'', ''hi'', ''ok'', ''okay'', ''so'', ''and'', ''well'', ''but''], Bnd,
            St (Cls (\<lambda>c. is_space c \<or> c = CHR '',''))],
      seqs [words [''do'', ''did'', ''can'', ''could'', ''would'', ''will'', ''does''], sp1, lit ''you'', Bnd],
      seqs [words [''do'', ''did''], sp1, lit ''you'', sp1, opt (Sq (lit ''still'') sp1),
            words [''remember'', ''recall'', ''know'', ''have''], Bnd],
      seqs [words [''can'', ''could'', ''would''], sp1, lit ''you'', sp1, opt (Sq (lit ''please'') sp1),
            words [''tell'', ''remind'', ''say''], sp1, lit ''me'', Bnd],
      seqs [words [''tell'', ''remind''], sp1, lit ''me'', Bnd],
      seqs [words [''what'', ''which''], sp1, lit ''do'', sp1, lit ''you'', sp1,
            words [''remember'', ''know''], Bnd],
      seqs [lit ''please'', Bnd]],
     St (Cls (\<lambda>c. is_space c \<or> c = CHR '','' \<or> c = CHR '':''))]"

definition unframe_step :: "string \<Rightarrow> string" where
  "unframe_step t = strip (isub1 ASK_FRAME [] t)"

lemma shrinks_unframe_step: "shrinks unframe_step"
  using shrinks_comp [OF shrinks_isub1 shrinks_strip] by (simp add: unframe_step_def [abs_def])

function unframe_loop :: "string \<Rightarrow> string" where
  "unframe_loop t = (let u = unframe_step t in if u = t then t else unframe_loop u)"
  by pat_completeness auto
termination
proof (relation "measure length")
  fix t x
  assume "x = unframe_step t" and "x \<noteq> t"
  then show "(x, t) \<in> measure length"
    using shrinks_unframe_step unfolding shrinks_def by auto
qed simp

declare unframe_loop.simps [simp del]

definition unframe :: "string \<Rightarrow> string" where
  "unframe q = (let t = unframe_loop (strip q) in if t \<noteq> [] then t else strip q)"

definition REL_NOUN :: rx where
  "REL_NOUN = seqs [Bnd, words [''wife'', ''husband'', ''partner'', ''girlfriend'', ''boyfriend'', ''brother'',
     ''sister'', ''mother'', ''father'', ''mum'', ''mom'', ''dad'', ''son'', ''daughter'', ''friend'', ''cat'',
     ''dog'', ''pet''], opt (lit ''s''), Bnd]"

text \<open>The group of \<open>REL_NOUN\<close>: no noun of the list ends in s, so the group is the match less its s.\<close>

definition rel_nouns :: "string \<Rightarrow> string set" where
  "rel_nouns t = set (map (\<lambda>m. if endswith m ''s'' then butlast m else m) (findall REL_NOUN (lower t)))"

definition set_question :: "string \<Rightarrow> mem \<Rightarrow> mem" where
  "set_question t s = s\<lparr>m_question := t\<rparr>"

definition query_target :: "string \<Rightarrow> string \<Rightarrow> string option" where
  "query_target question query =
     (let src = unframe (if question \<noteq> [] then question else query) in
      if ifound ASKS_SELF src then Some ''self''
      else if ifound ASKS_USER src then Some ''user'' else None)"

section \<open>The seam\<close>

record semq =
  q_idx :: semidx
  q_vec :: "(real list \<times> string) option"
  q_tau :: real
  q_mean :: "real list option"

record seam =
  v_now :: real
  v_digest :: "string \<Rightarrow> string"
  v_semq :: "semq option"
  v_enforce :: bool
  v_shadow :: bool
  v_table :: table
  v_slots :: sidecar

text \<open>The semantic gate as the seam opens it: nothing is embedded when the index is empty.\<close>

definition open_semq :: "bool \<Rightarrow> real \<Rightarrow> semstate \<Rightarrow> (string \<Rightarrow> real list \<times> string) \<Rightarrow> string \<Rightarrow> semq option"
  where
  "open_semq armed tau st emb query =
     (if \<not> armed then None
      else (let idx = load_index KNOWN_MODELS st in
            Some \<lparr>q_idx = idx, q_vec = (if idx = [] then None else Some (emb query)), q_tau = tau,
                  q_mean = space_mean idx MODEL_L5\<rparr>))"

definition cos_of :: "seam \<Rightarrow> row \<Rightarrow> real" where
  "cos_of v e =
     (case v_semq v of None \<Rightarrow> 0
      | Some q \<Rightarrow>
          (case q_vec q of None \<Rightarrow> 0
           | Some (qv, qm) \<Rightarrow>
               (case map_of (q_idx q) (addr_of (v_digest v) (row_text e), or_str (r_ts e) []) of
                  None \<Rightarrow> 0
                | Some sr \<Rightarrow>
                    if x_model sr \<noteq> qm then 0
                    else if qm = MODEL_L5 then centered_cosine qv (x_vec sr) (q_mean q)
                    else cosine qv (x_vec sr))))"

definition sem_tau :: "seam \<Rightarrow> real" where
  "sem_tau v = (case v_semq v of None \<Rightarrow> 2 | Some q \<Rightarrow> q_tau q)"

definition lex_score :: "string \<Rightarrow> row \<Rightarrow> real" where
  "lex_score query e =
     (let t = row_text e; ov = overlap query t; clause = last_clause query in
      if clause \<noteq> query then max ov (overlap clause t) else ov)"

definition admits :: "seam \<Rightarrow> string \<Rightarrow> real \<Rightarrow> row \<Rightarrow> bool" where
  "admits v query min_overlap e \<longleftrightarrow> min_overlap \<le> lex_score query e \<or> sem_tau v \<le> cos_of v e"

definition match_rows :: "seam \<Rightarrow> string \<Rightarrow> real \<Rightarrow> bool \<Rightarrow> row list \<Rightarrow> (real \<times> row) list" where
  "match_rows v query min_overlap retired rows =
     rank_desc (map (\<lambda>e. (max (lex_score query e) (cos_of v e), e))
       (filter (\<lambda>e. (retired \<or> live e) \<and> admits v query min_overlap e) rows))"

definition adjust :: "real \<Rightarrow> string \<Rightarrow> real \<times> row \<Rightarrow> real \<times> row" where
  "adjust now query p =
     (let s = fst p; e = snd p; t = row_text e;
          q_rel = depluralise ` rel_nouns query;
          s1 = (if rel_nouns t - q_rel \<noteq> {} then s - 40 / 100 else s);
          s2 = (if ''name'' \<in> toks query \<and> r_class e = ''identity'' then s1 + 30 / 100 else s1)
      in (s2 + 22 / 100 * salience e now, e))"

definition narrow :: "string option \<Rightarrow> (real \<times> row) list \<Rightarrow> (real \<times> row) list" where
  "narrow target hits =
     (case target of None \<Rightarrow> hits
      | Some who \<Rightarrow> (let owned = filter (\<lambda>(s, e). spk e = who) hits in if owned = [] then hits else owned))"

definition target_and_rank :: "real \<Rightarrow> string \<Rightarrow> string \<Rightarrow> (real \<times> row) list \<Rightarrow> (real \<times> row) list" where
  "target_and_rank now question query hits =
     rank_desc (map (adjust now query) (narrow (query_target question query) hits))"

text \<open>The stages after the match, in the order of the source; the audit lane skips them.\<close>

definition rule_rows ::
  "seam \<Rightarrow> string \<Rightarrow> string \<Rightarrow> row list \<Rightarrow> (real \<times> row) list \<Rightarrow> law_stats \<Rightarrow> (real \<times> row) list \<times> law_stats"
  where
  "rule_rows v question query rows scored st =
     enforce (v_enforce v) (v_digest v) (v_slots v) attr_absent (v_table v) query
       (target_and_rank (v_now v) question query (testimony_wins scored 2)) rows st"

definition search_rows ::
  "seam \<Rightarrow> string \<Rightarrow> string \<Rightarrow> nat \<Rightarrow> real \<Rightarrow> bool \<Rightarrow> row list \<Rightarrow> law_stats \<Rightarrow> (real \<times> row) list \<times> law_stats"
  where
  "search_rows v question query k min_overlap retired rows st =
     (let scored = match_rows v query min_overlap retired rows in
      if retired then (take k scored, st)
      else (case rule_rows v question query rows scored st of
              (kept, st1) \<Rightarrow>
                (take k kept,
                 shadow (v_shadow v) (v_digest v) (v_slots v) attr_absent (v_table v) query
                   (map snd (take k kept)) rows st1)))"

definition search_memories_ranked_rows ::
  "seam \<Rightarrow> string \<Rightarrow> nat \<Rightarrow> real \<Rightarrow> bool \<Rightarrow> mem \<Rightarrow> law_stats \<Rightarrow> (real \<times> row) list \<times> law_stats" where
  "search_memories_ranked_rows v query k min_overlap retired s st =
     search_rows v (m_question s) query k min_overlap retired (load_rows s) st"

definition search_memories_ranked ::
  "seam \<Rightarrow> string \<Rightarrow> nat \<Rightarrow> real \<Rightarrow> bool \<Rightarrow> mem \<Rightarrow> law_stats \<Rightarrow> (real \<times> string) list \<times> law_stats" where
  "search_memories_ranked v query k min_overlap retired s st =
     (case search_memories_ranked_rows v query k min_overlap retired s st of
        (hits, st') \<Rightarrow> (map (\<lambda>(x, e). (x, row_text e)) hits, st'))"

definition search_memories :: "seam \<Rightarrow> string \<Rightarrow> mem \<Rightarrow> law_stats \<Rightarrow> (nat \<times> string \<times> real) list \<times> law_stats" where
  "search_memories v query s st =
     (case search_memories_ranked v query 5 (25 / 100) False s st of
        (hits, st') \<Rightarrow> (map (\<lambda>(i, x, t). (i + 1, t, x)) (enumerate 0 hits), st'))"

section \<open>recall\<close>

text \<open>The dictionary by name keeps the last row of each name.\<close>

definition bump_last :: "string option \<Rightarrow> row list \<Rightarrow> row list" where
  "bump_last nm rows = rev (update_first (\<lambda>r. r_name r = nm) note_recalled (rev rows))"

definition numbered :: "string list \<Rightarrow> string" where
  "numbered ts = join nl (map (\<lambda>(i, t). dec_nat (i + 1) @ ''. '' @ t) (enumerate 0 ts))"

definition recall :: "seam \<Rightarrow> string \<Rightarrow> mem \<Rightarrow> law_stats \<Rightarrow> string \<times> mem \<times> law_stats" where
  "recall v query s st =
     (case search_memories_ranked_rows v query 5 (25 / 100) False s st of
        (hits, st') \<Rightarrow>
          if hits = [] then (''(nothing in memory about '' @ [CHR 0x27] @ query @ [CHR 0x27] @ '')'', s, st')
          else (numbered (map (\<lambda>(x, e). render e) hits),
                save_all (fold bump_last (map (\<lambda>(x, e). r_name e) hits) (load_rows s)) s, st'))"

section \<open>Every stage only drops\<close>

interpretation testimony: silence_stage "\<lambda>xs. testimony_wins xs n" for n
  by unfold_locales (auto simp: testimony_wins_filter)

lemma snd_adjust [simp]: "snd (adjust now q p) = snd p"
  by (simp add: adjust_def Let_def)

lemma narrow_sub: "set (narrow t hits) \<subseteq> set hits" "length (narrow t hits) \<le> length hits"
  by (auto simp: narrow_def Let_def split: option.splits)

lemma rows_target_and_rank:
  "set (map snd (target_and_rank now qs q hits)) = snd ` set (narrow (query_target qs q) hits)"
  by (simp add: target_and_rank_def image_image)

interpretation ranking: silence_stage "target_and_rank now qs q" for now qs q
proof unfold_locales
  fix xs :: "(real \<times> row) list"
  show "set (map snd (target_and_rank now qs q xs)) \<subseteq> set (map snd xs)"
    unfolding rows_target_and_rank using narrow_sub(1) [of "query_target qs q" xs] by auto
  show "length (target_and_rank now qs q xs) \<le> length xs"
    by (simp add: target_and_rank_def narrow_sub)
qed

interpretation law: silence_stage "\<lambda>xs. fst (enforce armed d sc ab tbl q xs rows st)" for armed d sc ab tbl q rows st
  by unfold_locales (auto simp: enforce_filter)

lemma rule_rows_sub:
  "set (map snd (fst (rule_rows v qs q rows scored st))) \<subseteq> set (map snd (testimony_wins scored 2))"
  unfolding rule_rows_def using law.only_drops ranking.only_drops by (rule subset_trans)

lemma set_take_snd: "set (map snd (take k xs)) \<subseteq> set (map snd xs)"
  by (auto dest: in_set_takeD)

lemma fst_search_rows:
  "fst (search_rows v qs q k m ret rows st) =
     take k (if ret then match_rows v q m ret rows else fst (rule_rows v qs q rows (match_rows v q m ret rows) st))"
  by (simp add: search_rows_def Let_def case_prod_unfold)

lemma search_rows_sub:
  "set (map snd (fst (search_rows v qs q k m False rows st)))
     \<subseteq> set (map snd (testimony_wins (match_rows v q m False rows) 2))"
  unfolding fst_search_rows if_False by (rule subset_trans [OF set_take_snd rule_rows_sub])

lemma match_rows_mem:
  "e \<in> set (map snd (match_rows v q m ret rows)) \<longleftrightarrow> e \<in> set rows \<and> (ret \<or> live e) \<and> admits v q m e"
  by (auto simp: match_rows_def image_iff)

lemma search_rows_mem:
  assumes "e \<in> set (map snd (fst (search_rows v qs q k m False rows st)))"
  shows "e \<in> set rows \<and> live e \<and> admits v q m e"
proof -
  have "e \<in> set (map snd (match_rows v q m False rows))"
    using assms search_rows_sub testimony.only_drops by blast
  then show ?thesis unfolding match_rows_mem by simp
qed

lemma search_rows_length: "length (fst (search_rows v qs q k m ret rows st)) \<le> k"
  by (simp add: fst_search_rows)

lemma search_rows_sorted:
  "sorted_wrt (\<lambda>p p'. fst p' \<le> fst p) (fst (search_rows v qs q k m ret rows st))"
proof -
  have "sorted_wrt (\<lambda>p p'. fst p' \<le> fst p) (fst (rule_rows v qs q rows sc st))" for sc
    unfolding rule_rows_def target_and_rank_def enforce_filter
    by (simp add: sorted_rank_desc sorted_wrt_filter)
  moreover have "sorted_wrt (\<lambda>p p'. fst p' \<le> fst p) (match_rows v q m ret rows)"
    unfolding match_rows_def by (rule sorted_rank_desc)
  ultimately show ?thesis by (cases ret) (simp_all add: fst_search_rows sorted_wrt_take)
qed

lemma search_rows_silences:
  assumes "e \<in> set (map snd (fst (search_rows v qs q k m False rows st)))" and "\<not> ground e"
    and "g \<in> set (map snd (match_rows v q m False rows))" and "ground g"
    and "get_str (r_speaker g) ''user'' = get_str (r_speaker e) ''user''"
  shows "card (topics e \<inter> topics g) < 2"
proof -
  let ?sc = "match_rows v q m False rows"
  obtain x where "(x, e) \<in> set (testimony_wins ?sc 2)"
    using assms(1) search_rows_sub [of v qs q k m rows st] by fastforce
  moreover obtain y where "(y, g) \<in> set ?sc" using assms(3) by auto
  then have "(y, g) \<in> set (testimony_wins ?sc 2)"
    using assms(4) by (simp add: testimony_wins_filter)
  ultimately show ?thesis using assms(2,4,5) by (intro testimony_wins_silences) auto
qed

text \<open>Once a matching row of the person asked about is admitted, nobody else's row is.\<close>

lemma narrow_owned:
  assumes "t = Some who" and "(x, g) \<in> set hits" and "spk g = who" and "p \<in> set (narrow t hits)"
  shows "spk (snd p) = who"
proof -
  have "filter (\<lambda>(s, e). spk e = who) hits \<noteq> []"
    using assms(2,3) by (auto simp: filter_empty_conv)
  with assms(1,4) show ?thesis by (auto simp: narrow_def Let_def)
qed

lemma search_rows_owned:
  assumes "query_target qs q = Some who"
    and "g \<in> set (map snd (testimony_wins (match_rows v q m False rows) 2))" and "spk g = who"
    and "e \<in> set (map snd (fst (search_rows v qs q k m False rows st)))"
  shows "spk e = who"
proof -
  let ?tw = "testimony_wins (match_rows v q m False rows) 2"
  have "e \<in> set (map snd (fst (rule_rows v qs q rows (match_rows v q m False rows) st)))"
    using assms(4) unfolding fst_search_rows if_False by (rule set_take_snd [THEN subsetD])
  then have "e \<in> set (map snd (target_and_rank (v_now v) qs q ?tw))"
    unfolding rule_rows_def by (rule law.only_drops [THEN subsetD])
  then obtain p where "p \<in> set (narrow (query_target qs q) ?tw)" "e = snd p"
    unfolding rows_target_and_rank by auto
  moreover obtain x where "(x, g) \<in> set ?tw" using assms(2) by auto
  ultimately show ?thesis using narrow_owned [OF assms(1) _ assms(3)] by blast
qed

section \<open>The rows the seam admits\<close>

text \<open>The admission rules as sets of rows: the match and the testimony rule, the scope, the law.\<close>

definition matched :: "seam \<Rightarrow> string \<Rightarrow> real \<Rightarrow> row list \<Rightarrow> row set" where
  "matched v q m rows = {e \<in> set rows. live e \<and> (m \<le> lex_score q e \<or> sem_tau v \<le> cos_of v e)}"

definition heard :: "row set \<Rightarrow> row set" where
  "heard M = {e \<in> M. ground e \<or> \<not> (\<exists>g \<in> M. ground g
     \<and> get_str (r_speaker g) ''user'' = get_str (r_speaker e) ''user'' \<and> 2 \<le> card (topics e \<inter> topics g))}"

definition scoped :: "string option \<Rightarrow> row set \<Rightarrow> row set" where
  "scoped target S =
     (case target of None \<Rightarrow> S
      | Some who \<Rightarrow> if \<exists>e \<in> S. spk e = who then {e \<in> S. spk e = who} else S)"

definition lawful :: "seam \<Rightarrow> string \<Rightarrow> row list \<Rightarrow> row set \<Rightarrow> row set" where
  "lawful v q rows S =
     (if \<not> v_enforce v \<or> v_table v = [] then S
      else {e \<in> S. case ruling (v_digest v) (v_slots v) attr_absent (v_table v) e q rows of
                     None \<Rightarrow> True | Some r \<Rightarrow> ru_seam r})"

lemma set_snd_filter: "snd ` {p \<in> A. P (snd p)} = {e \<in> snd ` A. P e}"
  by auto

lemma matched_rows: "snd ` set (match_rows v q m False rows) = matched v q m rows"
  by (auto simp: match_rows_def matched_def admits_def image_iff)

lemma heard_rows: "snd ` set (testimony_wins scored 2) = heard (snd ` set scored)"
proof -
  have tw: "set (testimony_wins scored 2) =
     {p \<in> set scored. ground (snd p) \<or> \<not> covered 2 (filter ground (map snd scored)) (snd p)}"
    by (auto simp: testimony_wins_filter)
  have "snd ` set (testimony_wins scored 2) =
     {e \<in> snd ` set scored. ground e \<or> \<not> covered 2 (filter ground (map snd scored)) e}"
    unfolding tw by (rule set_snd_filter)
  moreover have "covered 2 (filter ground (map snd scored)) e \<longleftrightarrow> (\<exists>g \<in> snd ` set scored. ground g
     \<and> get_str (r_speaker g) ''user'' = get_str (r_speaker e) ''user'' \<and> 2 \<le> card (topics e \<inter> topics g))" for e
    by (auto simp: covered_def)
  ultimately show ?thesis unfolding heard_def by simp
qed

lemma scoped_rows: "snd ` set (narrow t hits) = scoped t (snd ` set hits)"
proof (cases t)
  case (Some who)
  have f: "set (filter (\<lambda>(s, e). spk e = who) hits) = {p \<in> set hits. spk (snd p) = who}" by auto
  have "filter (\<lambda>(s, e). spk e = who) hits = [] \<longleftrightarrow> \<not> (\<exists>e \<in> snd ` set hits. spk e = who)"
    by (auto simp: filter_empty_conv)
  then show ?thesis
    unfolding Some narrow_def scoped_def option.case Let_def
    by (simp only: f set_snd_filter if_distrib [of "\<lambda>x. snd ` set x"]) auto
qed (simp add: narrow_def scoped_def)

lemma lawful_rows:
  "snd ` set (fst (enforce (v_enforce v) (v_digest v) (v_slots v) attr_absent (v_table v) q scored rows st))
     = lawful v q rows (snd ` set scored)"
proof -
  let ?ok = "\<lambda>e. case ruling (v_digest v) (v_slots v) attr_absent (v_table v) e q rows of
     None \<Rightarrow> True | Some r \<Rightarrow> ru_seam r"
  have "set (filter (\<lambda>(s, e). ?ok e) scored) = {p \<in> set scored. ?ok (snd p)}" by auto
  then show ?thesis unfolding enforce_filter lawful_def by (simp only: set_snd_filter split: if_split) auto
qed

lemma rule_rows_exact:
  "snd ` set (fst (rule_rows v qs q rows (match_rows v q m False rows) st)) =
     lawful v q rows (scoped (query_target qs q) (heard (matched v q m rows)))"
  unfolding rule_rows_def lawful_rows
  using rows_target_and_rank [of "v_now v" qs q "testimony_wins (match_rows v q m False rows) 2"]
  by (simp add: scoped_rows heard_rows matched_rows)

lemma seam_sub:
  "snd ` set (fst (search_rows v qs q k m False rows st)) \<subseteq>
     lawful v q rows (scoped (query_target qs q) (heard (matched v q m rows)))"
proof -
  have "snd ` set (fst (search_rows v qs q k m False rows st))
      \<subseteq> snd ` set (fst (rule_rows v qs q rows (match_rows v q m False rows) st))"
    unfolding fst_search_rows if_False by (intro image_mono set_take_subset)
  then show ?thesis by (simp only: rule_rows_exact)
qed

lemma seam_exact:
  assumes "length rows \<le> k"
  shows "snd ` set (fst (search_rows v qs q k m False rows st)) =
     lawful v q rows (scoped (query_target qs q) (heard (matched v q m rows)))"
proof -
  let ?r = "fst (rule_rows v qs q rows (match_rows v q m False rows) st)"
  have "length ?r \<le> length (testimony_wins (match_rows v q m False rows) 2)"
    unfolding rule_rows_def using law.no_longer ranking.no_longer by (rule le_trans)
  also have "\<dots> \<le> length (match_rows v q m False rows)" by (rule testimony.no_longer)
  also have "\<dots> \<le> length rows" by (simp add: match_rows_def)
  finally have "fst (search_rows v qs q k m False rows st) = ?r"
    using assms by (simp add: fst_search_rows)
  then show ?thesis by (simp add: rule_rows_exact)
qed

section \<open>A lookup is not evidence\<close>

text \<open>\<open>quiet\<close> forgets the lookup counter, the only field \<open>recall\<close> may change.\<close>

definition quiet :: "row \<Rightarrow> row" where
  "quiet r = r\<lparr>r_recalled := None\<rparr>"

lemma quiet_note [simp]: "quiet (note_recalled r) = quiet r"
  by (simp add: quiet_def note_recalled_def)

lemma map_quiet_bump [simp]: "map quiet (bump_last nm rows) = map quiet rows"
  by (simp add: bump_last_def map_update_first flip: rev_map)

lemma map_quiet_fold [simp]: "map quiet (fold bump_last nms rows) = map quiet rows"
  by (induction nms arbitrary: rows) simp_all

lemma recall_state:
  assumes "m_path s \<noteq> []"
  shows "map quiet (load_rows (fst (snd (recall v q s st)))) = map quiet (load_rows s)"
    and "m_question (fst (snd (recall v q s st))) = m_question s"
    and "m_path (fst (snd (recall v q s st))) = m_path s"
    and "m_author (fst (snd (recall v q s st))) = m_author s"
    and "m_queue (fst (snd (recall v q s st))) = m_queue s"
  using assms by (simp_all add: recall_def load_save save_all_def split: prod.split)
    (simp add: load_rows_def)

lemma quiet_fields [row_simps]:
  "row_text (quiet r) = row_text r" "live (quiet r) = live r" "status_of (quiet r) = status_of r"
  "ground (quiet r) = ground r" "topics (quiet r) = topics r" "spk (quiet r) = spk r"
  "salience (quiet r) n = salience r n" "sigma (quiet r) = sigma r" "render (quiet r) = render r"
  "r_name (quiet r) = r_name r" "r_text (quiet r) = r_text r" "r_speaker (quiet r) = r_speaker r"
  "r_class (quiet r) = r_class r" "r_ts (quiet r) = r_ts r"
  by (simp_all add: quiet_def row_text_def live_def status_of_def ground_def topics_def spk_def
      salience_def sigma_def render_def)

text \<open>Every stage of the seam commutes with \<open>quiet\<close>, so no lookup changes a later answer.\<close>

lemma testimony_wins_quiet:
  "testimony_wins (map (apsnd quiet) xs) n = map (apsnd quiet) (testimony_wins xs n)"
proof -
  have g: "filter ground (map snd (map (apsnd quiet) xs)) = map quiet (filter ground (map snd xs))"
    by (induction xs) (auto simp: row_simps)
  have c: "covered n (map quiet gs) (quiet e) = covered n gs e" for gs e
    by (simp add: covered_def row_simps)
  have c2: "covered n gs (quiet e) = covered n gs e" for gs e
    by (simp add: covered_def row_simps)
  have c3: "covered n (map quiet gs) e = covered n gs e" for gs e
    by (simp add: covered_def row_simps)
  show ?thesis
    unfolding testimony_wins_filter g c3
    by (rule filter_apsnd) (simp add: row_simps c2)
qed

lemma match_rows_quiet:
  "match_rows v q m ret (map quiet rows) = map (apsnd quiet) (match_rows v q m ret rows)"
proof -
  have l: "lex_score q (quiet e) = lex_score q e" for e by (simp add: lex_score_def row_simps)
  have c: "cos_of v (quiet e) = cos_of v e" for e
    by (simp add: cos_of_def row_simps split: option.split)
  have "map (\<lambda>e. (max (lex_score q e) (cos_of v e), e)) (filter (\<lambda>e. (ret \<or> live e) \<and> admits v q m e) (map quiet rows))
     = map (apsnd quiet) (map (\<lambda>e. (max (lex_score q e) (cos_of v e), e)) (filter (\<lambda>e. (ret \<or> live e) \<and> admits v q m e) rows))"
    by (simp add: filter_map comp_def admits_def l c row_simps)
  then show ?thesis unfolding match_rows_def by (simp add: rank_desc_apsnd del: map_map)
qed

lemma narrow_quiet: "narrow t (map (apsnd quiet) xs) = map (apsnd quiet) (narrow t xs)"
proof -
  have "filter (\<lambda>(s, e). spk e = who) (map (apsnd quiet) xs) = map (apsnd quiet) (filter (\<lambda>(s, e). spk e = who) xs)" for who
    by (rule filter_apsnd) (simp add: row_simps)
  then show ?thesis by (simp add: narrow_def split: option.split)
qed

lemma target_and_rank_quiet:
  "target_and_rank now qs q (map (apsnd quiet) xs) = map (apsnd quiet) (target_and_rank now qs q xs)"
proof -
  have "adjust now q (apsnd quiet p) = apsnd quiet (adjust now q p)" for p
    by (cases p) (simp add: adjust_def row_simps Let_def)
  then have "map (adjust now q) (map (apsnd quiet) ys) = map (apsnd quiet) (map (adjust now q) ys)" for ys
    by simp
  then show ?thesis unfolding target_and_rank_def by (simp add: narrow_quiet rank_desc_apsnd del: map_map)
qed

lemma ruling_quiet:
  "ruling d sc ab tbl (quiet e) q (map quiet rows) = ruling d sc ab tbl e q rows"
proof -
  have "competes d sc (quiet r) (quiet g) = competes d sc r g" for r g
    by (simp add: competes_def row_simps)
  then have "competition d sc (quiet e) (map quiet rows) = competition d sc e rows"
    by (simp add: competition_def row_simps)
  then show ?thesis by (simp add: ruling_def cell_def attr_def row_simps)
qed

lemma enforce_loop_quiet:
  assumes "\<And>e. rule' (quiet e) = rule e"
  shows "enforce_loop rule' (map (apsnd quiet) xs) st = apfst (map (apsnd quiet)) (enforce_loop rule xs st)"
proof (induction xs arbitrary: st)
  case (Cons p xs)
  then show ?case by (cases p) (simp add: assms case_prod_unfold Let_def split: option.split)
qed simp

lemma enforce_quiet:
  "enforce arm d sc ab tbl q (map (apsnd quiet) xs) (map quiet rows) st
     = apfst (map (apsnd quiet)) (enforce arm d sc ab tbl q xs rows st)"
  by (simp add: enforce_def enforce_loop_quiet ruling_quiet)

lemma shadow_loop_quiet:
  "(\<And>e. rule' (quiet e) = rule e) \<Longrightarrow> shadow_loop rule' (map quiet xs) st = shadow_loop rule xs st"
  by (induction xs arbitrary: st) (simp_all add: Let_def split: option.split)

lemma shadow_quiet:
  "shadow arm d sc ab tbl q (map quiet xs) (map quiet rows) st = shadow arm d sc ab tbl q xs rows st"
  by (simp add: shadow_def shadow_loop_quiet ruling_quiet)

lemma search_rows_quiet:
  "search_rows v qs q k m ret (map quiet rows) st = apfst (map (apsnd quiet)) (search_rows v qs q k m ret rows st)"
proof -
  have sn: "map snd (map (apsnd quiet) xs) = map quiet (map snd xs)" for xs :: "(real \<times> row) list"
    by simp
  show ?thesis
    by (simp add: search_rows_def rule_rows_def Let_def case_prod_unfold match_rows_quiet testimony_wins_quiet
        target_and_rank_quiet enforce_quiet sn shadow_quiet take_map del: map_map)
qed

lemma search_rows_cong:
  assumes "map quiet rows = map quiet rows'"
  shows "map (apsnd quiet) (fst (search_rows v qs q k m ret rows st)) = map (apsnd quiet) (fst (search_rows v qs q k m ret rows' st))"
    and "snd (search_rows v qs q k m ret rows st) = snd (search_rows v qs q k m ret rows' st)"
  using search_rows_quiet [of v qs q k m ret rows st] search_rows_quiet [of v qs q k m ret rows' st] assms
  by (metis fst_apfst, metis snd_apfst)

lemma recall_fst_render:
  "fst (recall v q s st) =
     (let hits = map (apsnd quiet) (fst (search_memories_ranked_rows v q 5 (25/100) False s st)) in
      if hits = [] then ''(nothing in memory about '' @ [CHR 0x27] @ q @ [CHR 0x27] @ '')''
      else numbered (map (\<lambda>(x, e). render e) hits))"
  by (simp add: recall_def case_prod_unfold Let_def comp_def row_simps)

lemma recall_stable:
  assumes "m_path s \<noteq> []"
  shows "fst (recall v q (fst (snd (recall v p s st'))) st) = fst (recall v q s st)"
  unfolding recall_fst_render search_memories_ranked_rows_def
  by (simp only: recall_state [OF assms] search_rows_cong [OF recall_state(1) [OF assms]])


end
