(* ===== verification/Store.thy ===== *)
theory Store imports Recall begin

text \<open>
  The registry as a state machine: every tool of \<open>harness/skills/memory.py\<close> that touches it is an
  operation, a session is a sequence of operations, and the contract \<open>tombstone_store\<close> is discharged
  for it. Then the laws of a single write: what it retires, whose testimony it may touch, what
  counts as evidence, and what the hygiene tools keep.
\<close>

section \<open>The registry operations\<close>

datatype mem_op =
    Remember env string string
  | RememberSelf env string
  | Forget env string
  | MintTurn env
  | Author string
  | Question string
  | Lookup seam string law_stats

fun mem_step :: "mem_op \<Rightarrow> mem \<Rightarrow> mem" where
  "mem_step (Remember ev raw src) s = snd (remember ev raw src s)"
| "mem_step (RememberSelf ev raw) s = snd (remember_about_self ev raw s)"
| "mem_step (Forget ev q) s = snd (forget ev q s)"
| "mem_step (MintTurn ev) s = mint_step ev s"
| "mem_step (Author who) s = set_author who s"
| "mem_step (Question t) s = set_question t s"
| "mem_step (Lookup v q st) s = fst (snd (recall v q s st))"

lemma load_rows_other [row_simps]:
  "load_rows (set_author who s) = load_rows s" "load_rows (set_question t s) = load_rows s"
  "load_rows (s\<lparr>m_queue := qs\<rparr>) = load_rows s"
  by (simp_all add: load_rows_def set_author_def set_question_def)

lemma remember_about_self_rows:
  "load_rows (snd (remember_about_self ev raw s)) = load_rows (snd (remember ev raw ''self'' (set_author ''self'' s)))"
  by (simp add: remember_about_self_def case_prod_unfold Let_def row_simps)

lemma row_ident_quiet: "quiet a = quiet b \<Longrightarrow> row_ident a = row_ident b \<and> dead a = dead b"
  unfolding row_ident_def dead_def
  by (metis quiet_fields(2,3,10,11,12) row.select_convs(4) row.surjective row.update_convs(20)
      quiet_def row.ext_inject)

lemma best_live_SomeD:
  assumes "best_live q rows = (b, Some (i, e))"
  shows "i < length rows \<and> e = rows ! i \<and> live e"
  using best_from_mem [of "\<lambda>(i, e). overlap q (row_text e)" "(-1, None)" "filter (\<lambda>(i, e). live e) (enumerate 0 rows)"
      b "(i, e)"] assms
  by (auto simp: best_live_def in_set_enumerate_eq)

lemma forget_cases:
  obtains "snd (forget ev q s) = s"
  | i where "m_path s \<noteq> []" "i < length (load_rows s)" "live (load_rows s ! i)"
      "load_rows (snd (forget ev q s)) = (load_rows s)[i := (load_rows s ! i)\<lparr>r_lifecycle := 1,
         r_superseded_by := ''forget'', r_forgotten_at := stamp_of (e_now ev)\<rparr>]"
proof (cases "load_rows s = []")
  case True
  then show thesis by (intro that(1)) (simp add: forget_def)
next
  case False
  then have p: "m_path s \<noteq> []" by (auto simp: load_rows_def)
  obtain b h where bh: "best_live q (load_rows s) = (b, h)" by fastforce
  show thesis
  proof (cases "h = None \<or> b < 3 / 10")
    case True
    with bh False show thesis
      by (intro that(1)) (auto simp: forget_def Let_def split: option.split)
  next
    case nb: False
    then obtain i e where h: "h = Some (i, e)" by auto
    note m = best_live_SomeD [OF bh [unfolded h]]
    from nb h bh False p m show thesis
      by (intro that(2) [of i]) (auto simp: forget_def Let_def load_save)
  qed
qed

lemma mint_step_cases:
  obtains "load_rows (mint_step ev s) = load_rows s"
  | P n t where "load_rows (mint_step ev s) = update_first P (\<lambda>r. r\<lparr>r_npos := n, r_minted_at := t\<rparr>) (load_rows s)"
proof (cases "m_path s = []")
  case True
  then show thesis
    by (intro that(1)) (simp add: mint_step_def load_rows_def Let_def case_prod_unfold save_all_def split: list.split)
next
  case False
  then have p: "m_path (s\<lparr>m_queue := qs\<rparr>) \<noteq> []" for qs by simp
  show thesis
  proof (cases "m_queue s")
    case Nil
    then show thesis by (intro that(1)) (simp add: mint_step_def)
  next
    case (Cons fd rest)
    obtain f d where fd: "fd = (f, d)" by fastforce
    obtain n ok where c: "e_capture ev f d = (n, ok)" by fastforce
    show thesis
      using that(1) that(2) [where P = "\<lambda>r. r_dir r = d" and n = n and t = "stamp_of (e_now ev)"]
      by (cases "ok \<and> (\<exists>r \<in> set (load_rows s). r_dir r = d)")
        (auto simp: mint_step_def Cons fd c Let_def load_save [OF p] load_rows_other)
  qed
qed

section \<open>Nothing is destroyed, nothing comes back\<close>

lemma list_update_ident:
  assumes "i < length rows" "row_ident r = row_ident (rows ! i)"
  shows "map row_ident (rows[i := r]) = map row_ident rows"
  using assms by (metis list_update_id map_update nth_map)

lemma mem_step_keeps:
  "\<exists>more. map row_ident (load_rows (mem_step a s)) = map row_ident (load_rows s) @ more"
proof (cases a)
  case (Remember ev raw src)
  then show ?thesis using remember_keeps by simp
next
  case (RememberSelf ev raw)
  then show ?thesis
    using remember_keeps [of ev raw "''self''" "set_author ''self'' s"]
    by (simp add: remember_about_self_rows row_simps)
next
  case (Forget ev q)
  show ?thesis
  proof (cases rule: forget_cases [of ev q s])
    case 1
    then show ?thesis by (simp add: Forget)
  next
    case (2 i)
    then show ?thesis by (simp add: Forget list_update_ident row_simps)
  qed
next
  case (MintTurn ev)
  show ?thesis
    by (cases rule: mint_step_cases [of ev s]) (simp_all add: MintTurn map_update_first row_simps)
next
  case (Lookup v q st)
  have "map row_ident (load_rows (mem_step a s)) = map row_ident (load_rows s)"
  proof (cases "m_path s = []")
    case True
    then have "load_rows s = []" by (simp add: load_rows_def)
    then show ?thesis
      by (simp add: Lookup recall_def search_memories_ranked_rows_def case_prod_unfold save_all_def True)
  next
    case False
    have "map quiet (load_rows (mem_step a s)) = map quiet (load_rows s)"
      by (simp add: Lookup recall_state [OF False])
    then show ?thesis
      by (auto simp: list_eq_iff_nth_eq dest: row_ident_quiet) (metis row_ident_quiet)
  qed
  then show ?thesis by simp
qed (simp_all add: row_simps)

lemma lookup_quiet: "map quiet (load_rows (mem_step (Lookup v q st) s)) = map quiet (load_rows s)"
proof (cases "m_path s = []")
  case True
  then have "load_rows s = []" by (simp add: load_rows_def)
  then show ?thesis
    by (simp add: recall_def search_memories_ranked_rows_def case_prod_unfold save_all_def True)
qed (simp add: recall_state)

lemma dead_update: "live r \<or> dead r" "dead (r\<lparr>r_npos := n, r_minted_at := t\<rparr>) = dead r"
  by (simp_all add: dead_def live_def)

lemma mem_step_dead:
  assumes "i < length (load_rows s)" "dead (load_rows s ! i)"
  shows "dead (load_rows (mem_step a s) ! i)"
proof (cases a)
  case (Remember ev raw src)
  then show ?thesis using remember_dead assms by simp
next
  case (RememberSelf ev raw)
  then show ?thesis
    using remember_dead [of i "set_author ''self'' s" ev raw "''self''"] assms
    by (simp add: remember_about_self_rows row_simps)
next
  case (Forget ev q)
  show ?thesis
  proof (cases rule: forget_cases [of ev q s])
    case 1
    then show ?thesis by (simp add: Forget assms)
  next
    case (2 j)
    then show ?thesis using assms by (cases "i = j") (simp_all add: Forget dead_def)
  qed
next
  case (MintTurn ev)
  show ?thesis
  proof (cases rule: mint_step_cases [of ev s])
    case (2 P n t)
    then show ?thesis
      using nth_update_first [OF assms(1), of P "\<lambda>r. r\<lparr>r_npos := n, r_minted_at := t\<rparr>"] assms(2)
      by (auto simp: MintTurn dead_update)
  qed (simp add: MintTurn assms)
next
  case (Lookup v q st)
  have "map quiet (load_rows (mem_step a s)) = map quiet (load_rows s)"
    unfolding Lookup by (rule lookup_quiet)
  then have "length (load_rows (mem_step a s)) = length (load_rows s)"
    and "quiet (load_rows (mem_step a s) ! i) = quiet (load_rows s ! i)"
    using assms(1) by (metis length_map, metis length_map nth_map)
  then show ?thesis using assms(2) row_ident_quiet by blast
qed (simp_all add: row_simps assms)

interpretation registry: tombstone_store mem_step load_rows row_ident dead
  by unfold_locales (rule mem_step_keeps, rule mem_step_dead)

section \<open>What one write retires\<close>

text \<open>The names of the registry are distinct when no two captures share a millisecond.\<close>

definition distinct_names :: "row list \<Rightarrow> bool" where
  "distinct_names rows \<longleftrightarrow> distinct (map r_name rows)"

lemma retire_exact:
  assumes "distinct_names rows"
  shows "retire (map r_name (filter P rows)) b t rows = map (\<lambda>r. if P r then tombstone b t r else r) rows"
proof -
  have "r_name r \<in> set (map r_name (filter P rows)) \<longleftrightarrow> P r" if "r \<in> set rows" for r
    using assms that unfolding distinct_names_def distinct_map inj_on_def by auto
  then show ?thesis unfolding retire_def by (intro map_cong) auto
qed

lemma find_superseded_filter:
  "find_superseded f sp rows st = filter (\<lambda>r. attribute_key f sp \<noteq> None \<and> conflicts f sp st r) rows"
  by (auto simp: find_superseded_def)

text \<open>A commit, once more, with the retired rows named one by one.\<close>

lemma remember_rows:
  assumes "distinct_names (load_rows s)" and "remember ev raw src s = (rep, s')"
  obtains "map row_ident (load_rows s') = map row_ident (load_rows s)"
      "map r_lifecycle (load_rows s') = map r_lifecycle (load_rows s)"
  | b t line where
      "load_rows s' = map (\<lambda>r. if attribute_key (normalize_fact raw) (speaker_of (m_author s)) \<noteq> None
            \<and> conflicts (normalize_fact raw) (speaker_of (m_author s)) (source_status src) r
          then tombstone b t r else r) (load_rows s) @ [line]"
      "r_text line = normalize_fact raw" "r_speaker line = Some (speaker_of (m_author s))" "live line"
      "status_of line = source_status (if src \<noteq> [] then src
          else if speaker_of (m_author s) = ''self'' then ''self'' else ''user turn'')"
      "door ev (m_author s) (normalize_fact raw) = None"
  using assms(2)
proof (cases rule: remember_cases)
  case 1
  then show thesis by (intro that(1)) simp_all
next
  case 2
  from 2(1) 2(3) show thesis
  proof (cases rule: remember_commit_cases)
    case (1 P)
    then show thesis
      by (intro that(1)) (simp_all add: row_simps reinforce_first_def map_update_first)
  next
    case (2 line)
    note line = this
    show thesis
      using line \<open>door ev (m_author s) (normalize_fact raw) = None\<close>
      by (intro that(2)) (auto simp: find_superseded_filter retire_exact [OF assms(1)] live_def)
  qed
qed

text \<open>An inferred write leaves every live row of testimony live.\<close>

lemma inferred_write_spares:
  assumes "distinct_names (load_rows s)" and "source_status src = STATUS_INFERRED"
    and "remember ev raw src s = (rep, s')"
    and "i < length (load_rows s)" "live (load_rows s ! i)" "ground (load_rows s ! i)"
  shows "live (load_rows s' ! i) \<and> row_ident (load_rows s' ! i) = row_ident (load_rows s ! i)"
  using assms(1,3)
proof (cases rule: remember_rows)
  case 1
  then have "length (load_rows s') = length (load_rows s)" by (metis length_map)
  with 1 assms(4,5) show ?thesis by (metis live_def nth_map)
next
  case (2 b t line)
  have "\<not> conflicts (normalize_fact raw) (speaker_of (m_author s)) (source_status src) (load_rows s ! i)"
    using assms(2,6) by (simp add: conflicts_def may_supersede_def ground_def)
  with 2 assms(4,5) show ?thesis by (simp add: nth_append)
qed

lemma evidence_ident:
  "row_ident a = row_ident b \<Longrightarrow> r_lifecycle a = r_lifecycle b \<Longrightarrow> is_evidence a = is_evidence b"
  by (simp add: row_ident_def is_evidence_iff live_def spk_def ground_def)

definition evidence :: "mem \<Rightarrow> (string option \<times> string \<times> string \<times> string option \<times> string) list" where
  "evidence s = map row_ident (filter is_evidence (load_rows s))"

lemma evidence_cong:
  "map row_ident rs = map row_ident rs' \<Longrightarrow> map r_lifecycle rs = map r_lifecycle rs' \<Longrightarrow>
   map row_ident (filter is_evidence rs) = map row_ident (filter is_evidence rs')"
proof (induction rs arbitrary: rs')
  case (Cons r rs)
  then obtain r' rs'' where rs': "rs' = r' # rs''" by (cases rs') auto
  with Cons.prems have "is_evidence r = is_evidence r'" by (intro evidence_ident) simp_all
  with Cons.prems Cons.IH [of rs''] show ?case by (simp add: rs')
qed simp

lemma filter_retired:
  "(\<And>r. \<not> P (g r)) \<Longrightarrow> (\<And>r. C r \<Longrightarrow> \<not> P r) \<Longrightarrow>
   filter P (map (\<lambda>r. if C r then g r else r) rows) = filter P rows"
  by (induction rows) auto

lemma inferred_write_evidence:
  assumes "distinct_names (load_rows s)" and "src \<noteq> []" and "source_status src = STATUS_INFERRED"
    and "remember ev raw src s = (rep, s')"
  shows "evidence s' = evidence s"
  using assms(1,4)
proof (cases rule: remember_rows)
  case 1
  then show ?thesis unfolding evidence_def by (rule evidence_cong)
next
  case (2 b t line)
  define C where "C r \<longleftrightarrow> attribute_key (normalize_fact raw) (speaker_of (m_author s)) \<noteq> None
    \<and> conflicts (normalize_fact raw) (speaker_of (m_author s)) (source_status src) r" for r
  have c: "C r \<Longrightarrow> \<not> ground r" for r
    using assms(3) by (simp add: C_def conflicts_def may_supersede_def ground_def)
  have rows': "load_rows s' = map (\<lambda>r. if C r then tombstone b t r else r) (load_rows s) @ [line]"
    by (simp add: 2(1) C_def)
  have "\<not> ground line" using 2(5) assms(2,3) by (simp add: ground_def law_simps)
  then have "\<not> is_evidence line" by (simp add: is_evidence_iff)
  moreover have "\<not> is_evidence (tombstone b t r)" for r
    by (simp add: is_evidence_iff tombstone_def live_def)
  moreover have "C r \<Longrightarrow> \<not> is_evidence r" for r using c by (simp add: is_evidence_iff)
  ultimately have "filter is_evidence (load_rows s') = filter is_evidence (load_rows s)"
    unfolding rows' by (simp add: filter_retired)
  then show ?thesis by (simp add: evidence_def)
qed

lemma new_row_fields [row_simps]:
  "r_text (new_row ev p f sp n src rs) = f" "r_speaker (new_row ev p f sp n src rs) = Some sp"
  "live (new_row ev p f sp n src rs)" "r_class (new_row ev p f sp n src rs) = classify f"
  "r_name (new_row ev p f sp n src rs) = Some (ep_name (e_now ev))"
  "r_ts (new_row ev p f sp n src rs) = Some (stamp_of (e_now ev))"
  "r_mentions (new_row ev p f sp n src rs) = Some 1"
  by (simp_all add: new_row_def Let_def stamp_def live_def blank_row_def setdefault_def)

lemma new_row_status:
  "status_of (new_row ev p f sp n src rs) =
     source_status (if src \<noteq> [] then src else if sp = ''self'' then ''self'' else ''user turn'')"
  by (simp add: new_row_def Let_def stamp_def status_of_def source_status_def blank_row_def
      STATUS_INFERRED_def STATUS_OBSERVED_def)

lemma contains_words: "\<not> contains ''self'' ''reflection''" "\<not> contains ''user turn'' ''reflection''"
  by code_simp+

lemma new_row_ground: "\<not> contains src ''reflection'' \<Longrightarrow> ground (new_row ev p f sp n src rs)"
  by (auto simp: ground_def new_row_status source_status_def law_simps contains_words)

text \<open>The branch of a commit that stores.\<close>

lemma commit_stores:
  fixes f src :: string and s :: mem and ev :: env
  assumes "m_path s \<noteq> []" "\<not> (\<exists>e \<in> set (load_rows s). exact_hit f e \<or> near_hit f e)"
  defines "sp \<equiv> speaker_of (m_author s)"
  defines "ret \<equiv> find_superseded f sp (load_rows s) (source_status src)"
  shows "\<exists>npos. load_rows (snd (remember_commit ev f src (load_rows s) s)) =
     retire (map r_name ret) (ep_name (e_now ev)) (stamp_of (e_now ev)) (load_rows s)
       @ [new_row ev (m_path s) f sp npos src ret]"
    and "\<exists>minted. fst (remember_commit ev f src (load_rows s) s) =
       Stored f (case ret of [] \<Rightarrow> None | r # _ \<Rightarrow> Some (strip_prefix (row_text r))) minted"
proof -
  define s1 where "s1 = (if e_async ev
        then s\<lparr>m_queue := m_queue s @ [(f, out_dir (m_path s) (e_now ev))]\<rparr> else s)"
  obtain npos minted where nm:
    "(if e_async ev then (0, False) else e_capture ev f (out_dir (m_path s) (e_now ev))) = (npos, minted)"
    by fastforce
  define line where "line = new_row ev (m_path s) f sp npos src ret"
  have s1: "load_rows s1 = load_rows s" "m_path s1 = m_path s"
    by (simp_all add: s1_def load_rows_def)
  have sp: "infer_speaker f (m_author s) = sp" by (simp add: infer_speaker_def sp_def speaker_of_def)
  have no: "\<not> (\<exists>e \<in> set (load_rows s). exact_hit f e)" "\<not> (\<exists>e \<in> set (load_rows s). near_hit f e)"
    using assms(2) by auto
  have c: "remember_commit ev f src (load_rows s) s =
     (Stored f (case ret of [] \<Rightarrow> None | r # _ \<Rightarrow> Some (strip_prefix (row_text r))) minted,
      append_row line (if ret = [] then s1
        else save_all (retire (map r_name ret) (get_str (r_name line) []) (get_str (r_ts line) []) (load_rows s)) s1))"
    using no
    unfolding remember_commit_def Let_def sp nm ret_def [symmetric] split_conv line_def [symmetric]
      s1_def [symmetric] s1(1)
    by simp
  have "load_rows (snd (remember_commit ev f src (load_rows s) s)) =
     retire (map r_name ret) (ep_name (e_now ev)) (stamp_of (e_now ev)) (load_rows s) @ [line]"
    using assms(1) by (simp add: c row_simps s1 retire_def line_def get_str_def)
  then show "\<exists>npos. load_rows (snd (remember_commit ev f src (load_rows s) s)) =
     retire (map r_name ret) (ep_name (e_now ev)) (stamp_of (e_now ev)) (load_rows s)
       @ [new_row ev (m_path s) f sp npos src ret]"
    unfolding line_def by blast
  show "\<exists>minted. fst (remember_commit ev f src (load_rows s) s) =
       Stored f (case ret of [] \<Rightarrow> None | r # _ \<Rightarrow> Some (strip_prefix (row_text r))) minted"
    by (simp add: c)
qed

lemma stored_rows:
  assumes "m_path s \<noteq> []" "distinct_names (load_rows s)"
    and "door ev (m_author s) (normalize_fact raw) = None"
    and "\<not> (\<exists>e \<in> set (load_rows s). exact_hit (normalize_fact raw) e \<or> near_hit (normalize_fact raw) e)"
  shows "\<exists>npos. load_rows (snd (remember ev raw src s)) =
     map (\<lambda>r. if attribute_key (normalize_fact raw) (speaker_of (m_author s)) \<noteq> None
            \<and> conflicts (normalize_fact raw) (speaker_of (m_author s)) (source_status src) r
          then tombstone (ep_name (e_now ev)) (stamp_of (e_now ev)) r else r) (load_rows s)
     @ [new_row ev (m_path s) (normalize_fact raw) (speaker_of (m_author s)) npos src
          (find_superseded (normalize_fact raw) (speaker_of (m_author s)) (load_rows s) (source_status src))]"
proof -
  have "remember ev raw src s = remember_commit ev (normalize_fact raw) src (load_rows s) s"
    using assms(1,3) by (simp add: remember_def Let_def)
  then show ?thesis
    using commit_stores(1) [OF assms(1,4), where src = src and ev = ev]
    by (simp add: find_superseded_filter retire_exact [OF assms(2)])
qed

end
