(* ===== verification/Presence.thy ===== *)
theory Presence imports Clock "HOL-Library.AList" begin

text \<open>
  The attention ledger of \<open>harness/model/presence.py\<close>: one line for each day he spoke. The file is
  beside the registry; no registry, no ledger. The days between two instants are counted by the loop
  of the source and by a closed form.
\<close>

datatype dline = DLine string int | DJunk

record ledger =
  l_set :: bool
  l_lines :: "dline list option"

type_synonym days = "(string \<times> int) list"

fun days_of :: "dline list \<Rightarrow> days \<Rightarrow> days" where
  "days_of [] acc = acc"
| "days_of (DLine d n # ls) acc = days_of ls (AList.update d n acc)"
| "days_of (DJunk # ls) acc = days_of ls acc"

definition load_days :: "ledger \<Rightarrow> days" where
  "load_days l = (if \<not> l_set l then [] else (case l_lines l of None \<Rightarrow> [] | Some ls \<Rightarrow> days_of ls []))"

definition turns_on :: "days \<Rightarrow> string \<Rightarrow> int" where
  "turns_on ds d = (case map_of ds d of None \<Rightarrow> 0 | Some n \<Rightarrow> n)"

definition save_days :: "days \<Rightarrow> ledger \<Rightarrow> ledger" where
  "save_days ds l =
     (if \<not> l_set l then l else l\<lparr>l_lines := Some (map (\<lambda>d. DLine d (turns_on ds d)) (sort (map fst ds)))\<rparr>)"

definition note_turn :: "real \<Rightarrow> ledger \<Rightarrow> ledger" where
  "note_turn ts l =
     (let ds = load_days l; k = day_of ts in save_days (AList.update k (turns_on ds k + 1) ds) l)"

function count_days :: "days \<Rightarrow> real \<Rightarrow> real \<Rightarrow> nat" where
  "count_days ds t t1 =
     (if t \<le> t1 + 1 then (if 0 < turns_on ds (day_of t) then 1 else 0) + count_days ds (t + 86400) t1 else 0)"
  by pat_completeness auto
termination
proof (relation "measure (\<lambda>(ds, t, t1). nat (\<lfloor>(t1 + 1 - t) / 86400\<rfloor> + 1))")
  fix ds :: days and t t1 :: real
  assume t: "t \<le> t1 + 1"
  have "(t1 + 1 - (t + 86400)) / 86400 = (t1 + 1 - t) / 86400 - 1" by (simp add: field_simps)
  then have f: "\<lfloor>(t1 + 1 - (t + 86400)) / 86400\<rfloor> = \<lfloor>(t1 + 1 - t) / 86400\<rfloor> - 1"
    by (metis floor_diff_one)
  have "0 \<le> \<lfloor>(t1 + 1 - t) / 86400\<rfloor>" using t by simp
  then show "((ds, t + 86400, t1), (ds, t, t1)) \<in> measure (\<lambda>(ds, t, t1). nat (\<lfloor>(t1 + 1 - t) / 86400\<rfloor> + 1))"
    unfolding in_measure prod.case f by linarith
qed simp

declare count_days.simps [simp del]

definition attended_days :: "real \<Rightarrow> real \<Rightarrow> ledger \<Rightarrow> real" where
  "attended_days t0 t1 l =
     (if t1 \<le> t0 then 0 else if load_days l = [] then 0 else of_nat (count_days (load_days l) t0 t1))"

definition present_days_total :: "ledger \<Rightarrow> nat" where
  "present_days_total l = length (filter (\<lambda>p. 0 < snd p) (load_days l))"

section \<open>The ledger reads back\<close>

lemma days_of_lines:
  "distinct ks \<Longrightarrow> (\<forall>k \<in> set ks. k \<notin> fst ` set acc) \<Longrightarrow>
     days_of (map (\<lambda>k. DLine k (f k)) ks) acc = acc @ map (\<lambda>k. (k, f k)) ks"
proof (induction ks arbitrary: acc)
  case (Cons k ks)
  have "AList.update k (f k) acc = acc @ [(k, f k)]" using Cons.prems(2)
  proof (induction acc)
    case (Cons p acc)
    then show ?case by (cases p) auto
  qed simp
  moreover have "days_of (map (\<lambda>k. DLine k (f k)) ks) (acc @ [(k, f k)]) = (acc @ [(k, f k)]) @ map (\<lambda>k. (k, f k)) ks"
    by (rule Cons.IH) (use Cons.prems in auto)
  ultimately show ?case by simp
qed simp

lemma days_of_distinct: "distinct (map fst acc) \<Longrightarrow> distinct (map fst (days_of ls acc))"
  by (induction ls acc rule: days_of.induct) (simp_all add: distinct_update)

lemma load_distinct: "distinct (map fst (load_days l))"
  by (simp add: load_days_def days_of_distinct split: option.split)

lemma ledger_round:
  assumes "l_set l" "distinct (map fst ds)"
  shows "turns_on (load_days (save_days ds l)) d = turns_on ds d"
    and "map fst (load_days (save_days ds l)) = sort (map fst ds)"
proof -
  have e: "load_days (save_days ds l) = map (\<lambda>k. (k, turns_on ds k)) (sort (map fst ds))"
    using assms days_of_lines [of "sort (map fst ds)" "[]" "turns_on ds"]
    by (simp add: load_days_def save_days_def)
  have m: "map_of (map (\<lambda>k. (k, turns_on ds k)) ks) d = (if d \<in> set ks then Some (turns_on ds d) else None)" for ks
    by (induction ks) auto
  have n: "d \<notin> fst ` set ds \<Longrightarrow> turns_on ds d = 0" by (simp add: turns_on_def map_of_eq_None_iff [THEN iffD2])
  show "turns_on (load_days (save_days ds l)) d = turns_on ds d"
    using n by (auto simp: e turns_on_def [of "map _ _"] m)
  show "map fst (load_days (save_days ds l)) = sort (map fst ds)" by (simp add: e comp_def)
qed

text \<open>A turn counts on its own day and on no other, and the file stays sorted, one line a day.\<close>

lemma note_turn_counts:
  assumes "l_set l"
  shows "turns_on (load_days (note_turn ts l)) d = turns_on (load_days l) d + (if d = day_of ts then 1 else 0)"
    and "sorted (map fst (load_days (note_turn ts l)))" "distinct (map fst (load_days (note_turn ts l)))"
proof -
  let ?ds = "AList.update (day_of ts) (turns_on (load_days l) (day_of ts) + 1) (load_days l)"
  have d: "distinct (map fst ?ds)" by (rule distinct_update [OF load_distinct])
  have n: "note_turn ts l = save_days ?ds l" by (simp add: note_turn_def Let_def)
  show "turns_on (load_days (note_turn ts l)) d = turns_on (load_days l) d + (if d = day_of ts then 1 else 0)"
    using ledger_round(1) [OF assms d, of d] by (simp add: n turns_on_def [of ?ds] update_conv') (simp add: turns_on_def)
  show "sorted (map fst (load_days (note_turn ts l)))" using ledger_round(2) [OF assms d] by (simp add: n)
  show "distinct (map fst (load_days (note_turn ts l)))" by (rule load_distinct)
qed

section \<open>The loop in closed form\<close>

definition samples :: "real \<Rightarrow> real \<Rightarrow> nat" where
  "samples t0 t1 = nat (\<lfloor>(t1 + 1 - t0) / 86400\<rfloor> + 1)"

lemma samples_step: "t \<le> t1 + 1 \<Longrightarrow> samples t t1 = Suc (samples (t + 86400) t1)"
proof -
  assume t: "t \<le> t1 + 1"
  have "(t1 + 1 - (t + 86400)) / 86400 = (t1 + 1 - t) / 86400 - 1" by (simp add: field_simps)
  then have f: "\<lfloor>(t1 + 1 - (t + 86400)) / 86400\<rfloor> = \<lfloor>(t1 + 1 - t) / 86400\<rfloor> - 1"
    by (metis floor_diff_one)
  have "0 \<le> \<lfloor>(t1 + 1 - t) / 86400\<rfloor>" using t by simp
  then show ?thesis unfolding samples_def f by linarith
qed

lemma samples_none: "t1 + 1 < t \<Longrightarrow> samples t t1 = 0"
  by (simp add: samples_def floor_less_zero add.commute less_eq_iff_succ_less floor_less_iff)

lemma count_days_closed:
  "count_days ds t t1 = length (filter (\<lambda>k. 0 < turns_on ds (day_of (t + of_nat k * 86400))) [0..<samples t t1])"
proof (induction ds t t1 rule: count_days.induct)
  case (1 ds t t1)
  show ?case
  proof (cases "t \<le> t1 + 1")
    case True
    have u: "[0..<samples t t1] = 0 # map Suc [0..<samples (t + 86400) t1]"
      unfolding samples_step [OF True] by (simp add: upt_conv_Cons map_Suc_upt del: upt_Suc)
    have "length (filter (\<lambda>k. 0 < turns_on ds (day_of (t + of_nat k * 86400))) (map Suc ks)) =
      length (filter (\<lambda>k. 0 < turns_on ds (day_of (t + 86400 + of_nat k * 86400))) ks)" for ks
      by (induction ks) (simp_all add: algebra_simps)
    then show ?thesis using True "1.IH" [OF True] unfolding count_days.simps [of ds t t1] u by simp
  next
    case False
    then show ?thesis by (simp add: count_days.simps [of ds t t1] samples_none)
  qed
qed

lemma attended_range: "0 \<le> attended_days t0 t1 l \<and> attended_days t0 t1 l \<le> of_nat (samples t0 t1)"
  using length_filter_le [of _ "[0..<samples t0 t1]"]
  by (auto simp: attended_days_def count_days_closed)

text \<open>No ledger, no evidence of looking.\<close>

lemma attended_none: "load_days l = [] \<Longrightarrow> attended_days t0 t1 l = 0"
  by (simp add: attended_days_def)

text \<open>The day the interval starts on counts itself: a day with a turn is attended at once.\<close>

lemma attended_first_day:
  assumes "0 < turns_on (load_days l) (day_of t0)" "t0 < t1"
  shows "1 \<le> attended_days t0 t1 l"
proof -
  have "load_days l \<noteq> []" using assms(1) by (auto simp: turns_on_def)
  moreover have "1 \<le> count_days (load_days l) t0 t1"
    using assms by (simp add: count_days.simps [of "load_days l" t0 t1])
  ultimately show ?thesis using assms(2) by (simp add: attended_days_def)
qed

section \<open>Properties\<close>



end
