(* ===== verification/Persona.thy ===== *)
theory Persona imports PyRegex "HOL-Library.AList" begin

text \<open>
  The personality block of persona.md: \<open>harness/personality/persona_file.py\<close> and the tag executor of
  \<open>harness/personality/interceptor.py\<close>. The file is its text or absent, the state a dictionary in
  insertion order.
\<close>

definition STATE_SECTION :: string where
  "STATE_SECTION = ''## Personality state''"

definition KNOWN :: "string list" where
  "KNOWN = [''voice'', ''mood'', ''traits'']"

type_synonym pstate = "(string \<times> string) list"

definition is_break :: "char \<Rightarrow> bool" where
  "is_break c \<longleftrightarrow> code c \<in> {10, 11, 12, 13, 28, 29, 30}"

text \<open>\<open>str.splitlines\<close>: a carriage return takes the line feed after it; no last empty line.\<close>

fun line_of :: "string \<Rightarrow> string \<times> string" where
  "line_of [] = ([], [])"
| "line_of (c # s) =
     (if code c = 13 \<and> startswith s nl then ([], drop 1 s)
      else if is_break c then ([], s)
      else (case line_of s of (l, r) \<Rightarrow> (c # l, r)))"

lemma line_of_shorter: "snd (line_of (c # s)) = r \<Longrightarrow> length r \<le> length s"
proof (induction s arbitrary: c r)
  case (Cons d s)
  show ?case using Cons.prems Cons.IH [of d "snd (line_of (d # s))"]
    by (auto split: if_splits prod.splits)
qed (auto split: if_splits prod.splits)

function splitlines :: "string \<Rightarrow> string list" where
  "splitlines [] = []"
| "splitlines (c # s) = fst (line_of (c # s)) # splitlines (snd (line_of (c # s)))"
  by pat_completeness auto
termination by (relation "measure length") (simp_all add: line_of_shorter less_Suc_eq_le del: line_of.simps)

definition is_header :: "string \<Rightarrow> bool" where
  "is_header l \<longleftrightarrow> lower (strip l) = lower STATE_SECTION"

definition is_heading :: "string \<Rightarrow> bool" where
  "is_heading l \<longleftrightarrow> startswith (lstrip l) ''## ''"

definition entry_of :: "string \<Rightarrow> (string \<times> string) option" where
  "entry_of line =
     (let ln = strip (dropWhile (\<lambda>c. c = CHR ''-'') (strip line)) in
      if CHR '':'' \<in> set ln
      then (let k = lower (strip (takeWhile (\<lambda>c. c \<noteq> CHR '':'') ln));
                v = strip (drop 1 (dropWhile (\<lambda>c. c \<noteq> CHR '':'') ln)) in
            if k \<noteq> [] \<and> v \<noteq> [] then Some (k, v) else None)
      else None)"

text \<open>The two nested loops: the flag says that the scan is inside a state block.\<close>

fun parse_lines :: "bool \<Rightarrow> string list \<Rightarrow> string list \<times> (string \<times> string) list" where
  "parse_lines inside [] = ([], [])"
| "parse_lines inside (l # ls) =
     (if inside \<and> \<not> is_heading l
      then (case parse_lines True ls of (prose, es) \<Rightarrow>
              (prose, case entry_of l of None \<Rightarrow> es | Some e \<Rightarrow> e # es))
      else if is_header l then parse_lines True ls
      else (case parse_lines False ls of (prose, es) \<Rightarrow> (l # prose, es)))"

definition parse_persona :: "string \<Rightarrow> string \<times> pstate" where
  "parse_persona txt =
     (case parse_lines False (splitlines txt) of
        (prose, es) \<Rightarrow> (strip (join nl prose), fold (\<lambda>(k, v). AList.update k v) es []))"

definition get_of :: "string \<Rightarrow> pstate \<Rightarrow> string" where
  "get_of k st = (case map_of st k of None \<Rightarrow> [] | Some v \<Rightarrow> v)"

definition state_lines :: "pstate \<Rightarrow> string list" where
  "state_lines st =
     map (\<lambda>k. k @ '': '' @ get_of k st) (filter (\<lambda>k. get_of k st \<noteq> []) KNOWN)
     @ map (\<lambda>(k, v). k @ '': '' @ v) (filter (\<lambda>(k, v). k \<notin> set KNOWN \<and> v \<noteq> []) st)"

definition render_state :: "pstate \<Rightarrow> string" where
  "render_state st =
     (let parts = map (\<lambda>k. k @ '': '' @ get_of k st) (filter (\<lambda>k. get_of k st \<noteq> []) KNOWN) in
      if parts = [] then []
      else ''Current personality state - '' @ join ''; '' parts @
        ''. (These are internal dials that COLOR how you speak - express them naturally; never recite the labels when asked how you feel.)'')"

definition write_state :: "pstate \<Rightarrow> string option \<Rightarrow> string" where
  "write_state st file =
     (let prose = fst (parse_persona (case file of None \<Rightarrow> [] | Some t \<Rightarrow> t)) in
      rstrip prose @ nl @ nl @ join nl (STATE_SECTION # state_lines st) @ nl)"

section \<open>Tags\<close>

definition tag :: "string \<Rightarrow> rx" where
  "tag name = seqs [lit (''['' @ name @ '':''), plus1 (Cls (\<lambda>c. c \<noteq> CHR '']'')), lit '']'']"

definition TAG_RE :: rx where
  "TAG_RE = alts [tag ''MOOD'', tag ''VOICE'', tag ''TRAIT'']"

definition tag_values :: "string \<Rightarrow> string \<Rightarrow> string list" where
  "tag_values name reply = map (\<lambda>m. butlast (drop (length name + 2) m)) (findall (tag name) reply)"

definition trait_of :: "string \<Rightarrow> bool \<times> string" where
  "trait_of body =
     (case body of
        c # rest \<Rightarrow> if (c = CHR ''+'' \<or> c = CHR ''-'') \<and> rest \<noteq> [] then (c = CHR ''-'', strip rest)
                     else (False, strip body)
      | [] \<Rightarrow> (False, []))"

fun apply_traits :: "(bool \<times> string) list \<Rightarrow> string list \<Rightarrow> string list" where
  "apply_traits [] ts = ts"
| "apply_traits ((drp, name) # rest) ts =
     apply_traits rest
       (if name = [] then ts
        else if drp then filter (\<lambda>t. lower t \<noteq> lower name) ts
        else if lower name \<notin> lower ` set ts then ts @ [name] else ts)"

definition traits_list :: "pstate \<Rightarrow> string list" where
  "traits_list st = filter (\<lambda>t. t \<noteq> []) (map strip (split_on (\<lambda>c. c = CHR '','') (get_of ''traits'' st)))"

definition tagged_state :: "string \<Rightarrow> pstate \<Rightarrow> pstate" where
  "tagged_state reply st0 =
     (let moods = tag_values ''MOOD'' reply; voices = tag_values ''VOICE'' reply;
          st1 = (if moods \<noteq> [] then AList.update ''mood'' (strip (last moods)) st0 else st0);
          st2 = (if voices \<noteq> [] then AList.update ''voice'' (strip (last voices)) st1 else st1);
          ts = apply_traits (map trait_of (tag_values ''TRAIT'' reply)) (traits_list st2)
      in if ts \<noteq> [] then AList.update ''traits'' (join '', '' ts) st2 else st2)"

definition tags_change :: "string \<Rightarrow> bool" where
  "tags_change reply \<longleftrightarrow> tag_values ''MOOD'' reply \<noteq> [] \<or> tag_values ''VOICE'' reply \<noteq> []
     \<or> (\<exists>b \<in> set (tag_values ''TRAIT'' reply). snd (trait_of b) \<noteq> [])"

definition apply_personality_tags :: "string \<Rightarrow> string option \<Rightarrow> (string \<times> pstate) \<times> string option" where
  "apply_personality_tags reply file =
     (let st0 = snd (parse_persona (case file of None \<Rightarrow> [] | Some t \<Rightarrow> t));
          st = tagged_state reply st0;
          file' = (if tags_change reply then Some (write_state st file) else file)
      in ((strip (sub_all TAG_RE [] reply), map (\<lambda>k. (k, get_of k st)) KNOWN), file'))"

end
