(* ===== verification/Person.thy ===== *)
theory Person imports Store Presence Persona begin

text \<open>
  The model of the person (\<open>harness/model/person.py\<close>): the live rows of his, arranged into slots, the
  information of a new fact, the silences, the rendered picture; and the reflection that writes what
  she concludes (\<open>insight\<close> of \<open>harness/maintenance/ops.py\<close>). Logarithms are those of \<open>real\<close>.
\<close>

record evid =
  pe_text :: string
  pe_mentions :: int
  pe_sal :: real
  pe_first :: string
  pe_last :: string

type_synonym person = "(string \<times> evid list) list"

definition MAX_BITS :: real where
  "MAX_BITS = 8"

definition P_FLOOR :: real where
  "P_FLOOR = 1 / 256"

definition SLOTS :: "(string \<times> string list) list" where
  "SLOTS = [(''identity'', [''identity'']), (''dispositions'', [''preference'']),
     (''relationships'', [''relationship'']), (''possessions'', [''fact'']),
     (''happenings'', [''event'', ''episodic-event''])]"

definition slot_of :: "string \<Rightarrow> string" where
  "slot_of cls = (case find (\<lambda>p. cls \<in> set (snd p)) SLOTS of None \<Rightarrow> ''possessions'' | Some p \<Rightarrow> fst p)"

definition round_to :: "nat \<Rightarrow> real \<Rightarrow> real" where
  "round_to k x = of_int (py_round (x * 10 ^ k)) / 10 ^ k"

section \<open>Facts are evidence\<close>

definition dim_of :: "string \<Rightarrow> person \<Rightarrow> evid list" where
  "dim_of slot pm = (case map_of pm slot of None \<Rightarrow> [] | Some es \<Rightarrow> es)"

definition evid_of :: "real \<Rightarrow> row \<Rightarrow> evid" where
  "evid_of now r =
     \<lparr>pe_text = strip_prefix (r_text r), pe_mentions = or_int (r_mentions r) 1, pe_sal = salience r now,
      pe_first = or_str (r_first_seen r) (or_str (r_ts r) []), pe_last = or_str (r_last_seen r) (or_str (r_ts r) [])\<rparr>"

definition absorb_row :: "real \<Rightarrow> row \<Rightarrow> person \<Rightarrow> person" where
  "absorb_row now r pm = (let s = slot_of (r_class r) in AList.update s (dim_of s pm @ [evid_of now r]) pm)"

definition from_registry :: "real \<Rightarrow> string \<Rightarrow> mem \<Rightarrow> person" where
  "from_registry now speaker m =
     (if m_path m = [] then []
      else fold (absorb_row now) (filter (\<lambda>r. live r \<and> spk r = speaker) (load_rows m)) [])"

definition confidence :: "evid list \<Rightarrow> real" where
  "confidence es =
     (if es = [] then 0
      else let said = of_int (sum_list (map pe_mentions es)) in min 1 (said / (said + 3)))"

section \<open>Surprisal\<close>

definition words3 :: "string \<Rightarrow> string set" where
  "words3 t = set (filter (\<lambda>w. 3 \<le> length w) (runs is_alnum (lower t)))"

definition cover_by :: "string set \<Rightarrow> evid \<Rightarrow> real" where
  "cover_by ws e =
     (if words3 (pe_text e) = {} then 0
      else of_nat (card (ws \<inter> words3 (pe_text e))) / of_nat (card ws)
           * min 1 (1 / 2 + 1 / 2 * ln (1 + of_int (pe_mentions e))))"

definition best_cover :: "string set \<Rightarrow> evid list \<Rightarrow> real" where
  "best_cover ws es = fold (\<lambda>e b. max b (cover_by ws e)) es 0"

definition likelihood :: "string set \<Rightarrow> evid list \<Rightarrow> real" where
  "likelihood ws es = P_FLOOR + (1 - P_FLOOR) * best_cover ws es * (1 / 2 + 1 / 2 * confidence es)"

definition surprisal :: "string \<Rightarrow> string \<Rightarrow> person \<Rightarrow> real" where
  "surprisal fct mem_class pm =
     (let es = dim_of (slot_of (if mem_class \<noteq> [] then mem_class else classify fct)) pm; ws = words3 fct in
      if ws = {} then 0
      else if es = [] then MAX_BITS
      else round_to 3 (min MAX_BITS (- log 2 (max (likelihood ws es) P_FLOOR))))"

definition surprise :: "string \<Rightarrow> string \<Rightarrow> person \<Rightarrow> real" where
  "surprise fct mem_class pm = round_to 4 (min 1 (surprisal fct mem_class pm / MAX_BITS))"

section \<open>Silences\<close>

record silence =
  si_claim :: string
  si_mentions :: int
  si_cadence :: real
  si_quiet :: real
  si_bits :: real
  si_slot :: string

definition seen_at :: "real \<Rightarrow> string \<Rightarrow> real" where
  "seen_at now ts = now - age_days ts now * 86400"

definition cadence_of :: "real \<Rightarrow> ledger \<Rightarrow> evid \<Rightarrow> real" where
  "cadence_of now l e =
     max 1 (attended_days (seen_at now (pe_first e)) (seen_at now (pe_last e)) l) / of_int (max 1 (pe_mentions e - 1))"

definition quiet_of :: "real \<Rightarrow> ledger \<Rightarrow> evid \<Rightarrow> real" where
  "quiet_of now l e = attended_days (seen_at now (pe_last e)) now l"

definition silent_bits :: "real \<Rightarrow> real \<Rightarrow> real" where
  "silent_bits q cadence =
     round_to 2 (min MAX_BITS (- log 2 (max ((1 / 2) powr (q / max cadence (1 / 2))) (1 / 1000000))))"

definition silence_of :: "real \<Rightarrow> int \<Rightarrow> ledger \<Rightarrow> string \<Rightarrow> evid \<Rightarrow> silence option" where
  "silence_of now min_mentions l slot e =
     (if pe_mentions e < min_mentions then None
      else if quiet_of now l e \<le> cadence_of now l e * (3 / 2) then None
      else Some \<lparr>si_claim = pe_text e, si_mentions = pe_mentions e, si_cadence = round_to 1 (cadence_of now l e),
                 si_quiet = round_to 1 (quiet_of now l e),
                 si_bits = silent_bits (quiet_of now l e) (cadence_of now l e), si_slot = slot\<rparr>)"

definition silences :: "real \<Rightarrow> int \<Rightarrow> ledger \<Rightarrow> person \<Rightarrow> silence list" where
  "silences now min_mentions l pm =
     sort_key (\<lambda>r. - si_bits r)
       (concat (map (\<lambda>(slot, es). List.map_filter (silence_of now min_mentions l slot) es) pm))"

section \<open>The picture\<close>

definition percent :: "real \<Rightarrow> string" where
  "percent x = dec_nat (nat (py_round (x * 100))) @ ''%''"

definition render_person :: "string \<Rightarrow> nat \<Rightarrow> person \<Rightarrow> string" where
  "render_person who top_n pm =
     (if pm = [] then []
      else join nl ((''What you know about '' @ who @ '':'')
        # map (\<lambda>(slot, cs). ''  '' @ slot @ '' (confidence '' @ percent (confidence (dim_of slot pm)) @ ''): ''
               @ join ''; '' (map pe_text (take top_n (sort_key (\<lambda>e. - pe_sal e) (dim_of slot pm)))))
            (filter (\<lambda>(slot, cs). dim_of slot pm \<noteq> []) SLOTS)))"

section \<open>She writes down what she concludes\<close>

definition clean_line :: "string \<Rightarrow> string" where
  "clean_line l = strip (dropWhile (\<lambda>c. c \<in> set ''-*0123456789. '') (strip l))"

definition conclusions :: "string \<Rightarrow> string list" where
  "conclusions answer =
     filter (\<lambda>l. startswith (lower l) ''knack'' \<and> 4 \<le> length (py_split l)) (map clean_line (splitlines answer))"

fun accepted :: "reply \<Rightarrow> bool" where
  "accepted (Stored f old minted) = True"
| "accepted (Reinforced n t why) = True"
| "accepted r = False"

fun insight_loop :: "(nat \<Rightarrow> env) \<Rightarrow> nat \<Rightarrow> nat \<Rightarrow> string list \<Rightarrow> mem \<Rightarrow> (string \<times> reply) list \<times> mem" where
  "insight_loop envs i written [] m = ([], m)"
| "insight_loop envs i written (l # ls) m =
     (case remember (envs i) l ''reflection'' m of
        (rep, m1) \<Rightarrow>
          if accepted rep
          then (if 2 \<le> written + 1 then ([(l, rep)], m1)
                else (case insight_loop envs (i + 1) (written + 1) ls m1 of (ws, m2) \<Rightarrow> ((l, rep) # ws, m2)))
          else insight_loop envs (i + 1) written ls m1)"

text \<open>\<open>ask\<close> is the model's answer to the prompt with the picture.\<close>

definition insight_run ::
  "(nat \<Rightarrow> env) \<Rightarrow> (string \<Rightarrow> string) \<Rightarrow> real \<Rightarrow> mem \<Rightarrow> (string \<times> reply) list \<times> mem" where
  "insight_run envs ask now m =
     (let picture = render_person ''Knack'' 4 (from_registry now ''user'' m) in
      if picture = [] then ([], m)
      else let answer = ask picture in
           if contains (lower answer) ''nothing yet'' then ([], m)
           else insight_loop envs 0 0 (conclusions answer) (set_author ''user'' m))"


text \<open>The reply as the text the reflection's receipt quotes.\<close>

fun reply_text :: "reply \<Rightarrow> string" where
  "reply_text (Stored f old minted) =
     ''stored: '' @ f
     @ (case old of None \<Rightarrow> [] | Some t \<Rightarrow> '' (superseded: '' @ [CHR 0x27] @ t @ [CHR 0x27] @ '')'')
     @ (if minted then [] else '' (note: episode not minted; recall-on-restart only)'')"
| "reply_text (Reinforced n t again) =
     ''reinforced ('' @ dec_nat (nat n) @ ''x): '' @ t @ (if again then ''  [said again, in different words]'' else [])"
| "reply_text NoRegistry = ''[no registry configured]''"
| "reply_text (NotStored why) = ''not stored''"

definition wrote_line :: "string \<times> reply \<Rightarrow> string" where
  "wrote_line p = take 60 (fst p) @ '' -> '' @ take 38 (reply_text (snd p))"

section \<open>Bounds\<close>

lemma py_round_bounds: "of_int a \<le> x \<Longrightarrow> x \<le> of_int b \<Longrightarrow> a \<le> py_round x \<and> py_round x \<le> b"
  using py_round_mono [of "of_int a" x] py_round_mono [of x "of_int b"] by (simp add: py_round_def)

lemma round_to_bounds:
  assumes "of_int a \<le> x" "x \<le> of_int b"
  shows "of_int a \<le> round_to k x \<and> round_to k x \<le> of_int b"
proof -
  have "of_int (a * 10 ^ k) \<le> x * 10 ^ k" "x * 10 ^ k \<le> of_int (b * 10 ^ k)"
    using assms by (simp_all add: mult_right_mono)
  from py_round_bounds [OF this] have r: "a * 10 ^ k \<le> py_round (x * 10 ^ k)" "py_round (x * 10 ^ k) \<le> b * 10 ^ k" by auto
  have "(of_int (a * 10 ^ k) :: real) \<le> of_int (py_round (x * 10 ^ k))" "of_int (py_round (x * 10 ^ k)) \<le> (of_int (b * 10 ^ k) :: real)"
    using r by (simp_all only: of_int_le_iff)
  then show ?thesis by (simp add: round_to_def field_simps)
qed

lemma round_to_int [simp]: "round_to k (of_int n) = of_int n"
  using round_to_bounds [of n "of_int n" n k] by simp

lemma round_to_mono: "x \<le> y \<Longrightarrow> round_to k x \<le> round_to k y"
  by (simp add: round_to_def py_round_mono divide_right_mono mult_right_mono)

lemma best_cover_ge: "b \<le> fold (\<lambda>e b. max b (cover_by ws e)) es b"
proof (induction es arbitrary: b)
  case (Cons e es)
  show ?case using Cons.IH [of "max b (cover_by ws e)"] by simp
qed simp

lemma cover_by_le: "finite ws \<Longrightarrow> cover_by ws e \<le> 1"
proof -
  assume f: "finite ws"
  let ?r = "of_nat (card (ws \<inter> words3 (pe_text e))) / of_nat (card ws) :: real"
  let ?k = "min 1 (1 / 2 + 1 / 2 * ln (1 + of_int (pe_mentions e))) :: real"
  have "card (ws \<inter> words3 (pe_text e)) \<le> card ws" using f by (simp add: card_mono)
  then have r: "0 \<le> ?r" "?r \<le> 1" by (simp_all add: divide_le_eq)
  have "?r * ?k \<le> ?r * 1" by (rule mult_left_mono) (use r in simp_all)
  then show ?thesis using r by (simp add: cover_by_def)
qed

lemma best_cover_le: "finite ws \<Longrightarrow> b \<le> 1 \<Longrightarrow> fold (\<lambda>e b. max b (cover_by ws e)) es b \<le> 1"
  by (induction es arbitrary: b) (simp_all add: cover_by_le)

lemma confidence_le: "confidence es \<le> 1"
  by (simp add: confidence_def Let_def)

lemma likelihood_le: "finite ws \<Longrightarrow> likelihood ws es \<le> 1"
proof -
  assume f: "finite ws"
  have b: "0 \<le> best_cover ws es" "best_cover ws es \<le> 1"
    using best_cover_ge [of 0 ws es] best_cover_le [OF f, of 0 es] by (simp_all add: best_cover_def)
  have "best_cover ws es * (1 / 2 + 1 / 2 * confidence es) \<le> best_cover ws es * 1"
    by (rule mult_left_mono) (use b confidence_le [of es] in simp_all)
  then have "best_cover ws es * (1 / 2 + 1 / 2 * confidence es) \<le> 1" using b by simp
  then show ?thesis by (simp add: likelihood_def P_FLOOR_def)
qed

lemma surprisal_range: "0 \<le> surprisal fct cls pm \<and> surprisal fct cls pm \<le> 8"
proof -
  have "0 \<le> round_to 3 (min 8 (- log 2 (max (likelihood ws es) P_FLOOR))) \<and>
        round_to 3 (min 8 (- log 2 (max (likelihood ws es) P_FLOOR))) \<le> 8"
    if "finite ws" for ws es
  proof -
    let ?q = "max (likelihood ws es) P_FLOOR"
    have "0 < ?q" "?q \<le> 1" using likelihood_le [OF that, of es] by (simp_all add: P_FLOOR_def max_def)
    then have "0 \<le> - log 2 ?q" by (simp add: log_le_zero_cancel_iff)
    then show ?thesis using round_to_bounds [of 0 "min 8 (- log 2 ?q)" 8 3] by simp
  qed
  moreover have "finite (words3 fct)" by (simp add: words3_def)
  ultimately show ?thesis by (auto simp: surprisal_def Let_def MAX_BITS_def)
qed

lemma surprise_range: "0 \<le> surprise fct cls pm \<and> surprise fct cls pm \<le> 1"
  using surprisal_range [of fct cls pm] round_to_bounds [of 0 "min 1 (surprisal fct cls pm / 8)" 1 4]
  by (simp add: surprise_def MAX_BITS_def)

section \<open>The silences in closed form\<close>

lemma silent_bits_alt:
  assumes "0 \<le> q"
  shows "silent_bits q c = round_to 2 (min 8 (q / max c (1 / 2)))"
proof -
  let ?x = "q / max c (1 / 2)"
  have pos: "0 \<le> ?x" using assms by simp
  have "(1 / 2 :: real) powr ?x = 2 powr (- ?x)" by (simp add: powr_minus_divide powr_divide)
  show ?thesis
  proof (cases "(1 / 2 :: real) powr ?x \<ge> 1 / 1000000")
    case True
    then have "max ((1 / 2) powr ?x) (1 / 1000000) = 2 powr (- ?x)"
      using \<open>(1 / 2 :: real) powr ?x = 2 powr (- ?x)\<close> by (simp only: max.absorb1)
    then show ?thesis by (simp add: silent_bits_def MAX_BITS_def)
  next
    case False
    have small: "(1 / 1000000 :: real) \<le> 2 powr (- 8)" by (simp add: powr_minus)
    have "2 powr (- ?x) < 2 powr (- 8)" using False small \<open>(1 / 2 :: real) powr ?x = 2 powr (- ?x)\<close> by linarith
    then have x: "8 < ?x" by simp
    have "log 2 (1 / 1000000) \<le> log 2 (2 powr (- 8))"
      using small by (subst log_le_cancel_iff) auto
    then have "8 \<le> - log 2 (1 / 1000000)" by simp
    moreover have "max ((1 / 2) powr ?x) (1 / 1000000) = 1 / 1000000" using False by (simp only: max.absorb2)
    ultimately show ?thesis using x by (simp only: silent_bits_def MAX_BITS_def min.absorb1)
  qed
qed

lemma silence_of_Some:
  "silence_of now k l slot e = Some s \<Longrightarrow>
     k \<le> pe_mentions e \<and> cadence_of now l e * (3 / 2) < quiet_of now l e \<and> si_claim s = pe_text e \<and> si_slot s = slot
     \<and> si_mentions s = pe_mentions e \<and> si_bits s = silent_bits (quiet_of now l e) (cadence_of now l e)"
  by (auto simp: silence_of_def split: if_splits)

lemma silences_member:
  "s \<in> set (silences now k l pm) \<Longrightarrow>
     \<exists>slot es e. (slot, es) \<in> set pm \<and> e \<in> set es \<and> silence_of now k l slot e = Some s"
  by (auto simp: silences_def map_filter_def) blast+

lemma cadence_pos: "0 < cadence_of now l e"
  by (simp add: cadence_of_def divide_pos_pos less_max_iff_disj)

lemma silences_bits:
  assumes "s \<in> set (silences now k l pm)"
  shows "k \<le> si_mentions s \<and> 0 \<le> si_bits s \<and> si_bits s \<le> 8"
proof -
  from silences_member [OF assms] obtain slot es e
    where "e \<in> set es" "silence_of now k l slot e = Some s" by blast
  from silence_of_Some [OF this(2)]
  have s: "k \<le> si_mentions s" "si_bits s = silent_bits (quiet_of now l e) (cadence_of now l e)" by auto
  have q: "0 \<le> quiet_of now l e" using attended_range by (simp add: quiet_of_def)
  let ?x = "quiet_of now l e / max (cadence_of now l e) (1 / 2)"
  have "0 \<le> ?x" using q by simp
  then show ?thesis using s silent_bits_alt [OF q] round_to_bounds [of 0 "min 8 ?x" 8 2] by simp
qed

lemma silences_sorted: "sorted (map (\<lambda>s. - si_bits s) (silences now k l pm))"
  by (simp add: silences_def)

lemma silence_needs_ledger: "load_days l = [] \<Longrightarrow> silence_of now k l slot e = None"
  using cadence_pos [of now l e]
  by (simp add: silence_of_def quiet_of_def attended_none)

lemma no_ledger_no_silence: "load_days l = [] \<Longrightarrow> silences now k l pm = []"
  using silences_member [of _ now k l pm] silence_needs_ledger by (metis list.set_intros(1) neq_Nil_conv option.distinct(1))

lemma fresh_topic:
  assumes "pe_first e = pe_last e" "3 \<le> pe_mentions e" "k \<le> pe_mentions e"
    "0 < age_days (pe_last e) now" "0 < turns_on (load_days l) (day_of (seen_at now (pe_last e)))"
  shows "\<exists>s. silence_of now k l slot e = Some s \<and> 2 \<le> si_bits s"
proof -
  let ?c = "cadence_of now l e" and ?q = "quiet_of now l e"
  have q: "1 \<le> ?q"
    unfolding quiet_of_def by (rule attended_first_day) (use assms in \<open>simp_all add: seen_at_def\<close>)
  have "?c = 1 / of_int (max 1 (pe_mentions e - 1))" using assms(1) by (simp add: cadence_of_def attended_days_def)
  moreover have "of_int 2 \<le> (of_int (max 1 (pe_mentions e - 1)) :: real)"
    unfolding of_int_le_iff using assms(2) by simp
  ultimately have c: "?c \<le> 1 / 2" using divide_left_mono [of 2 "of_int (max 1 (pe_mentions e - 1))" "1 :: real"] by simp
  have "silent_bits ?q ?c = round_to 2 (min 8 (?q / (1 / 2)))"
    using silent_bits_alt [of ?q ?c] q c by (simp add: max.absorb2)
  moreover have "of_int 2 \<le> min 8 (?q / (1 / 2))" using q by simp
  ultimately have "2 \<le> silent_bits ?q ?c" using round_to_mono [of "of_int 2" "min 8 (?q / (1 / 2))" 2] round_to_int [of 2 2] by simp
  moreover have "\<not> ?q \<le> ?c * (3 / 2)" using q c by linarith
  ultimately show ?thesis using assms(3) by (simp add: silence_of_def)
qed

section \<open>Properties\<close>

text \<open>
  A silence is an attended absence: whatever is reported as gone quiet was mentioned at least the
  required number of times, the ledger holds days he was there, the attended quiet exceeds one and a
  half times the attended cadence, and its bits are that ratio, rounded and capped at 8; the report is
  sorted, most surprising first. The measure counts the day of the last mention as a quiet one: a
  topic of one day with three mentions, on which he also spoke, is reported with at least two bits at
  every later instant, a minute after he brought it up.
\<close>

theorem silence_is_attended_absence:
  "(s \<in> set (silences now k l pm) \<longrightarrow> load_days l \<noteq> [] \<and> k \<le> si_mentions s \<and> 0 \<le> si_bits s \<and> si_bits s \<le> 8
      \<and> (\<exists>slot es e. (slot, es) \<in> set pm \<and> e \<in> set es \<and> si_claim s = pe_text e \<and> si_slot s = slot
           \<and> cadence_of now l e * (3 / 2) < quiet_of now l e
           \<and> si_bits s = round_to 2 (min 8 (quiet_of now l e / max (cadence_of now l e) (1 / 2)))))
    \<and> sorted (map (\<lambda>s. - si_bits s) (silences now k l pm))
    \<and> ((slot, es) \<in> set pm \<and> e \<in> set es \<and> pe_first e = pe_last e \<and> 3 \<le> pe_mentions e \<and> k \<le> pe_mentions e
       \<and> 0 < age_days (pe_last e) now \<and> 0 < turns_on (load_days l) (day_of (seen_at now (pe_last e)))
       \<longrightarrow> (\<exists>s \<in> set (silences now k l pm). si_claim s = pe_text e \<and> 2 \<le> si_bits s))"
proof (intro conjI impI)
  assume s: "s \<in> set (silences now k l pm)"
  then have "load_days l \<noteq> []" using no_ledger_no_silence [of l now k pm] by auto
  moreover obtain slot es e where e: "(slot, es) \<in> set pm" "e \<in> set es" "silence_of now k l slot e = Some s"
    using silences_member [OF s] by blast
  moreover have "0 \<le> quiet_of now l e" using attended_range by (simp add: quiet_of_def)
  ultimately show "load_days l \<noteq> []" and "\<exists>slot es e. (slot, es) \<in> set pm \<and> e \<in> set es \<and> si_claim s = pe_text e
      \<and> si_slot s = slot \<and> cadence_of now l e * (3 / 2) < quiet_of now l e
      \<and> si_bits s = round_to 2 (min 8 (quiet_of now l e / max (cadence_of now l e) (1 / 2)))"
    using silence_of_Some [OF e(3)] silent_bits_alt [of "quiet_of now l e" "cadence_of now l e"] by auto
  show "k \<le> si_mentions s" "0 \<le> si_bits s" "si_bits s \<le> 8" using silences_bits [OF s] by auto
next
  show "sorted (map (\<lambda>s. - si_bits s) (silences now k l pm))" by (rule silences_sorted)
next
  assume a: "(slot, es) \<in> set pm \<and> e \<in> set es \<and> pe_first e = pe_last e \<and> 3 \<le> pe_mentions e \<and> k \<le> pe_mentions e
       \<and> 0 < age_days (pe_last e) now \<and> 0 < turns_on (load_days l) (day_of (seen_at now (pe_last e)))"
  then obtain s where s: "silence_of now k l slot e = Some s" "2 \<le> si_bits s" using fresh_topic [of e k now l slot] by auto
  then have "s \<in> set (silences now k l pm)" using a by (force simp: silences_def map_filter_def)
  then show "\<exists>s \<in> set (silences now k l pm). si_claim s = pe_text e \<and> 2 \<le> si_bits s"
    using s silence_of_Some [OF s(1)] by blast
qed

theorem silence_is_attended_absence_witness:
  "\<exists>s \<in> set (silences 60 3 \<lparr>l_set = True, l_lines = Some [DLine (day_of 0) 3]\<rparr>
      [(''possessions'', [\<lparr>pe_text = ''My dog is called Max'', pe_mentions = 3, pe_sal = 0,
          pe_first = stamp_of 0, pe_last = stamp_of 0\<rparr>])]). si_claim s = ''My dog is called Max'' \<and> 2 \<le> si_bits s"
proof -
  let ?e = "\<lparr>pe_text = ''My dog is called Max'', pe_mentions = 3, pe_sal = 0, pe_first = stamp_of 0, pe_last = stamp_of 0\<rparr>"
  let ?l = "\<lparr>l_set = True, l_lines = Some [DLine (day_of 0) 3]\<rparr>"
  have "tm_year (gmtime \<lfloor>0 :: real\<rfloor>) \<le> 9999" by code_simp
  then have a: "age_days (stamp_of 0) 60 = 60 / 86400" using age_days_now [of 0 60] by simp
  then have "seen_at 60 (stamp_of 0) = 0" by (simp add: seen_at_def)
  then have "0 < turns_on (load_days ?l) (day_of (seen_at 60 (pe_last ?e)))" by (simp add: load_days_def turns_on_def)
  moreover have "0 < age_days (pe_last ?e) 60" using a by simp
  ultimately have "(''possessions'', [?e]) \<in> set [(''possessions'', [?e])] \<and> ?e \<in> set [?e] \<and> pe_first ?e = pe_last ?e
    \<and> 3 \<le> pe_mentions ?e \<and> 3 \<le> pe_mentions ?e \<and> 0 < age_days (pe_last ?e) 60
    \<and> 0 < turns_on (load_days ?l) (day_of (seen_at 60 (pe_last ?e)))" by simp
  from silence_is_attended_absence [THEN conjunct2, THEN conjunct2, THEN mp, OF this]
  show ?thesis by simp
qed

end
