(* ===== verification/Hygiene.thy ===== *)
theory Hygiene imports Store begin

text \<open>
  What reaches the registry and what its maintenance keeps: the doors as an invariant of every
  session, the way a stored fact is found again, the effect of a stale snapshot, and the
  compaction tool with its health report.
\<close>

section \<open>The doors hold for every row of a session\<close>

definition clean_row :: "string list \<Rightarrow> row \<Rightarrow> bool" where
  "clean_row vs r \<longleftrightarrow>
     is_memorable (r_text r) = None \<and> (r_speaker r = Some ''user'' \<longrightarrow> \<not> about_self (r_text r) vs)"

definition clean :: "string list \<Rightarrow> mem \<Rightarrow> bool" where
  "clean vs s \<longleftrightarrow> (\<forall>r \<in> set (load_rows s). clean_row vs r)"

text \<open>The operations whose environment reports the values \<open>vs\<close> as hers.\<close>

fun reads_self :: "string list \<Rightarrow> mem_op \<Rightarrow> bool" where
  "reads_self vs (Remember ev raw src) = (e_self ev = vs)"
| "reads_self vs a = True"

lemma clean_row_ident: "clean_row vs r = (\<lambda>(n, t, tp, sp, st). is_memorable t = None
    \<and> (sp = Some ''user'' \<longrightarrow> \<not> about_self t vs)) (row_ident r)"
  by (simp add: row_ident_def clean_row_def)

lemma clean_rows_ident: "(\<forall>r \<in> set rs. clean_row vs r) \<longleftrightarrow>
   (\<forall>k \<in> set (map row_ident rs). (\<lambda>(n, t, tp, sp, st). is_memorable t = None
    \<and> (sp = Some ''user'' \<longrightarrow> \<not> about_self t vs)) k)"
  unfolding clean_row_ident by simp

lemma clean_map_ident:
  assumes "map row_ident rs' = map row_ident rs @ map row_ident extra"
    and "\<forall>r \<in> set rs. clean_row vs r" "\<forall>r \<in> set extra. clean_row vs r"
  shows "\<forall>r \<in> set rs'. clean_row vs r"
  using assms(2,3) unfolding clean_rows_ident assms(1) set_append by blast

lemma remember_extra:
  "\<exists>extra. map row_ident (load_rows (snd (remember ev raw src s))) = map row_ident (load_rows s) @ map row_ident extra
     \<and> (\<forall>line \<in> set extra. r_text line = normalize_fact raw \<and> r_speaker line = Some (speaker_of (m_author s))
           \<and> door ev (m_author s) (normalize_fact raw) = None)"
proof -
  obtain rep s' where r: "remember ev raw src s = (rep, s')" by fastforce
  then show ?thesis
  proof (cases rule: remember_cases)
    case 1
    then show ?thesis by (intro exI [of _ "[]"]) (simp add: r)
  next
    case d: 2
    from d(1,3) show ?thesis
    proof (cases rule: remember_commit_cases)
      case (1 P)
      then show ?thesis by (intro exI [of _ "[]"]) (simp add: r row_simps)
    next
      case (2 line)
      then show ?thesis using d(2) by (intro exI [of _ "[line]"]) (simp add: r row_simps)
    qed
  qed
qed

lemma door_clean:
  "door ev author f = None \<Longrightarrow> r_text r = f \<Longrightarrow> r_speaker r = Some (speaker_of author) \<Longrightarrow>
   author = ''self'' \<or> e_self ev = vs \<Longrightarrow> clean_row vs r"
  by (auto simp: door_def clean_row_def speaker_of_def door_simps split: option.splits if_split_asm)

lemma clean_remember:
  assumes "clean vs s" "m_author s = ''self'' \<or> e_self ev = vs"
  shows "clean vs (snd (remember ev raw src s))"
proof -
  obtain extra where extra: "map row_ident (load_rows (snd (remember ev raw src s)))
      = map row_ident (load_rows s) @ map row_ident extra"
    and l: "\<forall>line \<in> set extra. r_text line = normalize_fact raw \<and> r_speaker line = Some (speaker_of (m_author s))
           \<and> door ev (m_author s) (normalize_fact raw) = None"
    using remember_extra by blast
  have "\<forall>r \<in> set extra. clean_row vs r"
  proof
    fix r assume "r \<in> set extra"
    with l have "r_text r = normalize_fact raw" "r_speaker r = Some (speaker_of (m_author s))"
      "door ev (m_author s) (normalize_fact raw) = None" by simp_all
    from door_clean [OF this(3,1,2) assms(2)] show "clean_row vs r" .
  qed
  from clean_map_ident [OF extra assms(1) [unfolded clean_def] this] show ?thesis unfolding clean_def .
qed

lemma quiet_ident: "map quiet rs = map quiet rs' \<Longrightarrow> map row_ident rs = map row_ident rs'"
proof (induction rs arbitrary: rs')
  case (Cons r rs)
  then obtain r' rs'' where rs': "rs' = r' # rs''" by (cases rs') auto
  with Cons.prems have "row_ident r = row_ident r'" using row_ident_quiet [of r r'] by simp
  with Cons.prems Cons.IH [of rs''] show ?case by (simp add: rs')
qed simp

lemma clean_step:
  assumes "clean vs s" "reads_self vs a"
  shows "clean vs (mem_step a s)"
proof -
  have same: "clean vs s'" if "map row_ident (load_rows s') = map row_ident (load_rows s)" for s'
    using assms(1) unfolding clean_def clean_rows_ident that .
  show ?thesis
  proof (cases a)
    case (Remember ev raw src)
    then show ?thesis using clean_remember assms by simp
  next
    case (RememberSelf ev raw)
    have "clean vs (set_author ''self'' s)" using assms(1) by (simp add: clean_def row_simps)
    then have "clean vs (snd (remember ev raw ''self'' (set_author ''self'' s)))"
      by (rule clean_remember) (simp add: set_author_def)
    then show ?thesis by (simp add: RememberSelf clean_def remember_about_self_rows)
  next
    case (Forget ev q)
    show ?thesis
      by (rule same, cases rule: forget_cases [of ev q s]) (simp_all add: Forget list_update_ident row_simps)
  next
    case (MintTurn ev)
    show ?thesis
      by (rule same, cases rule: mint_step_cases [of ev s]) (simp_all add: MintTurn map_update_first row_simps)
  next
    case (Lookup v q st)
    have q: "map quiet (load_rows (mem_step a s)) = map quiet (load_rows s)"
      unfolding Lookup by (rule lookup_quiet)
    from same [OF quiet_ident [OF q]] show ?thesis .
  qed (use assms(1) in \<open>simp_all add: clean_def row_simps\<close>)
qed

lemma clean_run: "clean vs s \<Longrightarrow> \<forall>a \<in> set ops. reads_self vs a \<Longrightarrow> clean vs (fold mem_step ops s)"
  by (induction ops arbitrary: s) (simp_all add: clean_step)

section \<open>A stored fact is found\<close>

lemma overlap_subset: "toks q \<noteq> {} \<Longrightarrow> toks q \<subseteq> toks t \<Longrightarrow> overlap q t = 1"
  by (simp add: overlap_def Let_def Int_absorb2)

lemma found_by_words:
  assumes "e \<in> set rows" "live e" "toks q \<noteq> {}" "toks q \<subseteq> toks (row_text e)" "m \<le> 1"
  shows "e \<in> set (map snd (match_rows v q m False rows))"
proof -
  have "1 \<le> lex_score q e" using overlap_subset [OF assms(3,4)] by (simp add: lex_score_def Let_def)
  then have "admits v q m e" using assms(5) by (simp add: admits_def)
  then show ?thesis unfolding match_rows_mem using assms(1,2) by simp
qed

lemma ground_survives:
  "e \<in> set (map snd scored) \<Longrightarrow> ground e \<Longrightarrow> e \<in> set (map snd (testimony_wins scored n))"
  by (auto simp: testimony_wins_filter)

section \<open>A commit on a stale snapshot\<close>

text \<open>
  \<open>remember\<close> reads the registry, decides, and writes back what it read: no lock is held in
  between. When another write lands after the read, a reinforcement puts the old file back.
\<close>

lemma stale_reinforcement:
  assumes "m_path s \<noteq> []" "e \<in> set old" "exact_hit f e \<or> near_hit f e"
  shows "map row_ident (load_rows (snd (remember_commit ev f src old s))) = map row_ident old"
proof (cases "\<exists>e \<in> set old. exact_hit f e")
  case True
  then show ?thesis by (simp add: remember_commit_def load_save [OF assms(1)] row_simps)
next
  case False
  with assms(2,3) have "\<exists>e \<in> set old. near_hit f e" by blast
  with False show ?thesis by (simp add: remember_commit_def load_save [OF assms(1)] row_simps)
qed

section \<open>Compaction\<close>

definition key_of :: "row \<Rightarrow> string" where
  "key_of r = strip (row_text r)"

text \<open>The rows compaction keeps: each row whose key is empty or not seen before.\<close>

fun first_keys :: "string list \<Rightarrow> row list \<Rightarrow> row list" where
  "first_keys seen [] = []"
| "first_keys seen (e # es) =
     (if key_of e \<noteq> [] \<and> key_of e \<in> set seen then first_keys seen es
      else e # first_keys (key_of e # seen) es)"

lemma compact_lines_rows: "fst (compact_lines seen ls) = first_keys seen (rows_of ls)"
proof (induction seen ls rule: compact_lines.induct)
  case (3 seen e ls)
  then show ?case
    by (cases "key_of e \<noteq> [] \<and> key_of e \<in> set seen") (auto simp: key_of_def Let_def case_prod_unfold)
qed (simp_all add: case_prod_unfold)

lemma compact_lines_count:
  "length (fst (compact_lines seen ls)) + snd (compact_lines seen ls) = length ls"
  by (induction seen ls rule: compact_lines.induct) (simp_all add: Let_def case_prod_unfold)

lemma first_keys_sub: "subseq (first_keys seen es) es"
  by (induction seen es rule: first_keys.induct) (simp_all add: list_emb_Cons)

text \<open>Among the kept rows a non-empty key occurs once, and no key of the file is lost.\<close>

lemma first_keys_distinct:
  "distinct (filter (\<lambda>k. k \<noteq> []) (map key_of (first_keys seen es)))
   \<and> (\<forall>r \<in> set (first_keys seen es). key_of r = [] \<or> key_of r \<notin> set seen)"
proof (induction seen es rule: first_keys.induct)
  case (2 seen e es)
  then show ?case by (cases "key_of e \<noteq> [] \<and> key_of e \<in> set seen") auto
qed simp

lemma first_keys_covers:
  "r \<in> set es \<Longrightarrow> key_of r \<notin> set seen \<Longrightarrow> \<exists>q \<in> set (first_keys seen es). key_of q = key_of r"
proof (induction seen es rule: first_keys.induct)
  case (2 seen e es)
  show ?case
  proof (cases "key_of e \<noteq> [] \<and> key_of e \<in> set seen")
    case True
    with 2 show ?thesis by auto
  next
    case False
    show ?thesis
    proof (cases "key_of r = key_of e")
      case True
      with False show ?thesis by auto
    next
      case ne: False
      with 2(2)[OF False] 2(3,4) show ?thesis by (auto simp: False)
    qed
  qed
qed simp

lemma first_keys_idem:
  assumes "\<forall>r \<in> set es. key_of r = [] \<or> key_of r \<notin> set seen"
    and "distinct (filter (\<lambda>k. k \<noteq> []) (map key_of es))"
  shows "first_keys seen es = es"
  using assms
proof (induction es arbitrary: seen)
  case (Cons e es)
  have "\<forall>r \<in> set es. key_of r = [] \<or> key_of r \<notin> set (key_of e # seen)"
    using Cons.prems by (cases "key_of e = []") (auto simp: image_iff)
  from Cons.IH [OF this] Cons.prems show ?case by (auto split: if_split_asm)
qed simp

lemma first_keys_twice: "first_keys [] (first_keys [] es) = first_keys [] es"
  using first_keys_distinct [of "[]" es] by (intro first_keys_idem) auto

text \<open>The first row of a key wins, dead or alive.\<close>

lemma first_keys_first:
  assumes "k \<noteq> []" "k \<notin> set seen" "find (\<lambda>r. key_of r = k) es = Some d"
    and "r \<in> set (first_keys seen es)" "key_of r = k"
  shows "r = d"
  using assms
proof (induction seen es rule: first_keys.induct)
  case (2 seen e es)
  show ?case
  proof (cases "key_of e = k")
    case True
    with 2 show ?thesis
      using first_keys_distinct [of "key_of e # seen" es] by (auto split: if_split_asm)
  next
    case False
    with 2 show ?thesis by (auto split: if_split_asm)
  qed
qed simp

lemma compact_registry_file:
  assumes "m_path s \<noteq> []" "m_file s = Some ls"
  shows "m_file (snd (compact_registry s)) = Some (map Row (first_keys [] (rows_of ls)))"
    and "m_path (snd (compact_registry s)) = m_path s"
    and "load_rows (snd (compact_registry s)) = first_keys [] (rows_of ls)"
  using assms compact_lines_rows [of "[]" ls]
  by (simp_all add: compact_registry_def case_prod_unfold load_rows_def)

lemma rows_of_junk: "length (filter (\<lambda>l. l = Junk) (map Row rs)) = 0"
  by (induction rs) auto

lemma remdups_len: "length (remdups xs) = length xs \<longleftrightarrow> distinct xs"
  by (metis distinct_remdups length_remdups_card_conv card_distinct distinct_card)

lemma health_iff:
  assumes "m_path s \<noteq> []" "m_file s = Some ls"
  shows "snd (registry_health s) = Healthy \<longleftrightarrow>
     (Junk \<notin> set ls) \<and> distinct (map key_of (rows_of ls))"
proof -
  have "load_rows s = rows_of ls" using assms by (simp add: load_rows_def)
  moreover have "length xs - length (remdups xs) = 0 \<longleftrightarrow> distinct xs" for xs :: "string list"
    using remdups_len [of xs] length_remdups_leq [of xs] by linarith
  moreover have "length (filter (\<lambda>l. l = Junk) ls) = 0 \<longleftrightarrow> Junk \<notin> set ls"
    by (auto simp: filter_empty_conv)
  ultimately show ?thesis
    using assms by (simp add: registry_health_def Let_def key_of_def [abs_def])
qed

lemma first_keys_empty: "filter (\<lambda>r. key_of r = []) (first_keys seen es) = filter (\<lambda>r. key_of r = []) es"
  by (induction seen es rule: first_keys.induct) auto

lemma distinct_keys_iff:
  assumes "distinct (filter (\<lambda>k. k \<noteq> []) ks)"
  shows "distinct ks \<longleftrightarrow> length (filter (\<lambda>k. k = []) ks) \<le> 1"
  using assms
proof (induction ks)
  case (Cons k ks)
  have e: "filter (\<lambda>k. k = []) ks = [] \<longleftrightarrow> [] \<notin> set ks" by (auto simp: filter_empty_conv)
  show ?case
  proof (cases "k = []")
    case True
    with Cons e show ?thesis by (cases "filter (\<lambda>k. k = []) ks") auto
  next
    case False
    with Cons show ?thesis by auto
  qed
qed simp

lemma health_compacted:
  assumes "m_path s \<noteq> []" "m_file s = Some ls"
  shows "snd (registry_health (snd (compact_registry s))) = Healthy \<longleftrightarrow>
     length (filter (\<lambda>r. key_of r = []) (rows_of ls)) \<le> 1"
proof -
  let ?k = "first_keys [] (rows_of ls)"
  note f = compact_registry_file [OF assms]
  have "snd (registry_health (snd (compact_registry s))) = Healthy \<longleftrightarrow>
     distinct (map key_of ?k)"
    using health_iff [OF _ f(1)] f(2) assms(1) by auto
  also have "distinct (map key_of ?k) \<longleftrightarrow> length (filter (\<lambda>k. k = []) (map key_of ?k)) \<le> 1"
    using first_keys_distinct [of "[]" "rows_of ls"] by (intro distinct_keys_iff) simp
  also have "length (filter (\<lambda>k. k = []) (map key_of ?k)) = length (filter (\<lambda>r. key_of r = []) ?k)"
    by (simp add: filter_map comp_def)
  finally show ?thesis by (simp add: first_keys_empty)
qed

lemma compact_registry_spec:
  assumes "m_path s \<noteq> []" "m_file s = Some ls"
  defines "s' \<equiv> snd (compact_registry s)"
  shows "subseq (load_rows s') (load_rows s)"
    and "distinct (filter (\<lambda>k. k \<noteq> []) (map key_of (load_rows s')))"
    and "key_of ` set (load_rows s') = key_of ` set (load_rows s)"
    and "fst (compact_registry s) = Some (length (load_rows s'), length ls - length (load_rows s'))"
    and "compact_registry s' = (Some (length (load_rows s'), 0), s')"
proof -
  note f = compact_registry_file [OF assms(1,2), folded s'_def]
  have old: "load_rows s = rows_of ls" using assms(1,2) by (simp add: load_rows_def)
  show "subseq (load_rows s') (load_rows s)" unfolding f(3) old by (rule first_keys_sub)
  then obtain N where "load_rows s' = nths (load_rows s) N" unfolding subseq_conv_nths ..
  then have sub: "set (load_rows s') \<subseteq> set (load_rows s)" by (simp add: set_nths_subset)
  show "distinct (filter (\<lambda>k. k \<noteq> []) (map key_of (load_rows s')))"
    using first_keys_distinct [of "[]" "rows_of ls"] by (simp add: f(3))
  show "key_of ` set (load_rows s') = key_of ` set (load_rows s)"
  proof
    show "key_of ` set (load_rows s') \<subseteq> key_of ` set (load_rows s)" using sub by (rule image_mono)
    show "key_of ` set (load_rows s) \<subseteq> key_of ` set (load_rows s')"
    proof
      fix k assume "k \<in> key_of ` set (load_rows s)"
      then obtain r where "r \<in> set (rows_of ls)" "k = key_of r" by (auto simp: old)
      then show "k \<in> key_of ` set (load_rows s')"
        using first_keys_covers [of r "rows_of ls" "[]"] unfolding f(3) by (metis empty_iff empty_set imageI)
    qed
  qed
  show "fst (compact_registry s) = Some (length (load_rows s'), length ls - length (load_rows s'))"
    using compact_lines_count [of "[]" ls] compact_lines_rows [of "[]" ls] assms(1,2)
    by (simp add: compact_registry_def case_prod_unfold f(3))
  have "fst (compact_lines [] (map Row (first_keys [] (rows_of ls)))) = first_keys [] (rows_of ls)"
    by (simp add: compact_lines_rows first_keys_twice)
  moreover from this have "snd (compact_lines [] (map Row (first_keys [] (rows_of ls)))) = 0"
    using compact_lines_count [of "[]" "map Row (first_keys [] (rows_of ls))"] by simp
  ultimately show "compact_registry s' = (Some (length (load_rows s'), 0), s')"
    using f assms(1) by (simp add: compact_registry_def case_prod_unfold)
qed

end
