(* ===== verification/Notes.thy ===== *)
theory Notes imports Rows Contracts begin

text \<open>
  The shared board of \<open>harness/skills/notes.py\<close>: the rows of its file, the verbs that write it and
  the readers. The identifier of a new note (\<open>uuid4\<close>) and the clock are arguments. A line of the
  file is a note or text that does not parse; \<open>_write_all\<close> replaces the file as a whole.
\<close>

record memo =
  n_id :: string
  n_title :: string
  n_body :: string
  n_category :: string
  n_colour :: string
  n_speaker :: string
  n_ts :: string
  n_updated :: string
  n_due :: string
  n_done :: bool
  n_raised :: bool
  n_lifecycle :: int
  n_src :: string
  n_watch :: string
  n_checked :: int
  n_last_checked :: string
  n_evidence :: string
  n_prev :: "(string option \<times> string option) option"

datatype nline = NoteLine memo | NoteJunk

record board =
  b_lines :: "nline list option"
  b_author :: string

definition CATEGORIES :: "string list" where
  "CATEGORIES = [''idea'', ''reminder'', ''task'', ''important'', ''note'', ''watch'']"

definition CATEGORY_COLOUR :: "(string \<times> string) list" where
  "CATEGORY_COLOUR = [(''idea'', ''#7dd3fc''), (''reminder'', ''#fbbf24''), (''task'', ''#4ade80''),
     (''important'', ''#f87171''), (''note'', ''#c084fc''), (''watch'', ''#2dd4bf'')]"

definition colour_for :: "string \<Rightarrow> string \<Rightarrow> string" where
  "colour_for cat dflt = (case map_of CATEGORY_COLOUR cat of None \<Rightarrow> dflt | Some c \<Rightarrow> c)"

fun notes_of :: "nline list \<Rightarrow> memo list" where
  "notes_of [] = []"
| "notes_of (NoteLine n # ls) = n # notes_of ls"
| "notes_of (NoteJunk # ls) = notes_of ls"

definition load_notes :: "board \<Rightarrow> memo list" where
  "load_notes b = (case b_lines b of None \<Rightarrow> [] | Some ls \<Rightarrow> notes_of ls)"

definition write_notes :: "memo list \<Rightarrow> board \<Rightarrow> board" where
  "write_notes rows b = b\<lparr>b_lines := Some (map NoteLine rows)\<rparr>"

definition note_author :: "string \<Rightarrow> board \<Rightarrow> board" where
  "note_author who b = b\<lparr>b_author := (if who = ''self'' then ''self'' else ''user'')\<rparr>"

section \<open>The readers\<close>

text \<open>\<open>sort(key, reverse=True)\<close> keeps the order of equal keys: reverse, sort, reverse.\<close>

definition sort_rev :: "('a \<Rightarrow> string) \<Rightarrow> 'a list \<Rightarrow> 'a list" where
  "sort_rev k xs = rev (sort_key k (rev xs))"

definition note_live :: "memo \<Rightarrow> bool" where
  "note_live n \<longleftrightarrow> n_lifecycle n = 0"

definition live_notes :: "board \<Rightarrow> memo list" where
  "live_notes b =
     sort_rev (\<lambda>n. if n_updated n \<noteq> [] then n_updated n else n_ts n) (filter note_live (load_notes b))"

definition get_note :: "string \<Rightarrow> board \<Rightarrow> memo option" where
  "get_note i b = find (\<lambda>n. n_id n = i) (load_notes b)"

definition is_due :: "string \<Rightarrow> bool \<Rightarrow> memo \<Rightarrow> bool" where
  "is_due now include_raised n \<longleftrightarrow>
     strip (n_due n) \<noteq> [] \<and> \<not> n_done n \<and> (include_raised \<or> \<not> n_raised n) \<and> strip (n_due n) \<le> now"

definition due_notes :: "string \<Rightarrow> bool \<Rightarrow> board \<Rightarrow> memo list" where
  "due_notes now include_raised b = sort_key n_due (filter (is_due now include_raised) (live_notes b))"

definition search_words :: "string \<Rightarrow> string list" where
  "search_words q = remdups (filter (\<lambda>w. 3 \<le> length w) (runs is_alnum (lower q)))"

definition hay_of :: "memo \<Rightarrow> string" where
  "hay_of n = lower (n_title n @ '' '' @ n_body n @ '' '' @ n_category n)"

definition search_notes :: "string \<Rightarrow> nat \<Rightarrow> board \<Rightarrow> memo list" where
  "search_notes query k b =
     (let q = search_words query in
      if q = [] then take k (live_notes b)
      else map snd (take k (rank_desc (filter (\<lambda>p. fst p \<noteq> 0)
             (map (\<lambda>n. (of_nat (length (filter (\<lambda>w. contains (hay_of n) w) q)) / of_nat (length q), n))
                (live_notes b))))))"

record note_stats =
  ns_total :: nat
  ns_live :: nat
  ns_removed :: nat
  ns_by_user :: nat
  ns_by_self :: nat
  ns_reminders :: nat
  ns_overdue :: nat

definition note_stats_of :: "string \<Rightarrow> board \<Rightarrow> note_stats" where
  "note_stats_of now b =
     (let rows = load_notes b; lv = filter note_live rows in
      \<lparr>ns_total = length rows, ns_live = length lv, ns_removed = length rows - length lv,
       ns_by_user = length (filter (\<lambda>n. n_speaker n = ''user'') lv),
       ns_by_self = length (filter (\<lambda>n. n_speaker n = ''self'') lv),
       ns_reminders = length (filter (\<lambda>n. n_due n \<noteq> [] \<and> \<not> n_done n) lv),
       ns_overdue = length (due_notes now True b)\<rparr>)"

section \<open>The verbs that write\<close>

record note_args =
  a_title :: string
  a_body :: string
  a_category :: string
  a_due :: string
  a_colour :: string
  a_speaker :: string
  a_watch :: string

definition category_of :: "note_args \<Rightarrow> string" where
  "category_of a =
     (let c0 = lower (strip (if a_category a = [] then ''note'' else a_category a));
          c1 = (if c0 \<notin> set CATEGORIES then ''note'' else c0);
          c2 = (if a_due a \<noteq> [] \<and> c1 = ''note'' then ''reminder'' else c1)
      in if a_watch a \<noteq> [] \<and> c2 \<in> {''note'', ''reminder''} then ''watch'' else c2)"

definition make_note :: "string \<Rightarrow> string \<Rightarrow> string \<Rightarrow> note_args \<Rightarrow> memo" where
  "make_note uuid now author a =
     (let cat = category_of a in
      \<lparr>n_id = take 12 uuid, n_title = take 120 (strip (a_title a)), n_body = strip (a_body a),
       n_category = cat, n_colour = (if a_colour a \<noteq> [] then a_colour a else colour_for cat ''#8b93a3''),
       n_speaker = (if a_speaker a \<noteq> [] then a_speaker a else author), n_ts = now, n_updated = now,
       n_due = strip (a_due a), n_done = False, n_raised = False, n_lifecycle = 0, n_src = ''note'',
       n_watch = strip (a_watch a), n_checked = 0, n_last_checked = [], n_evidence = [], n_prev = None\<rparr>)"

text \<open>\<open>None\<close> is the \<open>ValueError\<close> of a note without a title.\<close>

definition add_note :: "string \<Rightarrow> string \<Rightarrow> note_args \<Rightarrow> board \<Rightarrow> (memo \<times> board) option" where
  "add_note uuid now a b =
     (if strip (a_title a) = [] then None
      else (let n = make_note uuid now (b_author b) a in Some (n, write_notes (load_notes b @ [n]) b)))"

datatype nfield =
    UTitle string | UBody string | UCategory string | UColour string | UDue string | UDone bool
  | URaised bool | UWatch string | UChecked int | ULastChecked string | UEvidence string

fun set_field :: "nfield \<Rightarrow> memo \<Rightarrow> memo" where
  "set_field (UTitle v) n = n\<lparr>n_title := v\<rparr>"
| "set_field (UBody v) n = n\<lparr>n_body := v\<rparr>"
| "set_field (UCategory v) n = n\<lparr>n_category := v\<rparr>"
| "set_field (UColour v) n = n\<lparr>n_colour := v\<rparr>"
| "set_field (UDue v) n = n\<lparr>n_due := v\<rparr>"
| "set_field (UDone v) n = n\<lparr>n_done := v\<rparr>"
| "set_field (URaised v) n = n\<lparr>n_raised := v\<rparr>"
| "set_field (UWatch v) n = n\<lparr>n_watch := v\<rparr>"
| "set_field (UChecked v) n = n\<lparr>n_checked := v\<rparr>"
| "set_field (ULastChecked v) n = n\<lparr>n_last_checked := v\<rparr>"
| "set_field (UEvidence v) n = n\<lparr>n_evidence := v\<rparr>"

fun is_UTitle :: "nfield \<Rightarrow> bool" where
  "is_UTitle (UTitle v) = True"
| "is_UTitle f = False"

fun is_UBody :: "nfield \<Rightarrow> bool" where
  "is_UBody (UBody v) = True"
| "is_UBody f = False"

fun is_UCategory :: "nfield \<Rightarrow> bool" where
  "is_UCategory (UCategory v) = True"
| "is_UCategory f = False"

fun is_UColour :: "nfield \<Rightarrow> bool" where
  "is_UColour (UColour v) \<longleftrightarrow> v \<noteq> []"
| "is_UColour f = False"

definition edit_note :: "string \<Rightarrow> nfield list \<Rightarrow> memo \<Rightarrow> memo" where
  "edit_note now fs n =
     (let t = list_ex is_UTitle fs; b = list_ex is_UBody fs;
          n1 = fold set_field fs n;
          n2 = (if list_ex is_UCategory fs \<and> \<not> list_ex is_UColour fs
                then n1\<lparr>n_colour := colour_for (n_category n1) (n_colour n1)\<rparr> else n1);
          n3 = (if t \<or> b then n2\<lparr>n_prev := Some (if t then Some (n_title n) else None,
                                                if b then Some (n_body n) else None)\<rparr> else n2)
      in n3\<lparr>n_updated := now\<rparr>)"

definition update_note :: "string \<Rightarrow> string \<Rightarrow> nfield list \<Rightarrow> board \<Rightarrow> board" where
  "update_note now i fs b =
     (if \<exists>n \<in> set (load_notes b). n_id n = i
      then write_notes (update_first (\<lambda>n. n_id n = i) (edit_note now fs) (load_notes b)) b else b)"

definition remove_note :: "string \<Rightarrow> string \<Rightarrow> board \<Rightarrow> board" where
  "remove_note now i b =
     (if \<exists>n \<in> set (load_notes b). n_id n = i
      then write_notes (update_first (\<lambda>n. n_id n = i) (\<lambda>n. n\<lparr>n_lifecycle := 1, n_updated := now\<rparr>)
                          (load_notes b)) b
      else b)"

definition mark_raised :: "string \<Rightarrow> string \<Rightarrow> board \<Rightarrow> board" where
  "mark_raised now i b = update_note now i [URaised True] b"

section \<open>The board keeps what it was given\<close>

lemma notes_of_map [simp]: "notes_of (map NoteLine rows) = rows"
  by (induction rows) auto

lemma load_write [simp]: "load_notes (write_notes rows b) = rows"
  by (simp add: load_notes_def write_notes_def)

datatype note_op =
    AddNote string string note_args
  | UpdateNote string string "nfield list"
  | RemoveNote string string
  | MarkRaised string string
  | NoteAuthor string

fun note_step :: "note_op \<Rightarrow> board \<Rightarrow> board" where
  "note_step (AddNote u now a) b = (case add_note u now a b of None \<Rightarrow> b | Some (n, b') \<Rightarrow> b')"
| "note_step (UpdateNote now i fs) b = update_note now i fs b"
| "note_step (RemoveNote now i) b = remove_note now i b"
| "note_step (MarkRaised now i) b = mark_raised now i b"
| "note_step (NoteAuthor who) b = note_author who b"

definition note_ident :: "memo \<Rightarrow> string \<times> string \<times> string \<times> string" where
  "note_ident n = (n_id n, n_ts n, n_speaker n, n_src n)"

lemma set_field_ident [simp]:
  "note_ident (set_field f n) = note_ident n" "n_lifecycle (set_field f n) = n_lifecycle n"
  by (cases f; simp add: note_ident_def)+

lemma fold_set_field [simp]:
  "note_ident (fold set_field fs n) = note_ident n" "n_lifecycle (fold set_field fs n) = n_lifecycle n"
  by (induction fs arbitrary: n) simp_all

lemma edit_note_ident [simp]:
  "note_ident (edit_note now fs n) = note_ident n" "n_lifecycle (edit_note now fs n) = n_lifecycle n"
proof -
  have u: "note_ident (m\<lparr>n_updated := a\<rparr>) = note_ident m" "note_ident (m\<lparr>n_prev := p\<rparr>) = note_ident m"
    "note_ident (m\<lparr>n_colour := c\<rparr>) = note_ident m" for m a p c
    by (simp_all add: note_ident_def)
  show "note_ident (edit_note now fs n) = note_ident n" by (simp add: edit_note_def Let_def u)
  show "n_lifecycle (edit_note now fs n) = n_lifecycle n" by (simp add: edit_note_def Let_def)
qed

lemma load_author: "load_notes (note_author who b) = load_notes b"
  by (simp add: note_author_def load_notes_def)

lemma update_note_rows:
  "load_notes (update_note now i fs b) = update_first (\<lambda>n. n_id n = i) (edit_note now fs) (load_notes b)"
  by (auto simp: update_note_def update_first_none)

lemma remove_note_rows:
  "load_notes (remove_note now i b) =
     update_first (\<lambda>n. n_id n = i) (\<lambda>n. n\<lparr>n_lifecycle := 1, n_updated := now\<rparr>) (load_notes b)"
  by (auto simp: remove_note_def update_first_none)

lemma note_step_keeps: "\<exists>extra. map note_ident (load_notes (note_step a b)) = map note_ident (load_notes b) @ extra"
proof (cases a)
  case (AddNote u now args)
  then show ?thesis by (auto simp: add_note_def Let_def)
next
  case (RemoveNote now i)
  have "note_ident (n\<lparr>n_lifecycle := 1, n_updated := now\<rparr>) = note_ident n" for n
    by (simp add: note_ident_def)
  then show ?thesis by (simp add: RemoveNote remove_note_rows map_update_first)
qed (simp_all add: update_note_rows mark_raised_def map_update_first load_author)

lemma nth_update_cases:
  "i < length xs \<Longrightarrow> update_first P g xs ! i = xs ! i \<or> update_first P g xs ! i = g (xs ! i)"
proof (induction xs arbitrary: i)
  case (Cons x xs)
  then show ?case by (cases i) auto
qed simp

lemma note_step_dead:
  assumes "i < length (load_notes b)" "\<not> note_live (load_notes b ! i)"
  shows "\<not> note_live (load_notes (note_step a b) ! i)"
proof (cases a)
  case (AddNote u now args)
  then show ?thesis using assms by (auto simp: add_note_def Let_def nth_append)
next
  case (UpdateNote now j fs)
  then show ?thesis
    using nth_update_cases [OF assms(1), of "\<lambda>n. n_id n = j" "edit_note now fs"] assms(2)
    by (auto simp: update_note_rows note_live_def)
next
  case (RemoveNote now j)
  then show ?thesis
    using nth_update_cases [OF assms(1), of "\<lambda>n. n_id n = j" "\<lambda>n. n\<lparr>n_lifecycle := 1, n_updated := now\<rparr>"] assms(2)
    by (auto simp: remove_note_rows note_live_def)
next
  case (MarkRaised now j)
  then show ?thesis
    using nth_update_cases [OF assms(1), of "\<lambda>n. n_id n = j" "edit_note now [URaised True]"] assms(2)
    by (auto simp: update_note_rows mark_raised_def note_live_def)
next
  case (NoteAuthor who)
  then show ?thesis using assms by (simp add: note_author_def load_notes_def)
qed

interpretation noteboard: tombstone_store note_step load_notes note_ident "\<lambda>n. \<not> note_live n"
  by unfold_locales (rule note_step_keeps, rule note_step_dead)

section \<open>A reminder fires once\<close>

lemma set_live_notes [simp]: "set (live_notes b) = {n \<in> set (load_notes b). note_live n}"
  by (simp add: live_notes_def sort_rev_def)

lemma due_notes_exact:
  "set (due_notes now inc b) = {n \<in> set (load_notes b). note_live n \<and> is_due now inc n}
   \<and> sorted (map n_due (due_notes now inc b))"
  by (auto simp: due_notes_def)

lemma edit_raised [simp]:
  "n_raised (edit_note now [URaised v] n) = v" "n_id (edit_note now [URaised v] n) = n_id n"
  by (simp_all add: edit_note_def)

lemma update_first_distinct:
  assumes "distinct (map k xs)" and "\<And>x. k (g x) = k x" and "y \<in> set (update_first (\<lambda>x. k x = i) g xs)" "k y = i"
  shows "\<exists>x \<in> set xs. y = g x"
  using assms
proof (induction xs)
  case (Cons x xs)
  then show ?case by (cases "k x = i") (auto simp: image_iff)
qed simp

lemma raised_not_due:
  assumes "distinct (map n_id (load_notes b))"
  shows "\<forall>n \<in> set (due_notes t False (mark_raised now i b)). n_id n \<noteq> i"
proof
  fix n assume n: "n \<in> set (due_notes t False (mark_raised now i b))"
  then have m: "n \<in> set (update_first (\<lambda>n. n_id n = i) (edit_note now [URaised True]) (load_notes b))"
    and r: "\<not> n_raised n"
    using due_notes_exact [of t False "mark_raised now i b"]
    by (auto simp: mark_raised_def update_note_rows is_due_def)
  show "n_id n \<noteq> i"
    using update_first_distinct [OF assms _ m] r by auto
qed

section \<open>Properties\<close>

text \<open>
  C25. The board keeps what it was given: over any sequence of adds, edits, removals, raisings and
  changes of author every old note is still at its place with its id, creation stamp, speaker and
  source, and a removed note stays removed; a note without a title is refused; and what is due at an
  instant is exactly the live, open, unraised notes whose date has come, earliest first.
\<close>

theorem board_never_destroys:
  "(i < length (load_notes b) \<longrightarrow> length (load_notes b) \<le> length (load_notes (fold note_step ops b))
      \<and> note_ident (load_notes (fold note_step ops b) ! i) = note_ident (load_notes b ! i)
      \<and> (\<not> note_live (load_notes b ! i) \<longrightarrow> \<not> note_live (load_notes (fold note_step ops b) ! i)))
    \<and> (add_note uuid now a b = None \<longleftrightarrow> strip (a_title a) = [])
    \<and> set (due_notes now False b) = {n \<in> set (load_notes b). note_live n \<and> is_due now False n}
    \<and> sorted (map n_due (due_notes now False b))"
  using noteboard.run_length [of b ops] noteboard.run_ident [of i b ops] noteboard.run_dead [of i b ops]
    due_notes_exact [of now False b]
  by (simp add: add_note_def Let_def)

definition demo_args :: note_args where
  "demo_args = \<lparr>a_title = ''milk'', a_body = [], a_category = [], a_due = ''2030'', a_colour = [], a_speaker = [], a_watch = []\<rparr>"

definition demo_board :: board where
  "demo_board = note_step (AddNote ''n1'' ''2026'' demo_args) \<lparr>b_lines = None, b_author = ''user''\<rparr>"

theorem board_never_destroys_witness:
  "note_ident (load_notes (fold note_step [RemoveNote ''2027'' ''n1'', UpdateNote ''2028'' ''n1'' [UTitle ''bread'']] demo_board) ! 0)
     = (''n1'', ''2026'', ''user'', ''note'')"
proof -
  have "0 < length (load_notes demo_board)" by code_simp
  moreover have "note_ident (load_notes demo_board ! 0) = (''n1'', ''2026'', ''user'', ''note'')" by code_simp
  ultimately show ?thesis 
    using board_never_destroys [of 0 demo_board "[RemoveNote ''2027'' ''n1'', UpdateNote ''2028'' ''n1'' [UTitle ''bread'']]"] by simp
qed

end
