(* ===== verification/Watch.thy ===== *)
theory Watch imports Notes begin

text \<open>
  The watches of \<open>harness/skills/watch.py\<close>: a note whose trigger is a question. The web search and
  the judge (the served model, or a substitute) are parameters; the clock is an argument.
\<close>

record hit =
  h_title :: string
  h_snippet :: string
  h_url :: string

definition due_checks :: "real \<Rightarrow> real \<Rightarrow> board \<Rightarrow> memo list" where
  "due_checks now every_hours b =
     filter (\<lambda>r. n_category r = ''watch'' \<and> n_watch r \<noteq> [] \<and> \<not> n_done r
        \<and> (n_last_checked r = []
           \<or> (case read_stamp (n_last_checked r) of None \<Rightarrow> True
              | Some t \<Rightarrow> every_hours * 3600 \<le> now - of_int t)))
       (live_notes b)"

definition real_hits :: "hit list \<Rightarrow> hit list" where
  "real_hits hits = filter (\<lambda>h. h_url h \<noteq> [] \<and> \<not> startswith (h_title h) ''[search error'') hits"

definition evidence_text :: "hit list \<Rightarrow> string" where
  "evidence_text hs =
     join nl (map (\<lambda>h. ''- '' @ h_title h @ nl @ ''  '' @ take 160 (h_snippet h) @ nl @ ''  '' @ h_url h) (take 4 hs))"

definition claim_words :: "string \<Rightarrow> string list" where
  "claim_words claimed =
     filter (\<lambda>w. 3 < length w)
       (py_split (map (\<lambda>c. if is_alnum c \<or> is_space c then lower_char c else CHR '' '') claimed))"

text \<open>At least six of every ten long words of the claim occur in the evidence.\<close>

definition grounded :: "string \<Rightarrow> string \<Rightarrow> bool" where
  "grounded claimed evid =
     (let ws = claim_words claimed; h = length (filter (\<lambda>w. contains (lower evid) w) ws) in
      ws \<noteq> [] \<and> 6 * length ws \<le> 10 * h)"

datatype check_result =
    NotAWatch
  | SearchEmpty
  | Checked bool string string "hit list"

definition check ::
  "real \<Rightarrow> (string \<Rightarrow> hit list) \<Rightarrow> (string \<Rightarrow> string \<Rightarrow> bool \<times> string) \<Rightarrow> memo \<Rightarrow> board \<Rightarrow> check_result \<times> board"
  where
  "check now web judge n b =
     (let q = strip (n_watch n) in
      if q = [] then (NotAWatch, b)
      else
        let results = real_hits (web q);
            b1 = update_note (stamp_of now) (n_id n) [UChecked (n_checked n + 1), ULastChecked (stamp_of now)] b
        in if results = [] then (SearchEmpty, b1)
           else
             let evid = evidence_text results;
                 (said, why) = judge q evid;
                 fired = (said \<and> grounded why evid);
                 why' = (if said \<and> \<not> fired then ''she said yes but could not point at the line that proves it'' else why)
             in (Checked fired why' evid (take 4 results),
                 if fired then update_note (stamp_of now) (n_id n) [UEvidence evid, URaised False] b1 else b1))"

text \<open>\<open>_judge\<close>: the parse of the served model's one-shot answer \<open>txt\<close>.\<close>

definition lstrip_marks :: "string \<Rightarrow> string" where
  "lstrip_marks s = dropWhile (\<lambda>c. c = CHR '':'' \<or> c = CHR '' '') s"

definition parse_judgement :: "string \<Rightarrow> bool \<times> string" where
  "parse_judgement txt =
     (let h = strip (hd (split_on (\<lambda>c. c = CHR 0x0A) (strip txt)));
          rest = strip (lstrip_marks (drop 3 h)) in
      if startswith (lower h) ''yes''
      then (if length rest < 8 then (False, ''she said yes but quoted nothing'') else (True, rest))
      else (False, if rest = [] then ''not yet'' else rest))"

text \<open>The tick of the scheduler looks at one stale watch; a watch that fires becomes due now.\<close>

definition watch_tick ::
  "real \<Rightarrow> (string \<Rightarrow> hit list) \<Rightarrow> (string \<Rightarrow> string \<Rightarrow> bool \<times> string) \<Rightarrow> board \<Rightarrow> board" where
  "watch_tick now web judge b =
     (case due_checks now 6 b of
        [] \<Rightarrow> b
      | n # _ \<Rightarrow>
          (case check now web judge n b of
             (Checked True why evid hs, b') \<Rightarrow>
               update_note (stamp_of now) (n_id n) [UDue (stamp_of now), URaised False] b'
           | (r, b') \<Rightarrow> b'))"

section \<open>She looks, shows what she saw, and can say no\<close>

lemma fired_grounded:
  assumes "check now web judge n b = (Checked True why evid hs, b')"
  shows "evid = evidence_text (real_hits (web (strip (n_watch n)))) \<and> hs \<noteq> []
    \<and> judge (strip (n_watch n)) evid = (True, why) \<and> grounded why evid"
  using assms by (auto simp: check_def Let_def split: if_splits prod.splits)

lemma edit_checked [simp]:
  "n_checked (edit_note t [UChecked c, ULastChecked s] n) = c"
  "n_last_checked (edit_note t [UChecked c, ULastChecked s] n) = s"
  "n_id (edit_note t [UChecked c, ULastChecked s] n) = n_id n"
  "n_watch (edit_note t [UChecked c, ULastChecked s] n) = n_watch n"
  by (simp_all add: edit_note_def)

lemma edit_evidence [simp]:
  "n_checked (edit_note t [UEvidence e, URaised r] n) = n_checked n"
  "n_last_checked (edit_note t [UEvidence e, URaised r] n) = n_last_checked n"
  "n_id (edit_note t [UEvidence e, URaised r] n) = n_id n"
  by (simp_all add: edit_note_def)

text \<open>Every look is counted and stamped on the note that was looked for.\<close>

lemma update_first_all:
  "distinct (map k xs) \<Longrightarrow> (\<And>x. k (g x) = k x) \<Longrightarrow>
   update_first (\<lambda>x. k x = i) g xs = map (\<lambda>x. if k x = i then g x else x) xs"
proof (induction xs)
  case (Cons x xs)
  then show ?case by (cases "k x = i") (auto simp: image_iff intro!: map_idI [symmetric])
qed simp

lemma check_counts:
  assumes "distinct (map n_id (load_notes b))" "n \<in> set (load_notes b)" "strip (n_watch n) \<noteq> []"
    and "check now web judge n b = (r, b')" and "m \<in> set (load_notes b')" "n_id m = n_id n"
  shows "n_checked m = n_checked n + 1 \<and> n_last_checked m = stamp_of now"
proof -
  let ?g = "edit_note (stamp_of now) [UChecked (n_checked n + 1), ULastChecked (stamp_of now)]"
  let ?b1 = "update_note (stamp_of now) (n_id n) [UChecked (n_checked n + 1), ULastChecked (stamp_of now)] b"
  have b1: "n_checked x = n_checked n + 1 \<and> n_last_checked x = stamp_of now"
    if x: "x \<in> set (load_notes ?b1)" "n_id x = n_id n" for x
    using update_first_distinct [OF assms(1), of ?g x "n_id n"] x by (auto simp: update_note_rows)
  have "b' = ?b1 \<or> (\<exists>e. b' = update_note (stamp_of now) (n_id n) [UEvidence e, URaised False] ?b1)"
    using assms(3,4) by (auto simp: check_def Let_def split: if_splits prod.splits)
  then show ?thesis
  proof
    assume "b' = ?b1"
    then show ?thesis using b1 assms(5,6) by simp
  next
    assume "\<exists>e. b' = update_note (stamp_of now) (n_id n) [UEvidence e, URaised False] ?b1"
    then obtain e where b': "b' = update_note (stamp_of now) (n_id n) [UEvidence e, URaised False] ?b1" ..
    have "map n_id (load_notes ?b1) = map n_id (load_notes b)"
      by (simp add: update_note_rows map_update_first)
    then have "distinct (map n_id (load_notes ?b1))" using assms(1) by simp
    then obtain x where "x \<in> set (load_notes ?b1)" "m = edit_note (stamp_of now) [UEvidence e, URaised False] x"
      using update_first_distinct [of n_id "load_notes ?b1" "edit_note (stamp_of now) [UEvidence e, URaised False]" m "n_id n"]
        assms(5,6) by (auto simp: b' update_note_rows [of _ _ _ ?b1])
    then show ?thesis using b1 assms(6) by simp
  qed
qed

text \<open>A watch just looked at is not due again before its six hours are over.\<close>

lemma checked_not_due:
  assumes "0 \<le> now" "tm_year (gmtime \<lfloor>now\<rfloor>) \<le> 9999" and "n_last_checked m = stamp_of now"
    and "later - of_int \<lfloor>now\<rfloor> < hours * 3600"
  shows "m \<notin> set (due_checks later hours b)"
proof -
  have "stamp_of now \<noteq> []" by (simp add: stamp_of_def strftime_def strftime_day_def dec4_def dec2_def)
  then show ?thesis using read_stamp_of [OF assms(1,2)] assms(3,4) by (simp add: due_checks_def)
qed

section \<open>A watch that fires is a due reminder\<close>

lemma strip_ends: "\<not> is_space a \<Longrightarrow> \<not> is_space z \<Longrightarrow> strip (a # xs @ [z]) = a # xs @ [z]"
  by (rule strip_ends_id) simp_all

lemma strip_stamp:
  assumes "0 \<le> now" "tm_year (gmtime \<lfloor>now\<rfloor>) \<le> 9999"
  shows "strip (stamp_of now) = stamp_of now"
proof -
  let ?y = "tm_year (gmtime \<lfloor>now\<rfloor>)"
  have y: "1970 \<le> ?y" using gmtime_ok(6) [of "\<lfloor>now\<rfloor>"] assms(1) by simp
  have "list_all is_digit (dec4 ?y)" using dec4_digits [of ?y] y assms(2) by simp
  then have d: "is_digit (digit (?y div 100 div 10))" by (simp add: dec4_def dec2_def)
  have "\<not> is_space (digit (?y div 100 div 10))" using d by (simp add: is_digit_def is_space_def)
  moreover have "\<not> is_space CHR ''Z''" by (simp add: is_space_def code_def)
  moreover obtain xs where "stamp_of now = digit (?y div 100 div 10) # xs @ [CHR ''Z'']"
    by (simp add: stamp_of_def strftime_def strftime_day_def dec4_def dec2_def)
  ultimately show ?thesis using strip_ends by simp
qed

lemma edit_due [simp]:
  "n_due (edit_note t [UDue d, URaised r] n) = d" "n_raised (edit_note t [UDue d, URaised r] n) = r"
  "n_id (edit_note t [UDue d, URaised r] n) = n_id n" "n_done (edit_note t [UDue d, URaised r] n) = n_done n"
  by (simp_all add: edit_note_def)

lemma edit_done [simp]:
  "n_done (edit_note t [UChecked c, ULastChecked s] n) = n_done n"
  "n_done (edit_note t [UEvidence e, URaised r] n) = n_done n"
  by (simp_all add: edit_note_def)

lemma update_member:
  assumes "m \<in> set (load_notes b)" "distinct (map n_id (load_notes b))"
    and "\<And>x. n_id (edit_note t fs x) = n_id x"
  shows "edit_note t fs m \<in> set (load_notes (update_note t (n_id m) fs b))"
    and "distinct (map n_id (load_notes (update_note t i fs b)))"
proof -
  have "load_notes (update_note t (n_id m) fs b) = map (\<lambda>x. if n_id x = n_id m then edit_note t fs x else x) (load_notes b)"
    unfolding update_note_rows by (rule update_first_all [OF assms(2,3)])
  then show "edit_note t fs m \<in> set (load_notes (update_note t (n_id m) fs b))"
    using assms(1) by force
  have "map n_id (load_notes (update_note t i fs b)) = map n_id (load_notes b)"
    by (simp add: update_note_rows map_update_first assms(3))
  then show "distinct (map n_id (load_notes (update_note t i fs b)))" using assms(2) by simp
qed

lemma fired_is_due:
  assumes "0 \<le> now" "tm_year (gmtime \<lfloor>now\<rfloor>) \<le> 9999" and "distinct (map n_id (load_notes b))"
    and "due_checks now 6 b = n # rest" and "check now web judge n b = (Checked True why evid hs, b')"
  shows "\<exists>m \<in> set (due_notes (stamp_of now) False (watch_tick now web judge b)). n_id m = n_id n"
proof -
  have "n \<in> set (due_checks now 6 b)" by (simp add: assms(4))
  then have n: "n \<in> set (load_notes b)" "note_live n" "\<not> n_done n"
    by (simp_all add: due_checks_def)
  define g1 where "g1 = edit_note (stamp_of now) [UChecked (n_checked n + 1), ULastChecked (stamp_of now)]"
  define g2 where "g2 = edit_note (stamp_of now) [UEvidence evid, URaised False]"
  define g3 where "g3 = edit_note (stamp_of now) [UDue (stamp_of now), URaised False]"
  let ?b1 = "update_note (stamp_of now) (n_id n) [UChecked (n_checked n + 1), ULastChecked (stamp_of now)] b"
  have b': "b' = update_note (stamp_of now) (n_id n) [UEvidence evid, URaised False] ?b1"
    using assms(5) by (auto simp: check_def Let_def split: if_splits prod.splits)
  have t: "watch_tick now web judge b = update_note (stamp_of now) (n_id n) [UDue (stamp_of now), URaised False] b'"
    by (simp add: watch_tick_def assms(4,5))
  note m1 = update_member [OF n(1) assms(3), of "stamp_of now" "[UChecked (n_checked n + 1), ULastChecked (stamp_of now)]", simplified]
  note m2 = update_member [OF m1(1) m1(2) [of "n_id n"], of "stamp_of now" "[UEvidence evid, URaised False]", simplified]
  note m3 = update_member [OF m2(1) m2(2) [of "n_id n"], of "stamp_of now" "[UDue (stamp_of now), URaised False]", simplified]
  let ?m = "g3 (g2 (g1 n))"
  have mem: "?m \<in> set (load_notes (watch_tick now web judge b))"
    using m3(1) by (simp add: t b' g1_def g2_def g3_def)
  have "stamp_of now \<noteq> []" by (simp add: stamp_of_def strftime_def strftime_day_def dec4_def dec2_def)
  then have "is_due (stamp_of now) False ?m"
    using n(3) strip_stamp [OF assms(1,2)] by (simp add: is_due_def g1_def g2_def g3_def)
  moreover have "note_live ?m" using n(2) by (simp add: note_live_def g1_def g2_def g3_def)
  moreover have "n_id ?m = n_id n" by (simp add: g1_def g2_def g3_def)
  ultimately show ?thesis using mem due_notes_exact [of "stamp_of now" False "watch_tick now web judge b"] by blast
qed

section \<open>Properties\<close>

text \<open>
  C26. A watch that fires saw something: when the tick's look at a stale watch fires, there were real
  results, the judge said yes to exactly the evidence built from them and its reason is grounded in that
  evidence; the look is counted and stamped on the note; and after the tick the note is a due
  reminder. A watch looked at is not looked at again before its hours are over.
\<close>

theorem watch_fires_on_evidence:
  assumes "0 \<le> now" "tm_year (gmtime \<lfloor>now\<rfloor>) \<le> 9999" and "distinct (map n_id (load_notes b))"
    and "due_checks now 6 b = n # rest" and "check now web judge n b = (Checked True why evid hs, b')"
  shows "hs \<noteq> [] \<and> evid = evidence_text (real_hits (web (strip (n_watch n)))) \<and> judge (strip (n_watch n)) evid = (True, why)
    \<and> grounded why evid
    \<and> (\<forall>m \<in> set (load_notes b'). n_id m = n_id n \<longrightarrow> n_checked m = n_checked n + 1 \<and> n_last_checked m = stamp_of now)
    \<and> (\<exists>m \<in> set (due_notes (stamp_of now) False (watch_tick now web judge b)). n_id m = n_id n)
    \<and> (\<forall>m later hours. n_last_checked m = stamp_of now \<longrightarrow> later - of_int \<lfloor>now\<rfloor> < hours * 3600
         \<longrightarrow> m \<notin> set (due_checks later hours b'))"
proof -
  have n: "n \<in> set (load_notes b)" "strip (n_watch n) \<noteq> []"
  proof -
    have "n \<in> set (due_checks now 6 b)" by (simp add: assms(4))
    then show "n \<in> set (load_notes b)" by (simp add: due_checks_def)
    show "strip (n_watch n) \<noteq> []" using assms(5) by (auto simp: check_def Let_def split: if_splits)
  qed
  show ?thesis
    using fired_grounded [OF assms(5)] fired_is_due [OF assms] check_counts [OF assms(3) n assms(5)]
      checked_not_due [OF assms(1,2)] by blast
qed

definition demo_hit :: hit where
  "demo_hit = \<lparr>h_title = ''RTX 3090 in stock'', h_snippet = ''RTX 3090 available today'', h_url = ''shop''\<rparr>"

definition demo_watch :: board where
  "demo_watch = note_step (AddNote ''n1'' ''2026'' (demo_args\<lparr>a_due := [], a_watch := ''3090''\<rparr>)) \<lparr>b_lines = None, b_author = ''user''\<rparr>"

theorem watch_fires_on_evidence_witness:
  "\<exists>m \<in> set (due_notes (stamp_of 0) False
      (watch_tick 0 (\<lambda>q. [demo_hit]) (\<lambda>q e. (True, ''RTX 3090 available today'')) demo_watch)). n_id m = ''n1''"
proof -
  let ?web = "\<lambda>q :: string. [demo_hit]" and ?judge = "\<lambda>q e :: string. (True, ''RTX 3090 available today'')"
  have y: "tm_year (gmtime \<lfloor>0 :: real\<rfloor>) \<le> 9999" by code_simp
  have "map n_id (load_notes demo_watch) = [''n1'']" by code_simp
  then have d: "distinct (map n_id (load_notes demo_watch))" by simp
  have c: "due_checks 0 6 demo_watch = [load_notes demo_watch ! 0]" by code_simp
  have f: "\<exists>why evid hs b'. check 0 ?web ?judge (load_notes demo_watch ! 0) demo_watch = (Checked True why evid hs, b')"
  proof -
    have "case fst (check 0 ?web ?judge (load_notes demo_watch ! 0) demo_watch) of Checked f why evid hs \<Rightarrow> f | other \<Rightarrow> False"
      by code_simp
    then show ?thesis
      by (cases "check 0 ?web ?judge (load_notes demo_watch ! 0) demo_watch") (auto split: check_result.splits)
  qed
  have i: "n_id (load_notes demo_watch ! 0) = ''n1''" by code_simp
  from f obtain why evid hs b' where "check 0 ?web ?judge (load_notes demo_watch ! 0) demo_watch = (Checked True why evid hs, b')"
    by blast
  from watch_fires_on_evidence [OF order_refl y d c this]
  have "\<exists>m \<in> set (due_notes (stamp_of 0) False (watch_tick 0 ?web ?judge demo_watch)). n_id m = n_id (load_notes demo_watch ! 0)"
    by (elim conjE)
  then show ?thesis unfolding i .
qed

end
