(* ===== verification/Impulse.thy ===== *)
theory Impulse imports PyRegex Rows Contracts begin

text \<open>
  The speaking policy of \<open>harness/kairos/impulse.py\<close>: pure functions of the configuration, the state
  of one conversation, the clock and the random draws. Reasons are values of \<open>why\<close>, one constructor
  for each reason of the source. A missing margin and NaN are both \<open>None\<close>.
\<close>

datatype action = Silent | Continue | CheckIn | Remind | Muse

datatype why =
    Disabled
  | Cooldown real
  | HourlyCap nat int
  | DueReminder string
  | ChainLimit int int
  | AskedQuestion
  | WorkedOut real string
  | CutOff
  | EdgeOfThought real real
  | Quiet real
  | NothingToAdd

record impulse =
  i_action :: action
  i_delay :: real
  i_why :: why
  i_score :: real

record kcfg =
  k_enabled :: bool
  k_margin :: real
  k_max_chain :: int
  k_cooldown :: real
  k_max_per_hour :: int
  k_cont_delay :: "real \<times> real"
  k_idle :: real
  k_checkin_delay :: "real \<times> real"
  k_chance :: real

definition default_cfg :: kcfg where
  "default_cfg = \<lparr>k_enabled = False, k_margin = - 1175 / 100, k_max_chain = 1, k_cooldown = 45,
     k_max_per_hour = 6, k_cont_delay = (15 / 10, 4), k_idle = 240, k_checkin_delay = (2, 6),
     k_chance = 35 / 100\<rparr>"

record turn =
  t_chain :: int
  t_spoke :: real
  t_user :: real
  t_times :: "real list"

definition fresh_turn :: turn where
  "fresh_turn = \<lparr>t_chain = 0, t_spoke = 0, t_user = 0, t_times = []\<rparr>"

text \<open>The random source: \<open>uniform(lo, hi)\<close> and \<open>random()\<close>, one draw each at most in a decision.\<close>

record rng =
  d_uniform :: "real \<Rightarrow> real \<Rightarrow> real"
  d_random :: real

text \<open>The insight a reflection hands over; a reminder as its title and body.\<close>

record insight =
  x_text :: string
  x_bits :: real
  x_silence :: "(string \<times> real) option"

definition speaks :: "impulse \<Rightarrow> bool" where
  "speaks i \<longleftrightarrow> i_action i \<noteq> Silent"

definition silent :: "why \<Rightarrow> impulse" where
  "silent w = \<lparr>i_action = Silent, i_delay = 0, i_why = w, i_score = 0\<rparr>"

definition QUESTION :: rx where
  "QUESTION = Al (seqs [lit ''?'', sp0, Eos])
     (seqs [lit ''?'', St (Cls (\<lambda>c. c = CHR 0x22 \<or> c = CHR 0x27 \<or> c = CHR '')'' \<or> c = CHR '']'')), sp0, Eos])"

definition asked_a_question :: "string \<Rightarrow> bool" where
  "asked_a_question t \<longleftrightarrow> found QUESTION (strip t)"

definition recent :: "turn \<Rightarrow> real \<Rightarrow> nat" where
  "recent st now = length (filter (\<lambda>t. now - t < 3600) (t_times st))"

definition urgency :: "kcfg \<Rightarrow> real \<Rightarrow> real" where
  "urgency cfg margin = max 0 (min 1 ((k_margin cfg - margin) / max (k_margin cfg) (1 / 1000000)))"

definition decide ::
  "kcfg \<Rightarrow> turn \<Rightarrow> real \<Rightarrow> string \<Rightarrow> real option \<Rightarrow> bool \<Rightarrow> rng \<Rightarrow> (string \<times> string) list \<Rightarrow> insight option
     \<Rightarrow> impulse" where
  "decide cfg st now reply margin user_present rng due ins =
     (if \<not> k_enabled cfg then silent Disabled
      else if t_spoke st \<noteq> 0 \<and> now - t_spoke st < k_cooldown cfg
      then silent (Cooldown (k_cooldown cfg - (now - t_spoke st)))
      else if k_max_per_hour cfg \<le> int (recent st now) then silent (HourlyCap (recent st now) (k_max_per_hour cfg))
      else if due \<noteq> []
      then \<lparr>i_action = Remind, i_delay = (case k_checkin_delay cfg of (lo, hi) \<Rightarrow> d_uniform rng lo hi),
            i_why = DueReminder (strip (fst (hd due))), i_score = of_nat (length due)\<rparr>
      else if k_max_chain cfg \<le> t_chain st then silent (ChainLimit (t_chain st) (k_max_chain cfg))
      else if asked_a_question reply then silent AskedQuestion
      else (case ins of
              Some x \<Rightarrow>
                \<lparr>i_action = Muse, i_delay = (case k_checkin_delay cfg of (lo, hi) \<Rightarrow> d_uniform rng lo hi),
                 i_why = WorkedOut (x_bits x) (take 60 (x_text x)), i_score = x_bits x\<rparr>
            | None \<Rightarrow>
                (case margin of
                   Some m \<Rightarrow>
                     if m < k_margin cfg
                     then (case k_cont_delay cfg of (lo, hi) \<Rightarrow>
                       \<lparr>i_action = Continue, i_delay = hi - (hi - lo) * urgency cfg m,
                        i_why = (if m \<le> 0 then CutOff else EdgeOfThought m (k_margin cfg)), i_score = m\<rparr>)
                     else if user_present \<and> t_user st \<noteq> 0 \<and> k_idle cfg \<le> now - t_user st \<and> d_random rng < k_chance cfg
                     then \<lparr>i_action = CheckIn, i_delay = (case k_checkin_delay cfg of (lo, hi) \<Rightarrow> d_uniform rng lo hi),
                           i_why = Quiet (now - t_user st), i_score = now - t_user st\<rparr>
                     else silent NothingToAdd
                 | None \<Rightarrow>
                     if user_present \<and> t_user st \<noteq> 0 \<and> k_idle cfg \<le> now - t_user st \<and> d_random rng < k_chance cfg
                     then \<lparr>i_action = CheckIn, i_delay = (case k_checkin_delay cfg of (lo, hi) \<Rightarrow> d_uniform rng lo hi),
                           i_why = Quiet (now - t_user st), i_score = now - t_user st\<rparr>
                     else silent NothingToAdd)))"

section \<open>The last gate\<close>

definition OPENERS :: "string list" where
  "OPENERS = [''hi'', ''hey'', ''hello'', ''sorry'', ''as i said'', ''as mentioned'', ''just checking'',
     ''are you still'', ''let me know if'']"

definition FRAMINGS :: "string list" where
  "FRAMINGS = [''from the record'', ''fact on record'', ''you said:'', ''you told me:'',
     ''according to my memory'', ''in my memory'']"

datatype worth = Worth | NothingAfterAll | FillerOpener string | Recited | Restatement

definition thought_toks :: "string \<Rightarrow> string set" where
  "thought_toks s =
     set (filter (\<lambda>w. 3 < length w) (runs (\<lambda>c. is_lower c \<or> is_digit c \<or> c = CHR 0x27) (lower s)))"

definition low_start :: "string \<Rightarrow> string" where
  "low_start t = dropWhile (\<lambda>c. c \<in> set ''*_ ('') (lower (strip t))"

definition worth_saying :: "string \<Rightarrow> string \<Rightarrow> worth" where
  "worth_saying continuation previous_reply =
     (let t = strip continuation;
          low = low_start continuation;
          a = thought_toks t; b = thought_toks previous_reply in
      if length t < 2 then NothingAfterAll
      else case find (startswith low) OPENERS of
             Some op \<Rightarrow> FillerOpener op
           | None \<Rightarrow>
               if \<exists>f \<in> set FRAMINGS. startswith low f then Recited
               else if a \<noteq> {} \<and> b \<noteq> {} \<and> 3 * card a \<le> 4 * card (a \<inter> b) then Restatement
               else Worth)"

section \<open>What the conversation remembers\<close>

definition note_spoke :: "turn \<Rightarrow> real \<Rightarrow> turn" where
  "note_spoke st now =
     st\<lparr>t_chain := t_chain st + 1, t_spoke := now,
        t_times := filter (\<lambda>t. now - t < 3600) (t_times st @ [now])\<rparr>"

definition note_user :: "turn \<Rightarrow> real \<Rightarrow> turn" where
  "note_user st now = st\<lparr>t_chain := 0, t_user := now\<rparr>"

text \<open>What the nudges put in front of her: her last words, and the reminders.\<close>

definition last_words :: "string \<Rightarrow> string" where
  "last_words reply = (let ws = py_split reply in join '' '' (drop (length ws - 14) ws))"

definition remind_lines :: "(string \<times> string) list \<Rightarrow> string" where
  "remind_lines notes =
     join nl (map (\<lambda>(t, b). ''  - '' @ strip t @ (if strip b \<noteq> [] then '' ('' @ strip b @ '')'' else []))
       (take 3 notes))"

section \<open>Silence is the default\<close>

lemma speaks_silent [simp]: "\<not> speaks (silent w)"
  by (simp add: speaks_def silent_def)

lemma decide_bounds:
  assumes "speaks (decide cfg st now reply m up rng due ins)"
  shows "k_enabled cfg \<and> (t_spoke st = 0 \<or> k_cooldown cfg \<le> now - t_spoke st)
    \<and> int (recent st now) < k_max_per_hour cfg"
  using assms by (auto simp: decide_def split: if_split_asm)

lemma decide_remind:
  "i_action (decide cfg st now reply m up rng due ins) = Remind \<longleftrightarrow>
     k_enabled cfg \<and> (t_spoke st = 0 \<or> k_cooldown cfg \<le> now - t_spoke st)
     \<and> int (recent st now) < k_max_per_hour cfg \<and> due \<noteq> []"
  by (auto simp: decide_def silent_def split: option.split prod.split)

lemma decide_manners:
  assumes "speaks (decide cfg st now reply m up rng due ins)"
    and "i_action (decide cfg st now reply m up rng due ins) \<noteq> Remind"
  shows "due = [] \<and> t_chain st < k_max_chain cfg \<and> \<not> asked_a_question reply"
proof -
  have "due = []" using decide_bounds [OF assms(1)] assms(2) by (auto simp: decide_remind)
  then show ?thesis using assms(1) by (auto simp: decide_def split: if_split_asm)
qed

lemma decide_continue:
  assumes "i_action (decide cfg st now reply m up rng due ins) = Continue"
  shows "\<exists>x. m = Some x \<and> x < k_margin cfg \<and> ins = None
    \<and> i_delay (decide cfg st now reply m up rng due ins)
        = snd (k_cont_delay cfg) - (snd (k_cont_delay cfg) - fst (k_cont_delay cfg)) * urgency cfg x"
  using assms by (auto simp: decide_def silent_def case_prod_unfold split: if_splits option.splits)

lemma decide_actions:
  "i_action (decide cfg st now reply m up rng due ins) = Muse \<Longrightarrow> \<exists>x. ins = Some x"
  "i_action (decide cfg st now reply m up rng due ins) = CheckIn \<Longrightarrow>
     up \<and> ins = None \<and> t_user st \<noteq> 0 \<and> k_idle cfg \<le> now - t_user st \<and> d_random rng < k_chance cfg"
  by (auto simp: decide_def silent_def case_prod_unfold split: if_splits option.splits)

lemma urgency_range: "0 \<le> urgency cfg m \<and> urgency cfg m \<le> 1"
  by (simp add: urgency_def)

text \<open>With a margin that is not positive (the calibrated one is) the urgency saturates at once.\<close>

lemma urgency_saturates:
  assumes "k_margin cfg \<le> 0" "m \<le> k_margin cfg - 1 / 1000000"
  shows "urgency cfg m = 1"
proof -
  have "max (k_margin cfg) (1 / 1000000) = 1 / 1000000" using assms(1) by simp
  moreover have "1 \<le> (k_margin cfg - m) / (1 / 1000000)" using assms(2) by (simp add: field_simps)
  ultimately show ?thesis by (simp add: urgency_def)
qed

lemma recent_shrinks: "now \<le> t \<Longrightarrow> recent st t \<le> recent st now"
proof -
  assume t: "now \<le> t"
  have "length (filter (\<lambda>x. t - x < 3600) xs) \<le> length (filter (\<lambda>x. now - x < 3600) xs)" for xs
    by (induction xs) (use t in auto)
  then show ?thesis by (simp add: recent_def)
qed

lemma recent_note_spoke: "recent (note_spoke st now) now = recent st now + 1"
  by (simp add: recent_def note_spoke_def)

lemma recent_note_user [simp]: "recent (note_user st t) now = recent st now"
  by (simp add: recent_def note_user_def)

lemma recent_said_le: "recent (note_spoke st now) t \<le> recent st t + 1"
proof -
  have "length (filter (\<lambda>x. t - x < 3600) (filter (\<lambda>x. now - x < 3600) xs)) \<le> length (filter (\<lambda>x. t - x < 3600) xs)" for xs
    by (induction xs) auto
  then show ?thesis by (auto simp: recent_def note_spoke_def simp del: filter_filter intro: le_SucI)
qed

interpretation kairos: bounded_speaker
  "\<lambda>st now (cfg, reply, m, up, rng, due, ins). k_max_per_hour cfg = int cap \<and> speaks (decide cfg st now reply m up rng due ins)"
  note_spoke recent cap for cap
proof unfold_locales
  fix st :: turn and now :: real and i
  assume "case i of (cfg, reply, m, up, rng, due, ins) \<Rightarrow>
    k_max_per_hour cfg = int cap \<and> speaks (decide cfg st now reply m up rng due ins)"
  then show "recent st now < cap" by (auto dest: decide_bounds split: prod.splits)
qed (rule recent_said_le, rule recent_shrinks)

section \<open>Her last gate\<close>

lemma worth_saying_iff:
  "worth_saying t prev = Worth \<longleftrightarrow> 2 \<le> length (strip t)
    \<and> (\<forall>w \<in> set (OPENERS @ FRAMINGS). \<not> startswith (low_start t) w)
    \<and> (thought_toks (strip t) = {} \<or> thought_toks prev = {}
       \<or> 4 * card (thought_toks (strip t) \<inter> thought_toks prev) < 3 * card (thought_toks (strip t)))"
proof -
  have "find (startswith (low_start t)) OPENERS = None \<longleftrightarrow> (\<forall>w \<in> set OPENERS. \<not> startswith (low_start t) w)"
    by (auto simp: find_None_iff)
  then show ?thesis
    unfolding worth_saying_def Let_def set_append
    by (cases "find (startswith (low_start t)) OPENERS") (auto simp: not_less linorder_not_le)
qed

text \<open>A reply said again is never worth saying.\<close>

lemma worth_not_repeat:
  assumes "thought_toks (strip t) \<noteq> {}"
  shows "worth_saying t (strip t) \<noteq> Worth"
proof
  assume "worth_saying t (strip t) = Worth"
  then have "\<not> 3 * card (thought_toks (strip t)) \<le> 4 * card (thought_toks (strip t))"
    using assms unfolding worth_saying_iff by auto
  then show False by simp
qed

end
