(* ===== verification/Scheduler.thy ===== *)
theory Scheduler imports Hygiene Watch Impulse begin

text \<open>
  \<open>harness/kairos/scheduler.py\<close> as a state machine. The state holds the turns, the outboxes, the
  timers (a job is in flight from the moment it is armed until it ends or is cancelled; \<open>j_running\<close>
  tells a job whose delay is over), the last reply of each session, the reflection bookkeeping, and
  the two stores the ticker touches. The clocks, the random draws, the text a generation returns
  (\<open>None\<close>: it raised), and the reflection (\<open>ops.insight\<close> and the person model) come in as
  arguments of the operations.
\<close>

record job =
  j_id :: nat
  j_session :: string
  j_imp :: impulse
  j_reply :: string
  j_margin :: "real option"
  j_notes :: "memo list"
  j_insight :: "insight option"
  j_running :: bool

record msg =
  o_text :: string
  o_kind :: action
  o_why :: why
  o_margin :: "real option"
  o_notes :: "string list"
  o_at :: real

record sched =
  z_turns :: "(string \<times> turn) list"
  z_outbox :: "string \<Rightarrow> msg list"
  z_timers :: "string \<Rightarrow> nat option"
  z_jobs :: "job list"
  z_next :: nat
  z_last :: "(string \<times> string) list"
  z_reflect_at :: real
  z_evidence :: int
  z_board :: board
  z_mem :: mem

definition turn_of :: "sched \<Rightarrow> string \<Rightarrow> turn" where
  "turn_of z s = (case map_of (z_turns z) s of None \<Rightarrow> fresh_turn | Some st \<Rightarrow> st)"

definition set_turn :: "string \<Rightarrow> turn \<Rightarrow> sched \<Rightarrow> sched" where
  "set_turn s st z = z\<lparr>z_turns := AList.update s st (z_turns z)\<rparr>"

section \<open>Timers\<close>

definition arm ::
  "string \<Rightarrow> impulse \<Rightarrow> string \<Rightarrow> real option \<Rightarrow> memo list \<Rightarrow> insight option \<Rightarrow> sched \<Rightarrow> sched" where
  "arm s imp reply margin notes ins z =
     z\<lparr>z_jobs := z_jobs z @ [\<lparr>j_id = z_next z, j_session = s, j_imp = imp, j_reply = reply, j_margin = margin,
          j_notes = notes, j_insight = ins, j_running = False\<rparr>],
       z_timers := (z_timers z)(s \<mapsto> z_next z), z_next := z_next z + 1\<rparr>"

definition alive :: "sched \<Rightarrow> string \<Rightarrow> bool" where
  "alive z s \<longleftrightarrow> (case z_timers z s of None \<Rightarrow> False | Some i \<Rightarrow> i \<in> set (map j_id (z_jobs z)))"

text \<open>\<open>Timer.cancel\<close> stops a job that still waits; a running one goes on.\<close>

definition cancel :: "nat option \<Rightarrow> sched \<Rightarrow> sched" where
  "cancel t z =
     (case t of None \<Rightarrow> z
      | Some i \<Rightarrow> z\<lparr>z_jobs := filter (\<lambda>j. \<not> (j_id j = i \<and> \<not> j_running j)) (z_jobs z)\<rparr>)"

definition on_user_turn :: "string \<Rightarrow> real \<Rightarrow> sched \<Rightarrow> sched" where
  "on_user_turn s now z =
     (let z1 = set_turn s (note_user (turn_of z s) now) z
      in cancel (z_timers z s) (z1\<lparr>z_timers := (z_timers z1)(s := None)\<rparr>))"

definition titles :: "memo list \<Rightarrow> (string \<times> string) list" where
  "titles ns = map (\<lambda>n. (n_title n, n_body n)) ns"

definition on_reply ::
  "kcfg \<Rightarrow> string \<Rightarrow> string \<Rightarrow> real option \<Rightarrow> rng \<Rightarrow> real \<Rightarrow> real \<Rightarrow> sched \<Rightarrow> impulse option \<times> sched" where
  "on_reply cfg s reply margin rng now wall z =
     (let z1 = z\<lparr>z_last := AList.update s reply (z_last z)\<rparr> in
      if \<not> k_enabled cfg then (None, z1)
      else let due = due_notes (stamp_of wall) False (z_board z1);
               imp = decide cfg (turn_of z1 s) now reply margin True rng (titles due) None
           in (Some imp,
               if speaks imp then arm s imp reply margin (if i_action imp = Remind then due else []) None z1
               else z1))"

section \<open>A job ends\<close>

definition job_of :: "nat \<Rightarrow> sched \<Rightarrow> job option" where
  "job_of i z = find (\<lambda>j. j_id j = i) (z_jobs z)"

definition fire_begin :: "nat \<Rightarrow> sched \<Rightarrow> sched" where
  "fire_begin i z = z\<lparr>z_jobs := map (\<lambda>j. if j_id j = i then j\<lparr>j_running := True\<rparr> else j) (z_jobs z)\<rparr>"

definition final_text :: "job \<Rightarrow> string \<Rightarrow> string option" where
  "final_text j text =
     (if i_action (j_imp j) \<noteq> Remind
      then (if worth_saying text (j_reply j) = Worth then Some text else None)
      else if text = []
      then Some (''Reminder: '' @ join '', '' (map n_title (take 3 (j_notes j))) @ ''.'')
      else Some text)"

definition raise_notes :: "real \<Rightarrow> string list \<Rightarrow> board \<Rightarrow> board" where
  "raise_notes wall ids b = fold (mark_raised (stamp_of wall)) ids b"

definition speak :: "job \<Rightarrow> string \<Rightarrow> real \<Rightarrow> real \<Rightarrow> sched \<Rightarrow> sched" where
  "speak j text now wall z =
     (let s = j_session j;
          z1 = set_turn s (note_spoke (turn_of z s) now) z;
          m = \<lparr>o_text = text, o_kind = i_action (j_imp j), o_why = i_why (j_imp j), o_margin = j_margin j,
               o_notes = map n_id (j_notes j), o_at = wall\<rparr>;
          z2 = z1\<lparr>z_outbox := (z_outbox z1)(s := z_outbox z1 s @ [m])\<rparr>
      in if i_action (j_imp j) = Remind
         then z2\<lparr>z_board := raise_notes wall (map n_id (j_notes j)) (z_board z2)\<rparr> else z2)"

definition fire_end :: "nat \<Rightarrow> string option \<Rightarrow> real \<Rightarrow> real \<Rightarrow> sched \<Rightarrow> sched" where
  "fire_end i generated now wall z =
     (case job_of i z of
        None \<Rightarrow> z
      | Some j \<Rightarrow>
          if \<not> j_running j then z
          else let z1 = z\<lparr>z_jobs := filter (\<lambda>q. j_id q \<noteq> i) (z_jobs z)\<rparr> in
               case generated of
                 None \<Rightarrow> z1
               | Some g \<Rightarrow>
                   (case final_text j (strip g) of None \<Rightarrow> z1 | Some text \<Rightarrow> speak j text now wall z1))"

section \<open>Reflection and the tick\<close>

definition evidence_count :: "mem \<Rightarrow> int" where
  "evidence_count m = int (length (filter is_evidence (load_rows m)))"

record reflection =
  f_enabled :: bool
  f_idle :: real
  f_cool :: real
  f_bits :: real
  f_insight :: "mem \<Rightarrow> (string list \<times> mem) option"
  f_silences :: "mem \<Rightarrow> (string \<times> real) list option"
  f_surprisal :: "mem \<Rightarrow> string \<Rightarrow> real option"

fun before :: "string \<Rightarrow> string \<Rightarrow> string" where
  "before sep [] = []"
| "before sep (c # s) = (if startswith (c # s) sep then [] else c # before sep s)"

definition last_user :: "sched \<Rightarrow> real" where
  "last_user z = (case map (t_user \<circ> snd) (z_turns z) of [] \<Rightarrow> 0 | t # ts \<Rightarrow> foldl max t ts)"

definition conclude :: "reflection \<Rightarrow> string list \<Rightarrow> mem \<Rightarrow> insight option" where
  "conclude f wrote m =
     (let spoken = filter (\<lambda>w. contains w ''-> stored'') wrote in
      case spoken of
        [] \<Rightarrow> None
      | w # _ \<Rightarrow>
          (let text = strip (before '' -> '' w);
               bits = (case f_surprisal f m text of None \<Rightarrow> 0 | Some b \<Rightarrow> b)
           in if bits < f_bits f then None
              else Some \<lparr>x_text = text, x_bits = bits, x_silence = None\<rparr>))"

definition reflect_tick :: "reflection \<Rightarrow> real \<Rightarrow> sched \<Rightarrow> insight option \<times> sched" where
  "reflect_tick f now z =
     (if \<not> f_enabled f then (None, z)
      else if last_user z = 0 \<or> now - last_user z < f_idle f then (None, z)
      else if z_reflect_at z \<noteq> 0 \<and> now - z_reflect_at z < f_cool f then (None, z)
      else if evidence_count (z_mem z) = z_evidence z then (None, z)
      else let z1 = z\<lparr>z_reflect_at := now, z_evidence := evidence_count (z_mem z)\<rparr> in
           case f_insight f (z_mem z1) of
             None \<Rightarrow> (None, z1)
           | Some (wrote, m) \<Rightarrow>
               ((case f_silences f m of
                   Some ((c, b) # rest) \<Rightarrow>
                     if f_bits f \<le> b then Some \<lparr>x_text = c, x_bits = b, x_silence = Some (c, b)\<rparr>
                     else conclude f wrote m
                 | other \<Rightarrow> conclude f wrote m),
                z1\<lparr>z_mem := m\<rparr>))"

text \<open>One session after the other; a reminder or a musing is heard by one session only.\<close>

fun tick_sessions ::
  "kcfg \<Rightarrow> real \<Rightarrow> (string \<Rightarrow> rng) \<Rightarrow> memo list \<Rightarrow> insight option \<Rightarrow> (string \<times> string) list \<Rightarrow> sched \<Rightarrow> sched" where
  "tick_sessions cfg now rngs due ins [] z = z"
| "tick_sessions cfg now rngs due ins ((s, reply) # rest) z =
     (if alive z s then tick_sessions cfg now rngs due ins rest z
      else let imp = decide cfg (turn_of z s) now reply None True (rngs s) (titles due) ins in
           if \<not> speaks imp then tick_sessions cfg now rngs due ins rest z
           else let z1 = arm s imp reply None (if i_action imp = Remind then due else [])
                           (if i_action imp = Muse then ins else None) z
                in if i_action imp \<in> {Remind, Muse} then z1
                   else tick_sessions cfg now rngs due ins rest z1)"

definition tick_once ::
  "kcfg \<Rightarrow> reflection \<Rightarrow> (string \<Rightarrow> hit list) \<Rightarrow> (string \<Rightarrow> string \<Rightarrow> bool \<times> string) \<Rightarrow> (string \<Rightarrow> rng)
     \<Rightarrow> real \<Rightarrow> real \<Rightarrow> sched \<Rightarrow> sched" where
  "tick_once cfg f web judge rngs now wall z =
     (if \<not> k_enabled cfg then z
      else let z1 = z\<lparr>z_board := watch_tick wall web judge (z_board z)\<rparr>;
               due = due_notes (stamp_of wall) False (z_board z1);
               (ins, z2) = reflect_tick f now z1
           in tick_sessions cfg now rngs due ins (z_last z2) z2)"

definition drain :: "string \<Rightarrow> sched \<Rightarrow> msg list \<times> sched" where
  "drain s z = (z_outbox z s, z\<lparr>z_outbox := (z_outbox z)(s := [])\<rparr>)"

record panel =
  p_enabled :: bool
  p_chain :: int
  p_max_chain :: int
  p_cooldown_left :: real
  p_last_hour :: nat
  p_max_hour :: int
  p_pending :: nat

definition peek_state :: "kcfg \<Rightarrow> string \<Rightarrow> real \<Rightarrow> sched \<Rightarrow> panel" where
  "peek_state cfg s now z =
     (let st = turn_of z s;
          cooling = (if t_spoke st \<noteq> 0 then max 0 (k_cooldown cfg - (now - t_spoke st)) else 0) in
      \<lparr>p_enabled = k_enabled cfg, p_chain = t_chain st, p_max_chain = k_max_chain cfg,
       p_cooldown_left = of_int (py_round (cooling * 10)) / 10, p_last_hour = recent st now,
       p_max_hour = k_max_per_hour cfg, p_pending = length (z_outbox z s)\<rparr>)"

end
