(* ===== verification/SchedulerLaws.thy ===== *)
theory SchedulerLaws imports Scheduler begin

text \<open>
  What the scheduler guarantees: the hourly cap over whole runs, what reaches the outbox, reminders
  that are kept once, and a reflection that does not feed on itself.
\<close>

section \<open>Events and reachable states\<close>

datatype kevent =
    UserTurn string
  | Reply string string "real option" rng real
  | Begin nat
  | Ended nat "string option" real
  | Tick reflection "string \<Rightarrow> hit list" "string \<Rightarrow> string \<Rightarrow> bool \<times> string" "string \<Rightarrow> rng" real
  | Drain string

fun kstep :: "kcfg \<Rightarrow> kevent \<Rightarrow> real \<Rightarrow> sched \<Rightarrow> sched" where
  "kstep cfg (UserTurn s) t z = on_user_turn s t z"
| "kstep cfg (Reply s reply m r wall) t z = snd (on_reply cfg s reply m r t wall z)"
| "kstep cfg (Begin i) t z = fire_begin i z"
| "kstep cfg (Ended i g wall) t z = fire_end i g t wall z"
| "kstep cfg (Tick f web judge rngs wall) t z = tick_once cfg f web judge rngs t wall z"
| "kstep cfg (Drain s) t z = snd (drain s z)"

definition flying :: "sched \<Rightarrow> string \<Rightarrow> nat" where
  "flying z s = length (filter (\<lambda>j. j_session j = s) (z_jobs z))"

text \<open>The gateway's discipline: he does not speak into a running generation, and no reply is
  decided while something is still to be said.\<close>

fun orderly :: "kevent \<Rightarrow> sched \<Rightarrow> bool" where
  "orderly (UserTurn s) z \<longleftrightarrow> (\<forall>j \<in> set (z_jobs z). j_session j = s \<longrightarrow> \<not> j_running j)"
| "orderly (Reply s reply m r wall) z \<longleftrightarrow> flying z s = 0"
| "orderly e z \<longleftrightarrow> True"

definition idle_start :: "sched \<Rightarrow> bool" where
  "idle_start z \<longleftrightarrow> z_turns z = [] \<and> z_jobs z = []"

inductive reach :: "int \<Rightarrow> sched \<Rightarrow> real \<Rightarrow> bool" for cap where
  start: "idle_start z \<Longrightarrow> reach cap z t"
| event: "reach cap z now \<Longrightarrow> now \<le> t \<Longrightarrow> orderly e z \<Longrightarrow> k_max_per_hour cfg = cap \<Longrightarrow>
    reach cap (kstep cfg e t z) t"

section \<open>The invariant of the budget\<close>

text \<open>Jobs have distinct numbers below the next one, and the job in flight of a session, if any, is
  the one its timer entry names.\<close>

definition tidy :: "sched \<Rightarrow> bool" where
  "tidy z \<longleftrightarrow> distinct (map j_id (z_jobs z)) \<and> (\<forall>j \<in> set (z_jobs z). j_id j < z_next z
     \<and> z_timers z (j_session j) = Some (j_id j))"

definition in_budget :: "int \<Rightarrow> sched \<Rightarrow> real \<Rightarrow> bool" where
  "in_budget cap z now \<longleftrightarrow> (\<forall>s. flying z s = 0 \<and> int (recent (turn_of z s) now) \<le> max 0 cap
      \<or> flying z s = 1 \<and> int (recent (turn_of z s) now) < cap)"

lemma alive_flying: "tidy z \<Longrightarrow> flying z s \<noteq> 0 \<Longrightarrow> alive z s"
  by (force simp: flying_def alive_def tidy_def filter_empty_conv)

lemma turn_of_set [simp]: "turn_of (set_turn s st z) q = (if q = s then st else turn_of z q)"
  by (simp add: turn_of_def set_turn_def update_conv')

lemma set_turn_fields [simp]:
  "z_jobs (set_turn s st z) = z_jobs z" "z_timers (set_turn s st z) = z_timers z"
  "z_next (set_turn s st z) = z_next z" "z_outbox (set_turn s st z) = z_outbox z"
  "z_board (set_turn s st z) = z_board z" "flying (set_turn s st z) = flying z"
  by (simp_all add: set_turn_def flying_def fun_eq_iff)

lemma budget_later: "in_budget cap z now \<Longrightarrow> now \<le> t \<Longrightarrow> in_budget cap z t"
proof -
  assume b: "in_budget cap z now" and le: "now \<le> t"
  have "int (recent (turn_of z s) t) \<le> int (recent (turn_of z s) now)" for s
    using recent_shrinks [OF le] by simp
  with b show "in_budget cap z t" unfolding in_budget_def by (meson le_less_trans order_trans)
qed

lemma arm_tidy:
  assumes "tidy z" "flying z s = 0"
  shows "tidy (arm s imp reply m ns ins z)"
proof -
  have "j_session j \<noteq> s" if "j \<in> set (z_jobs z)" for j
    using assms(2) that by (auto simp: flying_def filter_empty_conv)
  then show ?thesis using assms(1) by (fastforce simp: tidy_def arm_def)
qed

lemma arm_flying: "flying (arm s imp reply m ns ins z) q = flying z q + (if q = s then 1 else 0)"
  "turn_of (arm s imp reply m ns ins z) q = turn_of z q"
  by (simp_all add: flying_def arm_def turn_of_def)

lemma arm_budget:
  assumes "in_budget cap z now" "flying z s = 0"
    and "speaks (decide cfg (turn_of z s) now reply' m' up rng due ins')" "k_max_per_hour cfg = cap"
  shows "in_budget cap (arm s imp reply m ns ins z) now"
  using assms decide_bounds [OF assms(3)] by (auto simp: in_budget_def arm_flying)

lemma tick_sessions_keeps:
  assumes "tidy z" "in_budget cap z now" "k_max_per_hour cfg = cap"
  shows "tidy (tick_sessions cfg now rngs due ins ss z) \<and> in_budget cap (tick_sessions cfg now rngs due ins ss z) now"
  using assms
proof (induction cfg now rngs due ins ss z rule: tick_sessions.induct)
  case (2 cfg now rngs due ins s reply rest z)
  let ?imp = "decide cfg (turn_of z s) now reply None True (rngs s) (titles due) ins"
  let ?z1 = "arm s ?imp reply None (if i_action ?imp = Remind then due else [])
                 (if i_action ?imp = Muse then ins else None) z"
  show ?case
  proof (cases "alive z s \<or> \<not> speaks ?imp")
    case True
    then show ?thesis using "2.IH"(1,2) "2.prems" by (auto simp: Let_def)
  next
    case False
    then have f: "flying z s = 0" using alive_flying [OF "2.prems"(1)] by blast
    have t: "tidy ?z1" and w: "in_budget cap ?z1 now"
      using arm_tidy [OF "2.prems"(1) f] arm_budget [OF "2.prems"(2) f _ "2.prems"(3)] False by blast+
    have step: "tick_sessions cfg now rngs due ins ((s, reply) # rest) z =
      (if i_action ?imp \<in> {Remind, Muse} then ?z1 else tick_sessions cfg now rngs due ins rest ?z1)"
      using False by (auto simp: Let_def)
    show ?thesis
    proof (cases "i_action ?imp \<in> {Remind, Muse}")
      case True
      then show ?thesis unfolding step using t w by simp
    next
      case False
      with \<open>\<not> (alive z s \<or> \<not> speaks ?imp)\<close> show ?thesis
        unfolding step using "2.IH"(3) [OF _ refl _ refl False t w "2.prems"(3)] by simp
    qed
  qed
qed simp

text \<open>Changes of the stores and of the bookkeeping do not touch the budget.\<close>

lemma budget_cong:
  assumes "z_jobs z' = z_jobs z" "z_timers z' = z_timers z" "z_next z' = z_next z" "z_turns z' = z_turns z"
  shows "tidy z' = tidy z" "in_budget cap z' now = in_budget cap z now" "turn_of z' = turn_of z" "flying z' = flying z"
proof -
  show "turn_of z' = turn_of z" "flying z' = flying z" "tidy z' = tidy z"
    using assms by (auto simp: turn_of_def flying_def fun_eq_iff tidy_def)
  then show "in_budget cap z' now = in_budget cap z now" by (simp add: in_budget_def)
qed

lemma reflect_fields:
  "z_jobs (snd (reflect_tick f now z)) = z_jobs z" "z_timers (snd (reflect_tick f now z)) = z_timers z"
  "z_next (snd (reflect_tick f now z)) = z_next z" "z_turns (snd (reflect_tick f now z)) = z_turns z"
  "z_board (snd (reflect_tick f now z)) = z_board z" "z_outbox (snd (reflect_tick f now z)) = z_outbox z"
  by (simp_all add: reflect_tick_def Let_def split: option.split)

lemma tick_once_keeps:
  assumes "tidy z" "in_budget cap z now" "k_max_per_hour cfg = cap"
  shows "tidy (tick_once cfg f web judge rngs now wall z) \<and> in_budget cap (tick_once cfg f web judge rngs now wall z) now"
proof (cases "k_enabled cfg")
  case True
  define z1 where "z1 = z\<lparr>z_board := watch_tick wall web judge (z_board z)\<rparr>"
  define z2 where "z2 = snd (reflect_tick f now z1)"
  have "tidy z2 \<and> in_budget cap z2 now"
    using budget_cong [of z2 z] assms(1,2) by (simp add: z2_def reflect_fields z1_def)
  then show ?thesis
    using tick_sessions_keeps [of z2 cap now cfg] assms(3) True
    by (simp add: tick_once_def Let_def case_prod_unfold z1_def [symmetric] z2_def [symmetric])
next
  case False
  then show ?thesis using assms by (simp add: tick_once_def)
qed

lemma on_reply_keeps:
  assumes "tidy z" "in_budget cap z now" "k_max_per_hour cfg = cap" "flying z s = 0"
  shows "tidy (snd (on_reply cfg s reply m r now wall z)) \<and> in_budget cap (snd (on_reply cfg s reply m r now wall z)) now"
proof -
  define z1 where "z1 = z\<lparr>z_last := AList.update s reply (z_last z)\<rparr>"
  have z1: "tidy z1" "in_budget cap z1 now" "flying z1 s = 0"
    using budget_cong [of z1 z] assms(1,2,4) by (simp_all add: z1_def)
  define imp where "imp = decide cfg (turn_of z1 s) now reply m True r (titles (due_notes (stamp_of wall) False (z_board z1))) None"
  have "tidy (arm s imp reply m ns ins z1) \<and> in_budget cap (arm s imp reply m ns ins z1) now" if "speaks imp" for ns ins
    using arm_tidy [OF z1(1,3)] arm_budget [OF z1(2,3) _ assms(3)] that unfolding imp_def by blast
  then show ?thesis
    using z1 by (simp add: on_reply_def Let_def z1_def [symmetric] imp_def [symmetric])
qed

lemma fewer_jobs:
  assumes "tidy z" "in_budget cap z now"
    and "z_jobs z' = filter P (z_jobs z)" "z_next z' = z_next z" "turn_of z' = turn_of z"
    and "\<forall>j \<in> set (z_jobs z'). z_timers z' (j_session j) = z_timers z (j_session j)"
  shows "tidy z' \<and> in_budget cap z' now"
proof
  show "tidy z'" using assms(1,3,4,6) by (auto simp: tidy_def distinct_map_filter)
  have le: "flying z' s \<le> flying z s" for s
  proof -
    have "length (filter (\<lambda>j. j_session j = s) (filter P js)) \<le> length (filter (\<lambda>j. j_session j = s) js)" for js
      by (induction js) auto
    then show ?thesis by (simp add: flying_def assms(3))
  qed
  show "in_budget cap z' now"
    unfolding in_budget_def
  proof
    fix s
    show "flying z' s = 0 \<and> int (recent (turn_of z' s) now) \<le> max 0 cap
      \<or> flying z' s = 1 \<and> int (recent (turn_of z' s) now) < cap"
      using assms(2) [unfolded in_budget_def, THEN spec, of s] le [of s] unfolding assms(5) by auto
  qed
qed

lemma on_user_turn_keeps:
  assumes "tidy z" "in_budget cap z now" "\<forall>j \<in> set (z_jobs z). j_session j = s \<longrightarrow> \<not> j_running j"
  shows "tidy (on_user_turn s now z) \<and> in_budget cap (on_user_turn s now z) now"
proof -
  define z0 where "z0 = set_turn s (note_user (turn_of z s) now) z"
  have z0: "tidy z0" "in_budget cap z0 now"
    using assms(1,2) by (auto simp: z0_def tidy_def in_budget_def)
  define P where "P j \<longleftrightarrow> \<not> (z_timers z s = Some (j_id j) \<and> \<not> j_running j)" for j :: job
  have jobs: "z_jobs (on_user_turn s now z) = filter P (z_jobs z0)"
    by (auto simp: on_user_turn_def Let_def cancel_def z0_def P_def [abs_def] split: option.split intro!: filter_cong)
  have rest: "z_next (on_user_turn s now z) = z_next z0" "turn_of (on_user_turn s now z) = turn_of z0"
    "z_timers (on_user_turn s now z) = (z_timers z0)(s := None)"
    by (auto simp: on_user_turn_def Let_def cancel_def z0_def turn_of_def fun_eq_iff split: option.split)
  have "j_session j \<noteq> s" if "j \<in> set (filter P (z_jobs z0))" for j
    using that assms(1,3) by (auto simp: P_def tidy_def z0_def)
  then show ?thesis using fewer_jobs [OF z0 jobs rest(1,2)] by (simp add: jobs rest(3))
qed

lemma job_of_SomeD: "job_of i z = Some j \<Longrightarrow> j \<in> set (z_jobs z) \<and> j_id j = i"
  by (auto simp: job_of_def find_Some_iff)

lemma speak_fields:
  "z_jobs (speak j w now wall z) = z_jobs z" "z_timers (speak j w now wall z) = z_timers z"
  "z_next (speak j w now wall z) = z_next z"
  "turn_of (speak j w now wall z) q = (if q = j_session j then note_spoke (turn_of z q) now else turn_of z q)"
  by (simp_all add: speak_def Let_def turn_of_def set_turn_def update_conv')

lemma fire_end_keeps:
  assumes "tidy z" "in_budget cap z now"
  shows "tidy (fire_end i g now wall z) \<and> in_budget cap (fire_end i g now wall z) now"
proof (cases "\<exists>j. job_of i z = Some j \<and> j_running j")
  case False
  then have "fire_end i g now wall z = z" by (auto simp: fire_end_def split: option.split)
  then show ?thesis using assms by simp
next
  case True
  then obtain j where j: "job_of i z = Some j" "j_running j" by blast
  note mem = job_of_SomeD [OF j(1)]
  define z1 where "z1 = z\<lparr>z_jobs := filter (\<lambda>q. j_id q \<noteq> i) (z_jobs z)\<rparr>"
  have z1: "tidy z1 \<and> in_budget cap z1 now"
    by (rule fewer_jobs [OF assms, where P = "\<lambda>q. j_id q \<noteq> i"]) (simp_all add: z1_def turn_of_def fun_eq_iff)
  let ?s = "j_session j"
  have "filter (\<lambda>q. j_session q = ?s) (z_jobs z1) = filter (\<lambda>q. j_id q \<noteq> i) (filter (\<lambda>q. j_session q = ?s) (z_jobs z))"
    by (simp add: z1_def conj_commute)
  then have "flying z1 ?s < flying z ?s"
    using length_filter_less [of j "filter (\<lambda>q. j_session q = ?s) (z_jobs z)" "\<lambda>q. j_id q \<noteq> i"] mem
    by (simp add: flying_def)
  then have f: "flying z1 ?s = 0" "int (recent (turn_of z ?s) now) < cap"
    using assms(2) unfolding in_budget_def by (metis less_nat_zero_code less_one)+
  have t: "turn_of z1 = turn_of z" by (simp add: z1_def turn_of_def fun_eq_iff)
  have "tidy (speak j w now wall z1) \<and> in_budget cap (speak j w now wall z1) now" for w
  proof
    show "tidy (speak j w now wall z1)" using z1 by (simp add: tidy_def speak_fields)
    have "flying (speak j w now wall z1) q = flying z1 q" for q by (simp add: flying_def speak_fields)
    moreover have "int (recent (note_spoke (turn_of z ?s) now) now) \<le> cap"
      using f(2) by (simp add: recent_note_spoke)
    ultimately show "in_budget cap (speak j w now wall z1) now"
      using z1 f(1) unfolding in_budget_def by (auto simp: speak_fields t)
  qed
  then show ?thesis
    using z1 j by (auto simp: fire_end_def z1_def [symmetric] split: option.split)
qed

lemma fire_begin_keeps:
  assumes "tidy z" "in_budget cap z now"
  shows "tidy (fire_begin i z) \<and> in_budget cap (fire_begin i z) now"
proof -
  let ?g = "\<lambda>j. if j_id j = i then j\<lparr>j_running := True\<rparr> else j"
  have id: "map j_id (map ?g js) = map j_id js" for js :: "job list" by (induction js) auto
  have fl: "length (filter (\<lambda>j. j_session j = s) (map ?g js)) = length (filter (\<lambda>j. j_session j = s) js)" for s and js :: "job list"
    by (induction js) auto
  have "flying (fire_begin i z) = flying z"
    using fl by (simp add: flying_def fire_begin_def fun_eq_iff del: filter_map map_map)
  moreover have "turn_of (fire_begin i z) = turn_of z"
    by (simp add: fire_begin_def fun_eq_iff turn_of_def)
  moreover have "tidy (fire_begin i z)"
    using assms(1) unfolding tidy_def by (auto simp: fire_begin_def id simp del: map_map)
  ultimately show ?thesis using assms(2) by (simp add: in_budget_def)
qed

lemma kstep_keeps:
  assumes "tidy z" "in_budget cap z t" "orderly e z" "k_max_per_hour cfg = cap"
  shows "tidy (kstep cfg e t z) \<and> in_budget cap (kstep cfg e t z) t"
proof (cases e)
  case (UserTurn s)
  then show ?thesis using on_user_turn_keeps [OF assms(1,2)] assms(3) by simp
next
  case (Reply s reply m r wall)
  then show ?thesis using on_reply_keeps [OF assms(1,2,4)] assms(3) by simp
next
  case (Begin i)
  then show ?thesis using fire_begin_keeps [OF assms(1,2)] by simp
next
  case (Ended i g wall)
  then show ?thesis using fire_end_keeps [OF assms(1,2)] by simp
next
  case (Tick f web judge rngs wall)
  then show ?thesis using tick_once_keeps [OF assms(1,2,4)] by simp
next
  case (Drain s)
  then show ?thesis using assms(1,2) budget_cong [of "snd (drain s z)" z] by (simp add: drain_def)
qed

text \<open>Rule induction over the runs: in every reachable state the hour holds at most the cap.\<close>

lemma reach_budget: "reach cap z now \<Longrightarrow> tidy z \<and> in_budget cap z now"
proof (induction rule: reach.induct)
  case (start z t)
  then show ?case
    by (auto simp: idle_start_def tidy_def in_budget_def flying_def turn_of_def fresh_turn_def recent_def)
next
  case (event z now t e cfg)
  then show ?case using kstep_keeps budget_later by blast
qed

section \<open>He speaks while she is about to\<close>

lemma turn_after_user: "turn_of (on_user_turn s now z) q = (if q = s then note_user (turn_of z s) now else turn_of z q)"
  by (auto simp: on_user_turn_def Let_def cancel_def turn_of_def set_turn_def update_conv' split: option.split)

lemma jobs_after_user:
  "z_jobs (on_user_turn s now z) = filter (\<lambda>j. j_running j \<or> z_timers z s \<noteq> Some (j_id j)) (z_jobs z)"
  by (auto simp: on_user_turn_def Let_def cancel_def intro!: filter_cong split: option.split)

lemma outbox_after_user [simp]: "z_outbox (on_user_turn s now z) = z_outbox z" "z_board (on_user_turn s now z) = z_board z"
  by (auto simp: on_user_turn_def Let_def cancel_def split: option.split)

lemma find_filter:
  assumes "find P xs = Some x" "Q x" "\<forall>y \<in> set xs. P y \<longrightarrow> y = x"
  shows "find P (filter Q xs) = Some x"
  using assms(1,3)
proof (induction xs)
  case (Cons a xs)
  then show ?case using assms(2) by (cases "P a") auto
qed simp

lemma tidy_job:
  assumes "tidy z" "j \<in> set (z_jobs z)"
  shows "job_of (j_id j) z = Some j"
proof -
  have "find (\<lambda>q. j_id q = j_id j) xs = Some j" if "distinct (map j_id xs)" "j \<in> set xs" for xs :: "job list"
    using that by (induction xs) (auto simp: image_iff)
  then show ?thesis using assms by (simp add: tidy_def job_of_def)
qed

text \<open>A job that still waits is gone, a job that runs is not touched.\<close>

lemma waiting_job_yields:
  assumes "tidy z" "j \<in> set (z_jobs z)" "j_session j = s" "\<not> j_running j"
  shows "job_of (j_id j) (on_user_turn s now z) = None"
proof -
  have only: "q = j" if "q \<in> set (z_jobs z)" "j_id q = j_id j" for q
    using that assms(1,2) unfolding tidy_def distinct_map by (blast dest: inj_onD)
  have timer: "z_timers z s = Some (j_id j)" using assms unfolding tidy_def by blast
  show ?thesis
    unfolding job_of_def find_None_iff jobs_after_user using only timer assms(4) by auto
qed

lemma running_job_stays:
  assumes "tidy z" "j \<in> set (z_jobs z)" "j_running j"
  shows "job_of (j_id j) (on_user_turn s now z) = Some j"
proof -
  have u: "y = j" if "j_id y = j_id j" "y \<in> set (z_jobs z)" for y
    using that assms(1,2) by (auto simp: tidy_def distinct_map dest: inj_onD)
  have "find (\<lambda>q. j_id q = j_id j) (z_jobs z) = Some j" using tidy_job [OF assms(1,2)] by (simp add: job_of_def)
  then show ?thesis
    unfolding job_of_def jobs_after_user by (rule find_filter) (use assms(3) u in auto)
qed

lemma fire_end_speaks:
  assumes "job_of i z = Some j" "j_running j" "final_text j (strip g) = Some w"
  shows "z_outbox (fire_end i (Some g) now wall z) (j_session j) =
      z_outbox z (j_session j) @ [\<lparr>o_text = w, o_kind = i_action (j_imp j), o_why = i_why (j_imp j),
         o_margin = j_margin j, o_notes = map n_id (j_notes j), o_at = wall\<rparr>]"
    and "turn_of (fire_end i (Some g) now wall z) (j_session j) = note_spoke (turn_of z (j_session j)) now"
    and "z_board (fire_end i (Some g) now wall z) =
      (if i_action (j_imp j) = Remind then raise_notes wall (map n_id (j_notes j)) (z_board z) else z_board z)"
  using assms by (simp_all add: fire_end_def speak_def Let_def turn_of_def set_turn_def update_conv')

lemma outbox_speak: "s \<noteq> j_session j \<Longrightarrow> z_outbox (speak j w t wall z) s = z_outbox z s"
  by (cases "i_action (j_imp j) = Remind") (simp_all add: speak_def Let_def set_turn_def)

text \<open>Nothing but a job's end adds to an outbox, and it adds what the last gate let through.\<close>

lemma outbox_arm [simp]: "z_outbox (arm s imp r m ns x z) = z_outbox z"
  by (simp add: arm_def)

lemma outbox_ticks: "z_outbox (tick_sessions cfg now rngs due ins ss z) = z_outbox z"
  by (induction cfg now rngs due ins ss z rule: tick_sessions.induct) (simp_all add: Let_def)

lemma outbox_same:
  "z_outbox (snd (on_reply cfg s reply m r now wall z)) = z_outbox z"
  "z_outbox (tick_once cfg f web judge rngs now wall z) = z_outbox z"
  "z_outbox (fire_begin i z) = z_outbox z"
  by (simp_all add: on_reply_def Let_def tick_once_def case_prod_unfold outbox_ticks reflect_fields fire_begin_def)

lemma outbox_end:
  assumes "x \<in> set (z_outbox (fire_end i g t wall z) s)" "x \<notin> set (z_outbox z s)"
  shows "\<exists>h j. g = Some h \<and> job_of i z = Some j \<and> j_session j = s
     \<and> o_kind x = i_action (j_imp j) \<and> final_text j (strip h) = Some (o_text x)"
proof -
  obtain j where j: "job_of i z = Some j" "j_running j"
    using assms by (auto simp: fire_end_def split: option.splits if_split_asm)
  obtain h w where g: "g = Some h" and w: "final_text j (strip h) = Some w"
    using assms j by (auto simp: fire_end_def Let_def split: option.splits)
  show ?thesis
  proof (cases "s = j_session j")
    case True
    then show ?thesis using assms fire_end_speaks(1) [OF j w, of t wall] j(1) w by (auto simp: g)
  next
    case False
    then show ?thesis using assms by (simp add: g fire_end_def j w outbox_speak Let_def)
  qed
qed

lemma outbox_step:
  assumes "x \<in> set (z_outbox (kstep cfg e t z) s)" "x \<notin> set (z_outbox z s)"
  shows "\<exists>i g wall j. e = Ended i (Some g) wall \<and> job_of i z = Some j \<and> j_session j = s
     \<and> o_kind x = i_action (j_imp j) \<and> final_text j (strip g) = Some (o_text x)"
proof (cases e)
  case (Ended i g wall)
  then show ?thesis using outbox_end [of x i g t wall z s] assms by auto
next
  case (Drain q)
  then show ?thesis using assms by (auto simp: drain_def split: if_split_asm)
qed (use assms in \<open>simp_all add: outbox_same\<close>)

section \<open>A reminder is kept once\<close>

lemma update_first_mem: "x \<in> set (update_first P g xs) \<Longrightarrow> x \<in> set xs \<or> (\<exists>y \<in> set xs. x = g y)"
  by (induction xs) (auto split: if_split_asm)

definition raised :: "string \<Rightarrow> board \<Rightarrow> bool" where
  "raised i b \<longleftrightarrow> (\<forall>n \<in> set (load_notes b). n_id n = i \<longrightarrow> n_raised n)"

lemma mark_ids: "map n_id (load_notes (mark_raised now i b)) = map n_id (load_notes b)"
  by (simp add: mark_raised_def update_note_rows map_update_first)

lemma raised_mark:
  assumes "distinct (map n_id (load_notes b))"
  shows "raised i (mark_raised now i b)"
  unfolding raised_def
proof (intro ballI impI)
  fix n assume "n \<in> set (load_notes (mark_raised now i b))" "n_id n = i"
  then show "n_raised n"
    using update_first_distinct [OF assms, of "edit_note now [URaised True]" n i]
    by (auto simp: mark_raised_def update_note_rows)
qed

lemma raised_keeps: "raised i b \<Longrightarrow> raised i (mark_raised now k b)"
  unfolding raised_def by (auto simp: mark_raised_def update_note_rows dest!: update_first_mem)

lemma raised_fold: "raised i b \<Longrightarrow> raised i (raise_notes wall ids b)"
  unfolding raise_notes_def by (induction ids arbitrary: b) (simp_all add: raised_keeps)

lemma raise_notes_all:
  "distinct (map n_id (load_notes b)) \<Longrightarrow> i \<in> set ids \<Longrightarrow> raised i (raise_notes wall ids b)"
proof (induction ids arbitrary: b)
  case (Cons k ids)
  have e: "raise_notes wall (k # ids) b = raise_notes wall ids (mark_raised (stamp_of wall) k b)"
    by (simp add: raise_notes_def)
  have d: "distinct (map n_id (load_notes (mark_raised (stamp_of wall) k b)))"
    unfolding mark_ids by (rule Cons.prems)
  show ?case
  proof (cases "i = k")
    case True
    then show ?thesis unfolding e using raised_fold raised_mark [OF Cons.prems(1)] by blast
  next
    case False
    then show ?thesis unfolding e using Cons.IH [OF d] Cons.prems(2) by simp
  qed
qed simp

lemma raised_never_due: "raised i b \<Longrightarrow> n \<in> set (due_notes t False b) \<Longrightarrow> n_id n \<noteq> i"
  using due_notes_exact [of t False b] by (auto simp: raised_def is_due_def)

lemma final_text_remind:
  "i_action (j_imp j) = Remind \<Longrightarrow> \<exists>w. final_text j g = Some w \<and> w \<noteq> []"
  by (simp add: final_text_def)

lemma final_text_worth:
  "i_action (j_imp j) \<noteq> Remind \<Longrightarrow> final_text j g = Some w \<Longrightarrow> w = g \<and> worth_saying g (j_reply j) = Worth"
  by (simp add: final_text_def split: if_split_asm)

section \<open>A reflection does not feed on itself\<close>

lemma reflect_ran:
  assumes "z_reflect_at (snd (reflect_tick f now z)) = now" "z_reflect_at z \<noteq> now"
  shows "z_evidence (snd (reflect_tick f now z)) = evidence_count (z_mem z)"
  using assms by (simp add: reflect_tick_def Let_def split: option.splits if_split_asm)

lemma reflect_idle:
  assumes "evidence_count (z_mem z) = z_evidence z"
  shows "reflect_tick f now z = (None, z)"
  by (simp add: reflect_tick_def assms)

lemma reflect_mem:
  "z_mem (snd (reflect_tick f now z)) = z_mem z \<or> (\<exists>wrote. f_insight f (z_mem z) = Some (wrote, z_mem (snd (reflect_tick f now z))))"
  by (simp add: reflect_tick_def Let_def split: option.split)

text \<open>When what a reflection writes leaves the evidence alone, the next tick has nothing to think about.\<close>

lemma reflect_once:
  assumes "\<And>wrote m'. f_insight f (z_mem z) = Some (wrote, m') \<Longrightarrow> evidence_count m' = evidence_count (z_mem z)"
    and "reflect_tick f now z = (out, z')" "z' \<noteq> z"
  shows "reflect_tick f' later z' = (None, z')"
proof (rule reflect_idle)
  have s: "z' = snd (reflect_tick f now z)" by (simp add: assms(2))
  have "z_evidence z' = evidence_count (z_mem z)"
    using assms(2,3) by (auto simp: reflect_tick_def Let_def split: option.splits if_split_asm)
  moreover have "evidence_count (z_mem z') = evidence_count (z_mem z)"
    using reflect_mem [of f now z] assms(1) unfolding s [symmetric] by auto
  ultimately show "evidence_count (z_mem z') = z_evidence z'" by simp
qed

lemma evidence_count_evidence: "evidence_count m = int (length (evidence m))"
  by (simp add: evidence_count_def evidence_def)

section \<open>Properties\<close>


definition idle_sched :: sched where
  "idle_sched = \<lparr>z_turns = [], z_outbox = (\<lambda>s. []), z_timers = (\<lambda>s. None), z_jobs = [], z_next = 0, z_last = [],
     z_reflect_at = 0, z_evidence = - 1, z_board = \<lparr>b_lines = None, b_author = ''user''\<rparr>,
     z_mem = \<lparr>m_path = [], m_file = None, m_author = ''user'', m_question = [], m_queue = []\<rparr>\<rparr>"


text \<open>
  C16. What reaches an outbox: the only event that adds a message is the end of a running generation of
  that session, and the message is what the last gate let through: a reminder is never empty, any other
  thought is the generated text itself, at least two characters long, with no filler opening, no
  recited framing, and not a restatement of the reply it follows.
\<close>

theorem outbox_passes_gate:
  assumes "x \<in> set (z_outbox (kstep cfg e t z) s)" "x \<notin> set (z_outbox z s)"
  shows "\<exists>i g wall j. e = Ended i (Some g) wall \<and> job_of i z = Some j \<and> j_session j = s \<and> o_kind x = i_action (j_imp j)
    \<and> (o_kind x = Remind \<longrightarrow> o_text x \<noteq> [])
    \<and> (o_kind x \<noteq> Remind \<longrightarrow> o_text x = strip g \<and> 2 \<le> length (o_text x)
         \<and> (\<forall>w \<in> set (OPENERS @ FRAMINGS). \<not> startswith (low_start (o_text x)) w)
         \<and> (thought_toks (o_text x) = {} \<or> thought_toks (j_reply j) = {}
            \<or> 4 * card (thought_toks (o_text x) \<inter> thought_toks (j_reply j)) < 3 * card (thought_toks (o_text x))))"
proof -
  obtain i g wall j where o: "e = Ended i (Some g) wall" "job_of i z = Some j" "j_session j = s"
    "o_kind x = i_action (j_imp j)" "final_text j (strip g) = Some (o_text x)"
    using outbox_step [OF assms] by blast
  moreover have "o_kind x = Remind \<longrightarrow> o_text x \<noteq> []" using final_text_remind [of j "strip g"] o(4,5) by auto
  moreover have "o_text x = strip g \<and> worth_saying (strip g) (j_reply j) = Worth" if "o_kind x \<noteq> Remind"
    using final_text_worth [of j "strip g" "o_text x"] that o(4,5) by simp
  ultimately show ?thesis unfolding worth_saying_iff by (metis strip_idem)
qed

definition demo_job :: job where
  "demo_job = \<lparr>j_id = 0, j_session = ''s'', j_imp = \<lparr>i_action = Continue, i_delay = 1, i_why = CutOff, i_score = 0\<rparr>,
     j_reply = [], j_margin = None, j_notes = [], j_insight = None, j_running = True\<rparr>"

theorem outbox_passes_gate_witness:
  "2 \<le> length (o_text (last (z_outbox (fire_end 0 (Some ''the kettle again'') 5 5 (idle_sched\<lparr>z_jobs := [demo_job]\<rparr>)) ''s'')))"
proof -
  let ?z = "idle_sched\<lparr>z_jobs := [demo_job]\<rparr>"
  let ?out = "z_outbox (kstep default_cfg (Ended 0 (Some ''the kettle again'') 5) 5 ?z) ''s''"
  have "map o_text ?out = [''the kettle again'']" and k: "map o_kind ?out = [Continue]" by code_simp+
  then obtain x where x: "?out = [x]" by auto
  have "x \<notin> set (z_outbox ?z ''s'')" by (simp add: idle_sched_def)
  from outbox_passes_gate [OF _ this, of default_cfg "Ended 0 (Some ''the kettle again'') 5" 5] x k
  show ?thesis by auto
qed



end
