(* ===== verification/Reflection.thy ===== *)
theory Reflection imports Person SchedulerLaws begin

text \<open>
  The reflection end to end: the person model is a projection of the registry, what \<open>insight\<close> writes is
  no evidence, so a reflection does not feed on itself, and a conclusion is measured against a model that
  already holds it.
\<close>

section \<open>The person is a projection of the registry\<close>

definition his_rows :: "string \<Rightarrow> mem \<Rightarrow> row list" where
  "his_rows who m = filter (\<lambda>r. live r \<and> spk r = who) (load_rows m)"

lemma dim_of_absorb:
  "dim_of s (absorb_row now r pm) = dim_of s pm @ (if slot_of (r_class r) = s then [evid_of now r] else [])"
  by (simp add: absorb_row_def Let_def dim_of_def update_conv')

lemma dim_of_fold:
  "dim_of s (fold (absorb_row now) rs pm) = dim_of s pm @ map (evid_of now) (filter (\<lambda>r. slot_of (r_class r) = s) rs)"
  by (induction rs arbitrary: pm) (simp_all add: dim_of_absorb)

lemma dim_of_registry:
  "m_path m \<noteq> [] \<Longrightarrow>
     dim_of s (from_registry now who m) = map (evid_of now) (filter (\<lambda>r. slot_of (r_class r) = s) (his_rows who m))"
  by (simp add: from_registry_def dim_of_fold his_rows_def) (simp add: dim_of_def)

section \<open>What is already known informs little\<close>

lemma confidence_ge:
  assumes "es \<noteq> []" "\<forall>e \<in> set es. 1 \<le> pe_mentions e"
  shows "1 / 4 \<le> confidence es"
proof -
  have n: "0 \<le> sum_list (map pe_mentions es')" if "\<forall>e \<in> set es'. 1 \<le> pe_mentions e" for es'
    by (rule sum_list_nonneg) (use that in force)
  obtain e es' where e: "es = e # es'" using assms(1) by (cases es) auto
  have "1 \<le> sum_list (map pe_mentions es)" using assms(2) n [of es'] by (simp add: e)
  then obtain n where "sum_list (map pe_mentions es) = n" "1 \<le> n" by simp
  then show ?thesis using assms(1) by (simp add: confidence_def Let_def field_simps)
qed

lemma best_cover_member: "e \<in> set es \<Longrightarrow> cover_by ws e \<le> fold (\<lambda>e b. max b (cover_by ws e)) es b"
proof (induction es arbitrary: b)
  case (Cons x es)
  show ?case
  proof (cases "e = x")
    case True
    then show ?thesis using best_cover_ge [of "max b (cover_by ws x)" ws es] by simp
  qed (use Cons in simp)
qed simp

lemma ln2_ge: "3 / 5 \<le> ln (2 :: real)"
proof -
  have l: "1 - 1 / x \<le> ln x" if "0 < x" for x :: real
    using ln_le_minus_one [of "1 / x"] that by (simp add: ln_div)
  have m: "ln (x * y) = ln x + ln y" if "0 < x" "0 < y" for x y :: real using that by (rule ln_mult_pos)
  show ?thesis
    using m [of "5 / 4" "8 / 5"] m [of "6 / 5" "4 / 3"] m [of "7 / 6" "8 / 7"]
      l [of "5 / 4"] l [of "6 / 5"] l [of "7 / 6"] l [of "8 / 7"] by simp
qed

lemma cover_known:
  assumes "finite ws" "ws \<noteq> {}" "ws \<subseteq> words3 (pe_text e)" "1 \<le> pe_mentions e"
  shows "4 / 5 \<le> cover_by ws e"
proof -
  have "ln (2 :: real) \<le> ln (1 + of_int (pe_mentions e))"
    by (subst ln_le_cancel_iff) (use assms(4) in simp_all)
  then have "4 / 5 \<le> min 1 (1 / 2 + 1 / 2 * ln (1 + real_of_int (pe_mentions e)))"
    using ln2_ge by simp
  moreover have "ws \<inter> words3 (pe_text e) = ws" "card ws \<noteq> 0" using assms by auto
  moreover have "words3 (pe_text e) \<noteq> {}" using assms(2,3) by auto
  ultimately show ?thesis by (simp only: cover_by_def if_False) simp
qed

lemma known_informs_little:
  assumes "e \<in> set es" "es = dim_of (slot_of (if cls \<noteq> [] then cls else classify fct)) pm"
    and "words3 fct \<subseteq> words3 (pe_text e)" "\<forall>e \<in> set es. 1 \<le> pe_mentions e"
  shows "surprisal fct cls pm \<le> 1"
proof (cases "words3 fct = {}")
  case False
  have f: "finite (words3 fct)" by (simp add: words3_def)
  have "4 / 5 \<le> best_cover (words3 fct) es"
    using cover_known [OF f False assms(3)] assms(1,4) best_cover_member [OF assms(1), of "words3 fct" 0]
    by (force simp: best_cover_def)
  moreover have "1 / 4 \<le> confidence es" using assms(1,4) by (intro confidence_ge) auto
  ultimately have "4 / 5 * (5 / 8) \<le> best_cover (words3 fct) es * (1 / 2 + 1 / 2 * confidence es)"
    by (intro mult_mono) auto
  then have "1 / 2 \<le> likelihood (words3 fct) es" by (simp add: likelihood_def P_FLOOR_def)
  then have "1 / 2 \<le> max (likelihood (words3 fct) es) P_FLOOR" by simp
  then have "log 2 (1 / 2) \<le> log 2 (max (likelihood (words3 fct) es) P_FLOOR)"
    by (subst log_le_cancel_iff) auto
  then have "min 8 (- log 2 (max (likelihood (words3 fct) es) P_FLOOR)) \<le> of_int 1" by (simp add: log_divide)
  then have "round_to 3 (min 8 (- log 2 (max (likelihood (words3 fct) es) P_FLOOR))) \<le> 1"
    using round_to_mono round_to_int [of 3 1] by (metis of_int_1)
  moreover have "es \<noteq> []" using assms(1) by auto
  ultimately show ?thesis
    using False assms(2) by (simp add: surprisal_def Let_def MAX_BITS_def)
qed (simp add: surprisal_def)


section \<open>What she writes is no evidence\<close>

text \<open>The names of the writes are their milliseconds: new ones, each once.\<close>

definition fresh_from :: "(nat \<Rightarrow> env) \<Rightarrow> nat \<Rightarrow> mem \<Rightarrow> bool" where
  "fresh_from envs i m \<longleftrightarrow> distinct_names (load_rows m)
     \<and> (\<forall>j\<ge>i. Some (ep_name (e_now (envs j))) \<notin> r_name ` set (load_rows m))
     \<and> inj_on (\<lambda>j. ep_name (e_now (envs j))) {i..}"

lemma fresh_step:
  assumes "fresh_from envs i m" "remember (envs i) raw src m = (rep, m')"
  shows "fresh_from envs (i + 1) m'"
proof -
  from remember_names [OF assms(2)] show ?thesis
  proof
    assume n: "map r_name (load_rows m') = map r_name (load_rows m)"
    then have "r_name ` set (load_rows m') = r_name ` set (load_rows m)" by (metis list.set_map)
    then show ?thesis using assms(1) n by (auto simp: fresh_from_def distinct_names_def inj_on_def)
  next
    assume n: "map r_name (load_rows m') = map r_name (load_rows m) @ [Some (ep_name (e_now (envs i)))]"
    then have "r_name ` set (load_rows m') = insert (Some (ep_name (e_now (envs i)))) (r_name ` set (load_rows m))"
      by (metis list.set_map set_append list.simps(15) empty_set Un_insert_right sup_bot.right_neutral)
    moreover have "ep_name (e_now (envs j)) \<noteq> ep_name (e_now (envs i))" if "i + 1 \<le> j" for j
    proof
      assume e: "ep_name (e_now (envs j)) = ep_name (e_now (envs i))"
      have "inj_on (\<lambda>j. ep_name (e_now (envs j))) {i..}" using assms(1) by (simp add: fresh_from_def)
      from inj_onD [OF this e] that show False by simp
    qed
    ultimately show ?thesis using assms(1) n by (auto simp: fresh_from_def distinct_names_def inj_on_def)
  qed
qed

lemma reflection_source: "source_status ''reflection'' = STATUS_INFERRED"
  by code_simp

lemma insight_loop_evidence:
  "fresh_from envs i m \<Longrightarrow> insight_loop envs i w ls m = (ws, m') \<Longrightarrow> evidence m' = evidence m"
proof (induction envs i w ls m arbitrary: ws m' rule: insight_loop.induct)
  case (2 envs i w l ls m)
  obtain rep m1 where r: "remember (envs i) l ''reflection'' m = (rep, m1)" by fastforce
  have "distinct_names (load_rows m)" using "2.prems"(1) by (simp add: fresh_from_def)
  then have e: "evidence m1 = evidence m"
    by (rule inferred_write_evidence [OF _ _ reflection_source r]) simp
  note f = fresh_step [OF "2.prems"(1) r]
  show ?case
    using "2.prems"(2) e "2.IH"(1) [OF r [symmetric] _ _ f] "2.IH"(2) [OF r [symmetric] _ f]
    by (auto simp: r split: if_split_asm prod.splits)
qed simp

lemma load_set_author [simp]: "load_rows (set_author who m) = load_rows m"
  by (simp add: set_author_def load_rows_def)

lemma insight_run_evidence:
  assumes "fresh_from envs 0 m"
  shows "evidence (snd (insight_run envs ask now m)) = evidence m"
proof -
  have f: "fresh_from envs 0 (set_author ''user'' m)" using assms by (simp add: fresh_from_def)
  have "evidence (set_author ''user'' m) = evidence m" by (simp add: evidence_def)
  then show ?thesis
    using insight_loop_evidence [OF f] by (simp add: insight_run_def Let_def) (metis prod.collapse)
qed

lemma insight_loop_wrote:
  "w \<le> 1 \<Longrightarrow> insight_loop envs i w ls m = (ws, m') \<Longrightarrow>
     length ws + w \<le> 2 \<and> (\<forall>p \<in> set ws. fst p \<in> set ls \<and> accepted (snd p))"
proof (induction envs i w ls m arbitrary: ws m' rule: insight_loop.induct)
  case (2 envs i w l ls m)
  obtain rep m1 where r: "remember (envs i) l ''reflection'' m = (rep, m1)" by fastforce
  show ?case
    using "2.prems" "2.IH"(1) [OF r [symmetric]] "2.IH"(2) [OF r [symmetric]]
    by (fastforce simp: r split: if_split_asm prod.splits)
qed simp

section \<open>The tick with the insight of the code\<close>

definition insight_of :: "(nat \<Rightarrow> env) \<Rightarrow> (string \<Rightarrow> string) \<Rightarrow> real \<Rightarrow> mem \<Rightarrow> (string list \<times> mem) option" where
  "insight_of envs ask now m = (case insight_run envs ask now m of (ws, m') \<Rightarrow> Some (map wrote_line ws, m'))"

lemma reflects_once:
  assumes "f_insight f = insight_of envs ask wall" "fresh_from envs 0 (z_mem z)"
    and "reflect_tick f now z = (out, z')" "z' \<noteq> z"
  shows "reflect_tick f' later z' = (None, z')"
proof (rule reflect_once [OF _ assms(3,4)])
  fix wrote m'
  assume "f_insight f (z_mem z) = Some (wrote, m')"
  then have "m' = snd (insight_run envs ask wall (z_mem z))"
    by (simp add: assms(1) insight_of_def split: prod.split_asm)
  then show "evidence_count m' = evidence_count (z_mem z)"
    using insight_run_evidence [OF assms(2)] by (simp add: evidence_count_evidence)
qed

text \<open>A stored conclusion is measured against a model that already holds it.\<close>

lemma conclusion_informs_little:
  assumes "m_path m \<noteq> []" "r \<in> set (load_rows m)" "live r" "spk r = who" "slot_of (r_class r) = slot_of (classify t)"
    and "words3 t \<subseteq> words3 (strip_prefix (r_text r))" "\<forall>q \<in> set (load_rows m). 1 \<le> or_int (r_mentions q) 1"
  shows "surprisal t [] (from_registry now who m) \<le> 1"
proof (rule known_informs_little [where e = "evid_of now r"])
  show "evid_of now r \<in> set (dim_of (slot_of (classify t)) (from_registry now who m))"
    using assms(2-5) by (simp add: dim_of_registry [OF assms(1)] his_rows_def)
  show "dim_of (slot_of (classify t)) (from_registry now who m) =
    dim_of (slot_of (if [] \<noteq> [] then [] else classify t)) (from_registry now who m)" by simp
  show "words3 t \<subseteq> words3 (pe_text (evid_of now r))" using assms(6) by (simp add: evid_of_def)
  show "\<forall>e \<in> set (dim_of (slot_of (classify t)) (from_registry now who m)). 1 \<le> pe_mentions e"
    using assms(7) by (auto simp: dim_of_registry [OF assms(1)] his_rows_def evid_of_def)
qed

section \<open>A conclusion is stored before it is weighed\<close>

lemma remember_stored:
  assumes "remember ev raw src s = (Stored f old mi, m)"
  shows "m_path s \<noteq> [] \<and> door ev (m_author s) (normalize_fact raw) = None
    \<and> \<not> (\<exists>e \<in> set (load_rows s). exact_hit (normalize_fact raw) e \<or> near_hit (normalize_fact raw) e)"
proof -
  have r: "reinforced_reply ev rows P b \<noteq> Stored f old mi" for rows P b
    by (simp add: reinforced_reply_def Let_def split: option.split)
  show ?thesis
    using assms by (auto simp: remember_def Let_def remember_commit_def r split: if_split_asm option.splits)
qed

lemma contains_mid: "contains (a @ p @ b) p"
  unfolding contains_def by (intro bexI [of _ "length a"]) simp_all

lemma stored_line_spoken: "contains (wrote_line (l, Stored f old mi)) ''-> stored''"
proof -
  obtain b where b: "reply_text (Stored f old mi) = ''stored: '' @ b" by simp
  have "wrote_line (l, Stored f old mi) = (take 60 l @ '' '') @ ''-> stored'' @ ('': '' @ take 30 b)"
    unfolding wrote_line_def snd_conv fst_conv b by simp
  then show ?thesis using contains_mid by metis
qed

section \<open>Properties\<close>


definition quiet_sched :: sched where
  "quiet_sched = idle_sched\<lparr>z_turns := [(''s'', fresh_turn\<lparr>t_user := 1\<rparr>)]\<rparr>"

definition demo_envs :: "nat \<Rightarrow> env" where
  "demo_envs i = \<lparr>e_now = of_nat i, e_self = [], e_async = True, e_capture = (\<lambda>f d. (0, False))\<rparr>"

definition demo_reflection :: reflection where
  "demo_reflection = \<lparr>f_enabled = True, f_idle = 600, f_cool = 1800, f_bits = 3,
     f_insight = insight_of demo_envs (\<lambda>p. []) 0, f_silences = (\<lambda>m. None), f_surprisal = (\<lambda>m t. None)\<rparr>"


definition demo_store_of :: "row list \<Rightarrow> mem" where
  "demo_store_of rows =
     \<lparr>m_path = ''reg.jsonl'', m_file = Some (map Row rows), m_author = ''user'', m_question = [], m_queue = []\<rparr>"

text \<open>
  A conclusion she has just reached is never surprising enough to be said: it is stored before it is
  measured, the model of him it is measured against already holds it, and so its information is at most
  one bit. At every bar above one bit (the shipped one is three) a reflection whose first stored line is
  such a conclusion keeps it to herself.
\<close>

theorem conclusion_stays_unsaid:
  assumes "remember ev l ''reflection'' s = (Stored fct old mi, m)" "distinct_names (load_rows s)" "m_author s = ''user''"
    and "normalize_fact l = l" "strip l = l" "length l \<le> 60" "strip_prefix l = l"
    and "before '' -> '' (wrote_line (l, Stored fct old mi)) = l"
    and "\<forall>q \<in> set (load_rows s). 1 \<le> or_int (r_mentions q) 1"
    and "f_surprisal f m l = Some (surprisal l [] (from_registry now ''user'' m))" "1 < f_bits f"
  shows "surprisal l [] (from_registry now ''user'' m) \<le> 1 \<and> conclude f (wrote_line (l, Stored fct old mi) # ws) m = None"
proof -
  note st = remember_stored [OF assms(1)]
  obtain npos where rows: "load_rows m =
      map (\<lambda>r. if attribute_key l ''user'' \<noteq> None \<and> conflicts l ''user'' (source_status ''reflection'') r
               then tombstone (ep_name (e_now ev)) (stamp_of (e_now ev)) r else r) (load_rows s)
      @ [new_row ev (m_path s) l ''user'' npos ''reflection'' (find_superseded l ''user'' (load_rows s) (source_status ''reflection''))]"
    using stored_rows [of s ev l "''reflection''"] st assms(1,2) by (auto simp: assms(3,4) speaker_of_def)
  let ?r = "new_row ev (m_path s) l ''user'' npos ''reflection'' (find_superseded l ''user'' (load_rows s) (source_status ''reflection''))"
  have p: "m_path m \<noteq> []" using path_remember [of ev l "''reflection''" s] st by (simp add: assms(1))
  have le: "surprisal l [] (from_registry now ''user'' m) \<le> 1"
  proof (rule conclusion_informs_little [OF p, of ?r])
    show "?r \<in> set (load_rows m)" by (simp add: rows)
    show "live ?r" "slot_of (r_class ?r) = slot_of (classify l)" "words3 l \<subseteq> words3 (strip_prefix (r_text ?r))" "spk ?r = ''user''"
      by (simp_all add: row_simps assms(7) spk_def or_str_def get_str_def)
    show "\<forall>q \<in> set (load_rows m). 1 \<le> or_int (r_mentions q) 1"
      using assms(9) by (auto simp: rows row_simps tombstone_def or_int_def)
  qed
  then have "conclude f (wrote_line (l, Stored fct old mi) # ws) m = None"
    using assms(8,10,11) by (simp add: conclude_def Let_def stored_line_spoken assms(5))
  with le show ?thesis by blast
qed

theorem conclusion_stays_unsaid_witness:
  "surprisal ''Knack likes quiet evenings'' []
     (from_registry 0 ''user'' (snd (remember (demo_envs 0) ''Knack likes quiet evenings'' ''reflection'' (demo_store_of [])))) \<le> 1"
proof -
  let ?l = "''Knack likes quiet evenings''" and ?s = "demo_store_of []"
  let ?m = "snd (remember (demo_envs 0) ?l ''reflection'' ?s)"
  have "fst (remember (demo_envs 0) ?l ''reflection'' ?s) = Stored ?l None False" by code_simp
  then have r: "remember (demo_envs 0) ?l ''reflection'' ?s = (Stored ?l None False, ?m)" by (metis prod.collapse)
  have t: "normalize_fact ?l = ?l" "strip ?l = ?l" "strip_prefix ?l = ?l"
    "before '' -> '' (wrote_line (?l, Stored ?l None False)) = ?l" by code_simp+
  have m: "load_rows ?s = []" "m_author ?s = ''user''" by (simp_all add: demo_store_of_def load_rows_def)
  let ?f = "demo_reflection\<lparr>f_surprisal := (\<lambda>m t. Some (surprisal t [] (from_registry 0 ''user'' m)))\<rparr>"
  show ?thesis
    using conclusion_stays_unsaid [OF r _ m(2) t(1,2) _ t(3,4), of ?f 0] by (simp add: m distinct_names_def demo_reflection_def)
qed

end
