(* ===== verification/TaskLoop.thy ===== *)
theory TaskLoop imports Memory "HOL-Library.AList" begin

text \<open>
  The task loop of \<open>harness/control/task_loop.py\<close>. What the outside does in iteration \<open>j\<close> of a call is
  an argument: the elapsed time, the clock, the actuator (the text of \<open>run_with_tools\<close> and the
  observations it captured, \<open>None\<close> when it raises) and the verifier (\<open>None\<close> when it raises). A call
  returns \<open>None\<close> when the actuator's exception leaves it. The task files are an association list.
\<close>

datatype tstatus = Pending | Running | Done | Failed | Exhausted

record tstep =
  sp_n :: nat
  sp_action :: string
  sp_obs :: string
  sp_ts :: real

record task =
  ta_id :: string
  ta_goal :: string
  ta_status :: tstatus
  ta_steps :: "tstep list"
  ta_result :: string
  ta_created :: real
  ta_updated :: real

type_synonym task_store = "(string \<times> task) list"

record task_env =
  te_elapsed :: "nat \<Rightarrow> real"
  te_now :: "nat \<Rightarrow> real"
  te_act :: "nat \<Rightarrow> string \<Rightarrow> (string \<times> string list) option"
  te_verify :: "(nat \<Rightarrow> bool option) option"

definition touch :: "real \<Rightarrow> task \<Rightarrow> task" where
  "touch now t = t\<lparr>ta_updated := now\<rparr>"

definition save_task :: "task \<Rightarrow> task_store \<Rightarrow> task_store" where
  "save_task t st = AList.update (ta_id t) t st"

definition load_task :: "string \<Rightarrow> task_store \<Rightarrow> task option" where
  "load_task i st = map_of st i"

section \<open>The prompt of a step\<close>

definition step_lines :: "tstep \<Rightarrow> string list" where
  "step_lines s =
     [''[step '' @ dec_nat (sp_n s) @ ''] '' @ take 300 (strip (sp_action s)),
      ''   -> '' @ take 300 (strip (sp_obs s))]"

definition plan_prompt :: "task \<Rightarrow> string" where
  "plan_prompt t =
     join nl ([''GOAL: '' @ ta_goal t, []]
       @ (if ta_steps t = [] then []
          else [''Progress so far:'']
            @ concat (map step_lines (drop (length (ta_steps t) - 6) (ta_steps t))) @ [[]])
       @ [''Do the NEXT step now (one tool call), or reply 'DONE:'/'BLOCKED:'.''])"

section \<open>Verdict lines\<close>

definition says :: "string \<Rightarrow> string \<Rightarrow> bool" where
  "says w low \<longleftrightarrow> startswith low w \<or> contains low (nl @ w)"

fun after :: "string \<Rightarrow> string \<Rightarrow> string" where
  "after sep [] = []"
| "after sep (c # s) = (if startswith (c # s) sep then drop (length sep) (c # s) else after sep s)"

definition claim :: "string \<Rightarrow> string \<Rightarrow> string" where
  "claim w low = take 500 (strip (after w low))"

definition REJECTED :: string where
  "REJECTED = nl @ ''[verify] Your 'DONE' claim did NOT pass verification - the goal is not actually met yet. Look again (did your edit really land?) and keep working.''"

definition rejects :: "task_env \<Rightarrow> nat \<Rightarrow> bool" where
  "rejects v j \<longleftrightarrow> (case te_verify v of None \<Rightarrow> False | Some f \<Rightarrow> f j \<noteq> Some True)"

definition new_step :: "task_env \<Rightarrow> nat \<Rightarrow> string \<Rightarrow> string list \<Rightarrow> task \<Rightarrow> tstep" where
  "new_step v j txt captured t =
     \<lparr>sp_n = length (ta_steps t) + 1, sp_action = txt,
      sp_obs = (if captured = [] then ''(no tool call this step)'' else join nl captured), sp_ts = te_now v j\<rparr>"

definition add_step :: "tstep \<Rightarrow> task \<Rightarrow> task" where
  "add_step s t = t\<lparr>ta_steps := ta_steps t @ [s]\<rparr>"

definition close_task :: "real \<Rightarrow> tstatus \<Rightarrow> string \<Rightarrow> task \<Rightarrow> task" where
  "close_task now status result t = touch now (t\<lparr>ta_status := status, ta_result := result\<rparr>)"

definition stopped :: "task_env \<Rightarrow> nat \<Rightarrow> task \<Rightarrow> string" where
  "stopped v j t =
     (if ta_result t \<noteq> [] then ta_result t
      else ''(stopped after '' @ dec_nat (length (ta_steps t)) @ '' steps / ''
             @ dec_nat (nat (py_round (te_elapsed v j))) @ ''s without a DONE)'')"

section \<open>The loop\<close>

text \<open>One iteration: the exception of the actuator, a final state, or a state to go on from.\<close>

datatype turn_out = Crash | Final task | Next task

definition task_turn :: "task_env \<Rightarrow> nat \<Rightarrow> real \<Rightarrow> nat \<Rightarrow> task \<Rightarrow> turn_out" where
  "task_turn v max_steps budget j t =
     (if length (ta_steps t) < max_steps \<and> te_elapsed v j < budget
      then (case te_act v j (plan_prompt t) of
              None \<Rightarrow> Crash
            | Some (txt, captured) \<Rightarrow>
                (let s = new_step v j txt captured t; low = strip txt in
                 if says ''DONE:'' low
                 then (if rejects v j
                       then Next (touch (te_now v j) (add_step (s\<lparr>sp_obs := sp_obs s @ REJECTED\<rparr>) t))
                       else Final (close_task (te_now v j) Done (claim ''DONE:'' low) (add_step s t)))
                 else if says ''BLOCKED:'' low
                 then Final (close_task (te_now v j) Failed (claim ''BLOCKED:'' low) (add_step s t))
                 else Next (touch (te_now v j) (add_step s t))))
      else Final (close_task (te_now v j) Exhausted (stopped v j t) t))"

lemmas task_fields = touch_def add_step_def close_task_def new_step_def

lemma turn_next:
  assumes "task_turn v mx b j t = Next t1"
  shows "\<exists>s. ta_steps t1 = ta_steps t @ [s] \<and> sp_n s = length (ta_steps t) + 1 \<and> length (ta_steps t) < mx
    \<and> ta_id t1 = ta_id t \<and> ta_goal t1 = ta_goal t \<and> ta_status t1 = ta_status t \<and> ta_result t1 = ta_result t
    \<and> ta_created t1 = ta_created t"
  using assms by (auto simp: task_turn_def Let_def task_fields split: if_split_asm option.splits prod.splits)

lemma turn_final:
  assumes "task_turn v mx b j t = Final t1"
  shows "ta_id t1 = ta_id t \<and> ta_goal t1 = ta_goal t \<and> ta_status t1 \<in> {Done, Failed, Exhausted}
    \<and> (ta_steps t1 = ta_steps t
       \<or> (\<exists>s. ta_steps t1 = ta_steps t @ [s] \<and> sp_n s = length (ta_steps t) + 1 \<and> length (ta_steps t) < mx))"
  using assms by (auto simp: task_turn_def Let_def task_fields split: if_split_asm option.splits prod.splits)

function task_loop ::
  "task_env \<Rightarrow> nat \<Rightarrow> real \<Rightarrow> nat \<Rightarrow> task \<Rightarrow> task_store \<Rightarrow> task option \<times> task_store" where
  "task_loop v max_steps budget j t st =
     (case task_turn v max_steps budget j t of
        Crash \<Rightarrow> (None, st)
      | Final t1 \<Rightarrow> (Some t1, save_task t1 st)
      | Next t1 \<Rightarrow> task_loop v max_steps budget (j + 1) t1 (save_task t1 st))"
  by pat_completeness auto
termination
  by (relation "measure (\<lambda>(v, m, b, j, t, st). m - length (ta_steps t))") (auto dest: turn_next)

declare task_loop.simps [simp del]

definition fresh_task :: "string \<Rightarrow> string \<Rightarrow> real \<Rightarrow> task" where
  "fresh_task i goal now =
     \<lparr>ta_id = i, ta_goal = goal, ta_status = Pending, ta_steps = [], ta_result = [], ta_created = now, ta_updated = 0\<rparr>"

definition start_task :: "string \<Rightarrow> string option \<Rightarrow> string \<Rightarrow> real \<Rightarrow> task_store \<Rightarrow> task" where
  "start_task goal task_id uuid now st =
     (let i = (case task_id of None \<Rightarrow> [] | Some i \<Rightarrow> i);
          t = (case (if i = [] then None else load_task i st) of
                 Some t \<Rightarrow> t | None \<Rightarrow> fresh_task (if i = [] then uuid else i) goal now);
          t1 = (if ta_goal t = [] then t\<lparr>ta_goal := goal\<rparr> else t)
      in touch now (t1\<lparr>ta_status := Running\<rparr>))"

definition run_task ::
  "task_env \<Rightarrow> string \<Rightarrow> string option \<Rightarrow> string \<Rightarrow> nat \<Rightarrow> real \<Rightarrow> real \<Rightarrow> task_store \<Rightarrow> task option \<times> task_store" where
  "run_task v goal task_id uuid max_steps budget now st =
     (let t = start_task goal task_id uuid now st in task_loop v max_steps budget 0 t (save_task t st))"

section \<open>The work queue\<close>

definition list_tasks :: "tstatus option \<Rightarrow> task_store \<Rightarrow> task list" where
  "list_tasks status st =
     filter (\<lambda>t. status = None \<or> status = Some (ta_status t)) (map snd (sort_key fst st))"

definition post_task :: "string \<Rightarrow> string \<Rightarrow> real \<Rightarrow> task_store \<Rightarrow> string \<times> task_store" where
  "post_task goal uuid now st = (uuid, save_task (touch now (fresh_task uuid goal now)) st)"

definition advance_pending_task ::
  "task_env \<Rightarrow> nat \<Rightarrow> real \<Rightarrow> real \<Rightarrow> task_store \<Rightarrow> (task option \<times> task_store) option" where
  "advance_pending_task v max_steps budget now st =
     (case sort_key ta_created (list_tasks (Some Pending) st) of
        [] \<Rightarrow> None
      | t # ts \<Rightarrow> Some (run_task v (ta_goal t) (Some (ta_id t)) [] max_steps budget now st))"

section \<open>Bounded, steps_numbered, verified\<close>

definition steps_numbered :: "task \<Rightarrow> bool" where
  "steps_numbered t \<longleftrightarrow> map sp_n (ta_steps t) = [1..<length (ta_steps t) + 1]"

lemma steps_numbered_step: "steps_numbered t \<Longrightarrow> ta_steps t1 = ta_steps t @ [s] \<Longrightarrow> sp_n s = length (ta_steps t) + 1 \<Longrightarrow> steps_numbered t1"
  by (simp add: steps_numbered_def)

lemma load_save_task [simp]: "load_task i (save_task t st) = (if i = ta_id t then Some t else load_task i st)"
  by (simp add: load_task_def save_task_def update_conv')

text \<open>A call that returns has a final status, has kept the steps it found, added at most up to the limit,
  and left its result on disk; other tasks are not touched, whether it returns or not.\<close>

lemma loop_result:
  "task_loop v mx b j t st = (Some t', st') \<Longrightarrow>
     ta_id t' = ta_id t \<and> ta_goal t' = ta_goal t \<and> ta_status t' \<in> {Done, Failed, Exhausted}
     \<and> prefix (ta_steps t) (ta_steps t') \<and> length (ta_steps t') \<le> max mx (length (ta_steps t))
     \<and> (steps_numbered t \<longrightarrow> steps_numbered t') \<and> load_task (ta_id t) st' = Some t'"
proof (induction v mx b j t st rule: task_loop.induct)
  case (1 v mx b j t st)
  show ?case
  proof (cases "task_turn v mx b j t")
    case Crash
    then show ?thesis using "1.prems" by (simp add: task_loop.simps [of v mx b j t st])
  next
    case (Final t1)
    then have "t' = t1 \<and> st' = save_task t1 st" using "1.prems" by (auto simp: task_loop.simps [of v mx b j t st])
    moreover have "steps_numbered t \<longrightarrow> steps_numbered t1"
      using turn_final [OF Final] steps_numbered_step [of t t1] by (auto simp: steps_numbered_def)
    ultimately show ?thesis using turn_final [OF Final] by (auto simp: prefix_def)
  next
    case (Next t1)
    then have l: "task_loop v mx b (j + 1) t1 (save_task t1 st) = (Some t', st')"
      using "1.prems" by (simp add: task_loop.simps [of v mx b j t st])
    obtain s where s: "ta_steps t1 = ta_steps t @ [s]" "sp_n s = length (ta_steps t) + 1" "length (ta_steps t) < mx"
      "ta_id t1 = ta_id t" "ta_goal t1 = ta_goal t" using turn_next [OF Next] by blast
    from "1.IH" [OF Next l] s steps_numbered_step [OF _ s(1,2)] show ?thesis by (auto simp: prefix_def)
  qed
qed

lemma loop_cases:
  "task_turn v mx b j t = Crash \<Longrightarrow> task_loop v mx b j t st = (None, st)"
  "task_turn v mx b j t = Final t1 \<Longrightarrow> task_loop v mx b j t st = (Some t1, save_task t1 st)"
  "task_turn v mx b j t = Next t1 \<Longrightarrow> task_loop v mx b j t st = task_loop v mx b (j + 1) t1 (save_task t1 st)"
  by (simp_all add: task_loop.simps [of v mx b j t st])

lemma loop_others:
  "i \<noteq> ta_id t \<Longrightarrow> load_task i (snd (task_loop v mx b j t st)) = load_task i st"
proof (induction v mx b j t st rule: task_loop.induct)
  case (1 v mx b j t st)
  show ?case
  proof (cases "task_turn v mx b j t")
    case (Final t1)
    then show ?thesis using "1.prems" turn_final [OF Final] by (simp add: loop_cases(2))
  next
    case (Next t1)
    then have "ta_id t1 = ta_id t" using turn_next [OF Next] by blast
    then show ?thesis using "1.IH" [OF Next] "1.prems" by (simp add: loop_cases(3) [OF Next])
  qed (simp add: loop_cases(1))
qed

lemma loop_own:
  "load_task (ta_id t) st = Some t \<Longrightarrow> ta_status t = Running \<Longrightarrow>
     \<exists>t'. load_task (ta_id t) (snd (task_loop v mx b j t st)) = Some t' \<and> ta_id t' = ta_id t
       \<and> ta_status t' = (case fst (task_loop v mx b j t st) of None \<Rightarrow> Running | Some u \<Rightarrow> ta_status u)"
proof (induction v mx b j t st rule: task_loop.induct)
  case (1 v mx b j t st)
  show ?case
  proof (cases "task_turn v mx b j t")
    case Crash
    then show ?thesis using "1.prems" by (simp add: loop_cases(1))
  next
    case (Final t1)
    then show ?thesis using turn_final [OF Final] by (simp add: loop_cases(2) [OF Final])
  next
    case (Next t1)
    then have s: "ta_id t1 = ta_id t" "ta_status t1 = Running" using turn_next [OF Next] "1.prems"(2) by auto
    show ?thesis using "1.IH" [OF Next] s by (simp add: loop_cases(3) [OF Next])
  qed
qed

text \<open>A task is done only on a claim of its last step that the verifier did not refuse.\<close>

lemma loop_done:
  "task_loop v mx b j t st = (Some t', st') \<Longrightarrow> ta_status t' = Done \<Longrightarrow>
     \<exists>k s. ta_steps t' \<noteq> [] \<and> last (ta_steps t') = s \<and> says ''DONE:'' (strip (sp_action s)) \<and> \<not> rejects v k
       \<and> ta_result t' = claim ''DONE:'' (strip (sp_action s))"
proof (induction v mx b j t st rule: task_loop.induct)
  case (1 v mx b j t st)
  show ?case
  proof (cases "task_turn v mx b j t")
    case Crash
    then show ?thesis using "1.prems" by (simp add: task_loop.simps [of v mx b j t st])
  next
    case (Final t1)
    then have "t' = t1" using "1.prems" by (simp add: task_loop.simps [of v mx b j t st])
    then show ?thesis using Final "1.prems"(2)
      by (auto simp: task_turn_def Let_def task_fields split: if_split_asm option.splits prod.splits)
  next
    case (Next t1)
    then show ?thesis using "1.IH" [OF Next] "1.prems" by (simp add: task_loop.simps [of v mx b j t st])
  qed
qed

section \<open>A call that was cut off can be taken up again\<close>

definition later_env :: "nat \<Rightarrow> task_env \<Rightarrow> task_env" where
  "later_env k v = \<lparr>te_elapsed = (\<lambda>j. te_elapsed v (j + k)), te_now = (\<lambda>j. te_now v (j + k)),
     te_act = (\<lambda>j. te_act v (j + k)), te_verify = map_option (\<lambda>f j. f (j + k)) (te_verify v)\<rparr>"

definition cut_at :: "nat \<Rightarrow> task_env \<Rightarrow> task_env" where
  "cut_at k v = v\<lparr>te_act := (\<lambda>j p. if j < k then te_act v j p else None)\<rparr>"

lemma later_fields [simp]:
  "te_elapsed (later_env k v) j = te_elapsed v (j + k)" "te_now (later_env k v) j = te_now v (j + k)"
  "te_act (later_env k v) j = te_act v (j + k)" "rejects (later_env k v) j = rejects v (j + k)"
  "new_step (later_env k v) j = new_step v (j + k)" "stopped (later_env k v) j = stopped v (j + k)"
  by (auto simp: later_env_def rejects_def new_step_def stopped_def fun_eq_iff split: option.split)

lemma turn_later: "task_turn (later_env k v) mx b j t = task_turn v mx b (j + k) t"
  unfolding task_turn_def later_fields ..

lemma loop_later: "task_loop (later_env k v) mx b j t st = task_loop v mx b (j + k) t st"
proof (induction v mx b "j + k" t st arbitrary: j rule: task_loop.induct)
  case (1 v mx b t st)
  show ?case
    using "1" [of _ "j + 1"] by (simp add: task_loop.simps [of _ _ _ _ t st] turn_later split: turn_out.split)
qed

lemma turn_cong:
  assumes "te_elapsed u j = te_elapsed v j" "te_now u j = te_now v j" "te_act u j = te_act v j" "rejects u j = rejects v j"
  shows "task_turn u mx b j t = task_turn v mx b j t"
proof -
  have n: "new_step u j = new_step v j" and s: "stopped u j = stopped v j"
    by (simp_all add: new_step_def stopped_def fun_eq_iff assms)
  show ?thesis unfolding task_turn_def assms n s ..
qed

lemma turn_cut: "j < k \<Longrightarrow> task_turn (cut_at k v) mx b j t = task_turn v mx b j t"
  by (rule turn_cong) (simp_all add: cut_at_def rejects_def)

lemma loop_cut:
  assumes "task_loop (cut_at k v) mx b j t st = (None, st1)" "task_loop v mx b j t st = (Some t', st')" "j \<le> k"
    and "load_task (ta_id t) st = Some t"
  shows "\<exists>t1. load_task (ta_id t) st1 = Some t1 \<and> ta_id t1 = ta_id t \<and> ta_goal t1 = ta_goal t
    \<and> ta_status t1 = ta_status t \<and> task_loop v mx b k t1 st1 = (Some t', st')"
  using assms
proof (induction v mx b j t st rule: task_loop.induct)
  case (1 v mx b j t st)
  show ?case
  proof (cases "j = k")
    case True
    have "st1 = st"
      using "1.prems"(1) True
      by (cases "task_turn (cut_at k v) mx b j t")
         (auto simp: loop_cases cut_at_def task_turn_def split: if_split_asm)
    then show ?thesis using "1.prems" True by auto
  next
    case False
    then have lt: "j < k" using "1.prems"(3) by simp
    show ?thesis
    proof (cases "task_turn v mx b j t")
      case (Next t1)
      then have n: "task_turn (cut_at k v) mx b j t = Next t1" using turn_cut [OF lt] by simp
      have f: "ta_id t1 = ta_id t" "ta_goal t1 = ta_goal t" "ta_status t1 = ta_status t" using turn_next [OF Next] by auto
      have "\<exists>t2. load_task (ta_id t1) st1 = Some t2 \<and> ta_id t2 = ta_id t1 \<and> ta_goal t2 = ta_goal t1
        \<and> ta_status t2 = ta_status t1 \<and> task_loop v mx b k t2 st1 = (Some t', st')"
        by (rule "1.IH" [OF Next])
           (use "1.prems" lt in \<open>simp_all add: loop_cases(3) [OF Next] loop_cases(3) [OF n]\<close>)
      then show ?thesis by (simp add: f)
    qed (use "1.prems" turn_cut [OF lt, of v mx b t] in \<open>auto simp: loop_cases\<close>)
  qed
qed

lemma turn_clock:
  assumes "te_elapsed v j < b" "te_elapsed u j < b" "te_act u j = te_act v j" "te_now u j = te_now v j" "rejects u j = rejects v j"
    and "task_turn v mx b j t = out" "\<And>t1. out = Final t1 \<Longrightarrow> ta_status t1 \<noteq> Exhausted"
  shows "task_turn u mx b j t = out"
proof -
  have "length (ta_steps t) < mx"
    using assms(6,7) by (auto simp: task_turn_def close_task_def touch_def split: if_split_asm)
  moreover have n: "new_step u j = new_step v j" by (simp add: new_step_def fun_eq_iff assms(4))
  ultimately show ?thesis using assms(1,2,6) unfolding task_turn_def assms(3-5) n by simp
qed

lemma loop_clock:
  assumes "task_loop v mx b j t st = (Some t', st')" "ta_status t' \<noteq> Exhausted" "\<And>i. te_elapsed v i < b" "\<And>i. e i < b"
  shows "task_loop (v\<lparr>te_elapsed := e\<rparr>) mx b j t st = (Some t', st')"
  using assms
proof (induction v mx b j t st rule: task_loop.induct)
  case (1 v mx b j t st)
  have turn: "task_turn (v\<lparr>te_elapsed := e\<rparr>) mx b j t = task_turn v mx b j t"
    if "\<And>t1. task_turn v mx b j t = Final t1 \<Longrightarrow> ta_status t1 \<noteq> Exhausted"
    by (rule turn_clock [OF _ _ _ _ _ refl]) (use "1.prems"(3,4) that in \<open>auto simp: rejects_def\<close>)
  show ?case
  proof (cases "task_turn v mx b j t")
    case (Next t1)
    have "task_loop (v\<lparr>te_elapsed := e\<rparr>) mx b (j + 1) t1 (save_task t1 st) = (Some t', st')"
      by (rule "1.IH" [OF Next]) (use "1.prems" in \<open>auto simp: loop_cases(3) [OF Next]\<close>)
    then show ?thesis using turn Next by (simp add: loop_cases(3))
  next
    case (Final t1)
    then show ?thesis using turn "1.prems"(1,2) by (auto simp: loop_cases(2))
  qed (use "1.prems" in \<open>simp add: loop_cases(1)\<close>)
qed

lemma turn_touch: "task_turn v mx b j (touch now t) = task_turn v mx b j t"
  by (simp add: task_turn_def task_fields plan_prompt_def stopped_def Let_def split: option.split)

lemma loop_touch:
  assumes "task_loop v mx b j t st = (Some t', st')"
  shows "task_loop v mx b j (touch now t) (save_task (touch now t) st) = (Some t', st')"
proof -
  have id: "ta_id (touch now t) = ta_id t" by (simp add: touch_def)
  show ?thesis
  proof (cases "task_turn v mx b j t")
    case Crash
    then show ?thesis using assms by (simp add: loop_cases(1))
  next
    case (Final t1)
    then have f: "task_turn v mx b j (touch now t) = Final t1" "ta_id t1 = ta_id t"
      using turn_final [OF Final] by (simp_all add: turn_touch)
    have "AList.update (ta_id t) t1 st = st' \<and> t1 = t'"
      using assms by (auto simp: loop_cases(2) [OF Final] save_task_def f(2))
    then show ?thesis using f(2)
      by (auto simp: loop_cases(2) [OF f(1)] save_task_def id update_last)
  next
    case (Next t1)
    then have f: "task_turn v mx b j (touch now t) = Next t1" "ta_id t1 = ta_id t"
      using turn_next [OF Next] by (auto simp: turn_touch)
    show ?thesis using assms
      by (simp add: loop_cases(3) [OF Next] loop_cases(3) [OF f(1)] save_task_def id f(2) update_last)
  qed
qed

lemma resumed:
  assumes "task_loop (cut_at k v) mx b 0 t st = (None, st1)" "task_loop v mx b 0 t st = (Some t', st')"
    and "ta_status t' \<noteq> Exhausted" "\<And>i. te_elapsed v i < b" "\<And>i. e i < b"
    and "load_task (ta_id t) st = Some t" "ta_status t = Running" "ta_id t \<noteq> []" "ta_goal t \<noteq> []"
  shows "run_task ((later_env k v)\<lparr>te_elapsed := e\<rparr>) goal (Some (ta_id t)) uuid mx b now st1 = (Some t', st')"
proof -
  obtain t1 where t1: "load_task (ta_id t) st1 = Some t1" "ta_id t1 = ta_id t" "ta_goal t1 = ta_goal t"
    "ta_status t1 = Running" "task_loop v mx b k t1 st1 = (Some t', st')"
    using loop_cut [OF assms(1,2) _ assms(6)] assms(7) by auto
  have same: "t1\<lparr>ta_status := Running\<rparr> = t1" using t1(4) by (cases t1) simp
  have s: "start_task goal (Some (ta_id t)) uuid now st1 = touch now t1"
    using t1(1,3) same assms(8,9) by (simp add: start_task_def Let_def)
  have "task_loop (later_env k v) mx b 0 t1 st1 = (Some t', st')" using t1(5) by (simp add: loop_later)
  then have "task_loop ((later_env k v)\<lparr>te_elapsed := e\<rparr>) mx b 0 t1 st1 = (Some t', st')"
    by (rule loop_clock) (use assms(3-5) in simp_all)
  from loop_touch [OF this] show ?thesis by (simp add: run_task_def s Let_def)
qed

section \<open>The queue drains\<close>

definition waiting :: "task_store \<Rightarrow> string set" where
  "waiting st = {i. \<exists>t. load_task i st = Some t \<and> ta_status t = Pending}"

definition store_ok :: "task_store \<Rightarrow> bool" where
  "store_ok st \<longleftrightarrow> distinct (map fst st) \<and> (\<forall>(i, t) \<in> set st. ta_id t = i \<and> i \<noteq> [])"

lemma run_own:
  assumes "start_task goal tid uuid now st = t"
  shows "\<exists>t'. load_task (ta_id t) (snd (run_task v goal tid uuid mx b now st)) = Some t' \<and> ta_status t' \<noteq> Pending"
    and "i \<noteq> ta_id t \<Longrightarrow> load_task i (snd (run_task v goal tid uuid mx b now st)) = load_task i st"
proof -
  have r: "ta_status t = Running" using assms by (auto simp: start_task_def Let_def touch_def)
  obtain t' where t': "load_task (ta_id t) (snd (task_loop v mx b 0 t (save_task t st))) = Some t'"
    "ta_status t' = (case fst (task_loop v mx b 0 t (save_task t st)) of None \<Rightarrow> Running | Some u \<Rightarrow> ta_status u)"
    using loop_own [of t "save_task t st" v mx b 0] r by auto
  have "ta_status t' \<noteq> Pending"
  proof (cases "fst (task_loop v mx b 0 t (save_task t st))")
    case (Some u)
    then have "task_loop v mx b 0 t (save_task t st) = (Some u, snd (task_loop v mx b 0 t (save_task t st)))"
      by (metis prod.collapse)
    from loop_result [OF this] t'(2) Some show ?thesis by auto
  qed (simp add: t')
  then show "\<exists>t'. load_task (ta_id t) (snd (run_task v goal tid uuid mx b now st)) = Some t' \<and> ta_status t' \<noteq> Pending"
    using t'(1) by (simp add: run_task_def assms Let_def)
  show "i \<noteq> ta_id t \<Longrightarrow> load_task i (snd (run_task v goal tid uuid mx b now st)) = load_task i st"
    using loop_others [of i t v mx b 0 "save_task t st"] by (simp add: run_task_def assms Let_def)
qed

lemma list_tasks_set: "set (list_tasks status st) = {t. \<exists>i. (i, t) \<in> set st \<and> (status = None \<or> status = Some (ta_status t))}"
  by (force simp: list_tasks_def)

lemma advance_takes_one:
  assumes "store_ok st" "advance_pending_task v mx b now st = Some (out, st')"
  shows "\<exists>t. load_task (ta_id t) st = Some t \<and> ta_status t = Pending
    \<and> (\<forall>u. load_task (ta_id u) st = Some u \<longrightarrow> ta_status u = Pending \<longrightarrow> ta_created t \<le> ta_created u)
    \<and> waiting st' = waiting st - {ta_id t} \<and> (\<forall>i. i \<noteq> ta_id t \<longrightarrow> load_task i st' = load_task i st)
    \<and> (\<exists>t'. load_task (ta_id t) st' = Some t' \<and> ta_status t' \<noteq> Pending)"
proof -
  obtain t ts where p: "sort_key ta_created (list_tasks (Some Pending) st) = t # ts"
    and r: "run_task v (ta_goal t) (Some (ta_id t)) [] mx b now st = (out, st')"
    using assms(2) by (auto simp: advance_pending_task_def split: list.splits)
  have "set (t # ts) = set (list_tasks (Some Pending) st)" by (metis p set_sort)
  then have mem: "t \<in> set (list_tasks (Some Pending) st)" by auto
  then obtain i where i: "(i, t) \<in> set st" "ta_status t = Pending" by (auto simp: list_tasks_set)
  then have id: "ta_id t = i" "i \<noteq> []" using assms(1) by (auto simp: store_ok_def)
  have l: "load_task (ta_id t) st = Some t"
    using i(1) assms(1) by (simp add: load_task_def id store_ok_def)
  have "sorted (map ta_created (t # ts))" by (metis p sorted_sort_key)
  then have le: "ta_created t \<le> ta_created u" if "u \<in> set (t # ts)" for u using that by auto
  have oldest: "ta_created t \<le> ta_created u" if "load_task (ta_id u) st = Some u" "ta_status u = Pending" for u
  proof -
    have "(ta_id u, u) \<in> set st" using that(1) by (simp add: load_task_def map_of_SomeD)
    then have "u \<in> set (list_tasks (Some Pending) st)" using that(2) by (auto simp: list_tasks_set)
    then show ?thesis using le \<open>set (t # ts) = set (list_tasks (Some Pending) st)\<close> by blast
  qed
  have start: "ta_id (start_task (ta_goal t) (Some (ta_id t)) [] now st) = ta_id t"
    using l id by (simp add: start_task_def Let_def touch_def)
  note own = run_own [OF refl, where goal = "ta_goal t" and tid = "Some (ta_id t)" and uuid = "[]" and now = now and st = st
      and v = v and mx = mx and b = b, unfolded start r snd_conv]
  have "waiting st' = waiting st - {ta_id t}"
    using own by (auto simp: waiting_def) (metis option.inject)+
  then show ?thesis using l i(2) oldest own by blast
qed

text \<open>What crashed stays marked as running, and the queue never looks at it again.\<close>

lemma crashed_is_stranded:
  assumes "task_loop v mx b 0 t (save_task t st) = (None, st')" "ta_status t = Running"
  shows "\<exists>t'. load_task (ta_id t) st' = Some t' \<and> ta_status t' = Running \<and> ta_id t \<notin> waiting st'"
  using loop_own [of t "save_task t st" v mx b 0] assms by (auto simp: waiting_def)

lemma update_all: "\<forall>p \<in> set xs. P p \<Longrightarrow> P (k, u) \<Longrightarrow> \<forall>p \<in> set (AList.update k u xs). P p"
  by (induction xs) auto

lemma save_ok: "store_ok st \<Longrightarrow> ta_id t \<noteq> [] \<Longrightarrow> store_ok (save_task t st)"
  unfolding store_ok_def save_task_def by (intro conjI update_all) (auto simp: distinct_update)

lemma loop_ok: "store_ok st \<Longrightarrow> ta_id t \<noteq> [] \<Longrightarrow> store_ok (snd (task_loop v mx b j t st))"
proof (induction v mx b j t st rule: task_loop.induct)
  case (1 v mx b j t st)
  show ?case
  proof (cases "task_turn v mx b j t")
    case (Final t1)
    then show ?thesis using "1.prems" turn_final [OF Final] by (simp add: loop_cases(2) save_ok)
  next
    case (Next t1)
    then have "ta_id t1 = ta_id t" using turn_next [OF Next] by blast
    then show ?thesis using "1.IH" [OF Next] "1.prems" by (simp add: loop_cases(3) [OF Next] save_ok)
  qed (use "1.prems" in \<open>simp add: loop_cases(1)\<close>)
qed

lemma waiting_member: "store_ok st \<Longrightarrow> waiting st = ta_id ` set (list_tasks (Some Pending) st)"
proof -
  assume ok: "store_ok st"
  then have m: "load_task i st = Some t \<longleftrightarrow> (i, t) \<in> set st" for i t
    by (simp add: load_task_def store_ok_def)
  show ?thesis using ok by (force simp: waiting_def m list_tasks_set store_ok_def)
qed

lemma advance_idle: "store_ok st \<Longrightarrow> advance_pending_task v mx b now st = None \<longleftrightarrow> waiting st = {}"
proof -
  assume ok: "store_ok st"
  have "sort_key ta_created xs = [] \<longleftrightarrow> xs = []" for xs by (metis length_0_conv length_sort)
  moreover have "advance_pending_task v mx b now st = None \<longleftrightarrow> sort_key ta_created (list_tasks (Some Pending) st) = []"
    by (cases "sort_key ta_created (list_tasks (Some Pending) st)") (simp_all add: advance_pending_task_def)
  ultimately show ?thesis by (simp add: waiting_member [OF ok])
qed

lemma advance_ok:
  assumes "store_ok st" "advance_pending_task v mx b now st = Some (out, st')"
  shows "store_ok st'"
proof -
  obtain t ts where p: "sort_key ta_created (list_tasks (Some Pending) st) = t # ts"
    and r: "run_task v (ta_goal t) (Some (ta_id t)) [] mx b now st = (out, st')"
    using assms(2) by (auto simp: advance_pending_task_def split: list.splits)
  have "set (t # ts) = set (list_tasks (Some Pending) st)" by (metis p set_sort)
  then have "t \<in> set (list_tasks (Some Pending) st)" by auto
  then obtain i where i: "(i, t) \<in> set st" by (auto simp: list_tasks_set)
  then have id: "ta_id t = i" "i \<noteq> []" using assms(1) by (auto simp: store_ok_def)
  have l: "load_task (ta_id t) st = Some t" using i assms(1) by (simp add: load_task_def id store_ok_def)
  have start: "ta_id (start_task (ta_goal t) (Some (ta_id t)) [] now st) = i"
    using l id by (simp add: start_task_def Let_def touch_def)
  have "st' = snd (task_loop v mx b 0 (start_task (ta_goal t) (Some (ta_id t)) [] now st)
      (save_task (start_task (ta_goal t) (Some (ta_id t)) [] now st) st))"
    using r by (simp add: run_task_def Let_def)
  then show ?thesis using loop_ok save_ok [OF assms(1)] start id(2) by simp
qed

text \<open>One call of the scheduler after the other, each with what the outside does in it.\<close>

fun advance_all :: "(task_env \<times> real) list \<Rightarrow> nat \<Rightarrow> real \<Rightarrow> task_store \<Rightarrow> task_store" where
  "advance_all [] mx b st = st"
| "advance_all ((v, now) # vs) mx b st =
     (case advance_pending_task v mx b now st of
        None \<Rightarrow> advance_all vs mx b st
      | Some (out, st') \<Rightarrow> advance_all vs mx b st')"

lemma waiting_finite: "finite (waiting st)"
proof -
  have "waiting st \<subseteq> fst ` set st" by (force simp: waiting_def load_task_def dest: map_of_SomeD)
  then show ?thesis by (rule finite_subset) simp
qed

lemma advance_all_waiting:
  "store_ok st \<Longrightarrow> card (waiting (advance_all vs mx b st)) = card (waiting st) - length vs"
proof (induction vs arbitrary: st)
  case (Cons p vs)
  obtain v now where p: "p = (v, now)" by (cases p)
  show ?case
  proof (cases "advance_pending_task v mx b now st")
    case None
    then have "waiting st = {}" using advance_idle [OF Cons.prems] by blast
    then show ?thesis using Cons by (simp add: p None)
  next
    case (Some o')
    obtain out st' where o': "o' = (out, st')" by (cases o')
    note a = advance_takes_one [OF Cons.prems Some [unfolded o']]
    obtain t where "load_task (ta_id t) st = Some t" "ta_status t = Pending" "waiting st' = waiting st - {ta_id t}"
      using a by blast
    then have "card (waiting st') = card (waiting st) - 1"
      using waiting_finite [of st] by (auto simp: waiting_def)
    then show ?thesis using Cons.IH advance_ok [OF Cons.prems Some [unfolded o']] by (simp add: p Some o')
  qed
qed simp

section \<open>Properties\<close>

definition demo_env :: task_env where
  "demo_env = \<lparr>te_elapsed = (\<lambda>j. 0), te_now = (\<lambda>j. 5),
     te_act = (\<lambda>j p. Some (if j = 0 then (''looking'', [''read x'']) else (''DONE: fixed'', []))), te_verify = None\<rparr>"

definition demo_store :: task_store where
  "demo_store = snd (post_task ''fix it'' ''t1'' 1 [])"





text \<open>
  C23. The queue drains, one task a call, oldest first: from a well-formed store, a call of the
  scheduler finds nothing exactly when nothing waits; otherwise it takes a waiting task of least
  creation time and leaves it not waiting, whatever the actuator does. So \<open>n\<close> calls take \<open>n\<close> tasks off
  the queue, and as many calls as there are waiting tasks empty it.
\<close>

theorem queue_drains:
  assumes "store_ok st"
  shows "(advance_pending_task v mx b now st = None \<longleftrightarrow> waiting st = {})
    \<and> (\<forall>out st'. advance_pending_task v mx b now st = Some (out, st') \<longrightarrow>
        store_ok st' \<and> (\<exists>t. load_task (ta_id t) st = Some t \<and> ta_status t = Pending \<and> waiting st' = waiting st - {ta_id t}
          \<and> (\<forall>u. load_task (ta_id u) st = Some u \<longrightarrow> ta_status u = Pending \<longrightarrow> ta_created t \<le> ta_created u)))
    \<and> card (waiting (advance_all vs mx b st)) = card (waiting st) - length vs
    \<and> (card (waiting st) \<le> length vs \<longrightarrow> waiting (advance_all vs mx b st) = {})"
proof -
  have "waiting (advance_all vs mx b st) = {}" if "card (waiting st) \<le> length vs"
    using advance_all_waiting [OF assms, of vs mx b] that waiting_finite by simp
  moreover have "store_ok st' \<and> (\<exists>t. load_task (ta_id t) st = Some t \<and> ta_status t = Pending \<and> waiting st' = waiting st - {ta_id t}
      \<and> (\<forall>u. load_task (ta_id u) st = Some u \<longrightarrow> ta_status u = Pending \<longrightarrow> ta_created t \<le> ta_created u))"
    if "advance_pending_task v mx b now st = Some (out, st')" for out st'
    using advance_ok [OF assms that] advance_takes_one [OF assms that] by blast
  ultimately show ?thesis
    using advance_idle [OF assms] advance_all_waiting [OF assms] by simp
qed

theorem queue_drains_witness:
  "waiting (advance_all [(demo_env, 2)] 5 10 demo_store) = {}"
proof -
  have ok: "store_ok demo_store" by code_simp
  have "map ta_id (list_tasks (Some Pending) demo_store) = [''t1'']" by code_simp
  then have "set (map ta_id (list_tasks (Some Pending) demo_store)) = {''t1''}" by simp
  then have "waiting demo_store = {''t1''}" by (simp add: waiting_member [OF ok])
  then show ?thesis using queue_drains [OF ok, of demo_env 5 10 2 "[(demo_env, 2)]"] by simp
qed

end
