(* ===== verification/Xxh64.thy ===== *)
theory Xxh64 imports Prelude "HOL-Library.Word" begin

unbundle bit_operations_syntax

text \<open>
  The tensor-table key of \<open>tools/model/xxh64.py\<close>: the hash over Python's unbounded integers with its
  explicit masks, and the same hash on 64-bit words. A byte is an integer from 0 to 255.
\<close>

definition M64 :: int where "M64 = 0xFFFFFFFFFFFFFFFF"

definition P1 :: int where "P1 = 0x9E3779B185EBCA87"

definition P2 :: int where "P2 = 0xC2B2AE3D27D4EB4F"

definition P3 :: int where "P3 = 0x165667B19E3779F9"

definition P4 :: int where "P4 = 0x85EBCA77C2B2AE63"

definition P5 :: int where "P5 = 0x27D4EB2F165667C5"

definition rotl :: "int \<Rightarrow> nat \<Rightarrow> int" where
  "rotl x r = (push_bit r x OR drop_bit (64 - r) x) AND M64"

definition xround :: "int \<Rightarrow> int \<Rightarrow> int" where
  "xround acc val = (rotl ((acc + val * P2) AND M64) 31 * P1) AND M64"

definition merge :: "int \<Rightarrow> int \<Rightarrow> int" where
  "merge acc val = ((acc XOR xround 0 val) * P1 + P4) AND M64"

text \<open>Little-endian reads: \<open>struct.unpack_from\<close> of the bytes at the front.\<close>

fun le :: "nat \<Rightarrow> int list \<Rightarrow> int" where
  "le 0 bs = 0"
| "le (Suc k) [] = 0"
| "le (Suc k) (b # bs) = b + 256 * le k bs"

type_synonym lanes = "int \<times> int \<times> int \<times> int"

function stripes :: "lanes \<Rightarrow> int list \<Rightarrow> lanes \<times> int list" where
  "stripes (v1, v2, v3, v4) bs =
     (if 32 \<le> length bs
      then stripes (xround v1 (le 8 bs), xround v2 (le 8 (drop 8 bs)), xround v3 (le 8 (drop 16 bs)),
                    xround v4 (le 8 (drop 24 bs))) (drop 32 bs)
      else ((v1, v2, v3, v4), bs))"
  by pat_completeness auto
termination by (relation "measure (\<lambda>(v, bs). length bs)") auto

function eights :: "int \<Rightarrow> int list \<Rightarrow> int \<times> int list" where
  "eights h bs =
     (if 8 \<le> length bs
      then eights ((rotl (h XOR xround 0 (le 8 bs)) 27 * P1 + P4) AND M64) (drop 8 bs)
      else (h, bs))"
  by pat_completeness auto
termination by (relation "measure (\<lambda>(h, bs). length bs)") auto

definition four :: "int \<Rightarrow> int list \<Rightarrow> int \<times> int list" where
  "four h bs =
     (if 4 \<le> length bs
      then ((rotl (h XOR ((le 4 bs * P1) AND M64)) 23 * P2 + P3) AND M64, drop 4 bs) else (h, bs))"

fun singles :: "int \<Rightarrow> int list \<Rightarrow> int" where
  "singles h [] = h"
| "singles h (b # bs) = singles ((rotl (h XOR ((b * P5) AND M64)) 11 * P1) AND M64) bs"

definition finish :: "int \<Rightarrow> int" where
  "finish h =
     (let h1 = h XOR drop_bit 33 h; h2 = (h1 * P2) AND M64; h3 = h2 XOR drop_bit 29 h2; h4 = (h3 * P3) AND M64
      in h4 XOR drop_bit 32 h4)"

definition start :: "int \<Rightarrow> int list \<Rightarrow> int \<times> int list" where
  "start seed bs =
     (if 32 \<le> length bs
      then (case stripes ((seed + P1 + P2) AND M64, (seed + P2) AND M64, seed AND M64, (seed - P1) AND M64) bs of
              ((v1, v2, v3, v4), rest) \<Rightarrow>
                (merge (merge (merge (merge ((rotl v1 1 + rotl v2 7 + rotl v3 12 + rotl v4 18) AND M64) v1) v2) v3) v4,
                 rest))
      else ((seed + P5) AND M64, bs))"

definition xxh64 :: "int list \<Rightarrow> int \<Rightarrow> int" where
  "xxh64 data seed =
     (case start seed data of
        (h0, bs0) \<Rightarrow>
          (case eights ((h0 + int (length data)) AND M64) bs0 of
             (h1, bs1) \<Rightarrow> (case four h1 bs1 of (h2, bs2) \<Rightarrow> finish (singles h2 bs2))))"

section \<open>The same hash on machine words\<close>

type_synonym u64 = "64 word"

definition wrotl :: "u64 \<Rightarrow> nat \<Rightarrow> u64" where
  "wrotl w r = push_bit r w OR drop_bit (64 - r) w"

definition wround :: "u64 \<Rightarrow> u64 \<Rightarrow> u64" where
  "wround acc val = wrotl (acc + val * word_of_int P2) 31 * word_of_int P1"

definition wmerge :: "u64 \<Rightarrow> u64 \<Rightarrow> u64" where
  "wmerge acc val = (acc XOR wround 0 val) * word_of_int P1 + word_of_int P4"

definition wle :: "nat \<Rightarrow> int list \<Rightarrow> u64" where
  "wle k bs = word_of_int (le k bs)"

type_synonym wlanes = "u64 \<times> u64 \<times> u64 \<times> u64"

function wstripes :: "wlanes \<Rightarrow> int list \<Rightarrow> wlanes \<times> int list" where
  "wstripes (v1, v2, v3, v4) bs =
     (if 32 \<le> length bs
      then wstripes (wround v1 (wle 8 bs), wround v2 (wle 8 (drop 8 bs)), wround v3 (wle 8 (drop 16 bs)),
                     wround v4 (wle 8 (drop 24 bs))) (drop 32 bs)
      else ((v1, v2, v3, v4), bs))"
  by pat_completeness auto
termination by (relation "measure (\<lambda>(v, bs). length bs)") auto

function weights :: "u64 \<Rightarrow> int list \<Rightarrow> u64 \<times> int list" where
  "weights h bs =
     (if 8 \<le> length bs
      then weights (wrotl (h XOR wround 0 (wle 8 bs)) 27 * word_of_int P1 + word_of_int P4) (drop 8 bs)
      else (h, bs))"
  by pat_completeness auto
termination by (relation "measure (\<lambda>(h, bs). length bs)") auto

definition wfour :: "u64 \<Rightarrow> int list \<Rightarrow> u64 \<times> int list" where
  "wfour h bs =
     (if 4 \<le> length bs
      then (wrotl (h XOR wle 4 bs * word_of_int P1) 23 * word_of_int P2 + word_of_int P3, drop 4 bs) else (h, bs))"

fun wsingles :: "u64 \<Rightarrow> int list \<Rightarrow> u64" where
  "wsingles h [] = h"
| "wsingles h (b # bs) = wsingles (wrotl (h XOR word_of_int b * word_of_int P5) 11 * word_of_int P1) bs"

definition wfinish :: "u64 \<Rightarrow> u64" where
  "wfinish h =
     (let h1 = h XOR drop_bit 33 h; h2 = h1 * word_of_int P2; h3 = h2 XOR drop_bit 29 h2; h4 = h3 * word_of_int P3
      in h4 XOR drop_bit 32 h4)"

definition wstart :: "u64 \<Rightarrow> int list \<Rightarrow> u64 \<times> int list" where
  "wstart seed bs =
     (if 32 \<le> length bs
      then (case wstripes (seed + word_of_int P1 + word_of_int P2, seed + word_of_int P2, seed, seed - word_of_int P1) bs of
              ((v1, v2, v3, v4), rest) \<Rightarrow>
                (wmerge (wmerge (wmerge (wmerge (wrotl v1 1 + wrotl v2 7 + wrotl v3 12 + wrotl v4 18) v1) v2) v3) v4, rest))
      else (seed + word_of_int P5, bs))"

definition wxxh64 :: "int list \<Rightarrow> u64 \<Rightarrow> u64" where
  "wxxh64 data seed =
     (case wstart seed data of
        (h0, bs0) \<Rightarrow>
          (case weights (h0 + of_nat (length data)) bs0 of
             (h1, bs1) \<Rightarrow> (case wfour h1 bs1 of (h2, bs2) \<Rightarrow> wfinish (wsingles h2 bs2))))"

section \<open>They are the same\<close>

lemma and_M64: "x AND M64 = uint (word_of_int x :: u64)"
proof -
  have m: "M64 = mask 64" by (simp add: M64_def mask_eq_exp_minus_1)
  have "uint (word_of_int x :: u64) = take_bit 64 x" by (simp add: unsigned_of_int)
  then show ?thesis unfolding m by (metis take_bit_eq_mask)
qed

lemma rotl_word: "rotl (uint w) r = uint (wrotl w r)" for w :: u64
  unfolding rotl_def wrotl_def and_M64
  by (rule bit_eqI) (auto simp: bit_simps dest: bit_imp_le_length)

text \<open>The rotation is the library's.\<close>

lemma wrotl_rotl:
  assumes "r < 64"
  shows "wrotl w r = word_rotl r w"
proof (rule bit_word_eqI)
  fix n assume "n < LENGTH(64)"
  then have n: "n < 64" by simp
  have m: "(n + (64 - r mod 64)) mod 64 = (if n < r then 64 + n - r else n - r)"
  proof (cases "n < r")
    case True
    then show ?thesis using assms n by simp
  next
    case False
    then have e: "n + (64 - r mod 64) = (n - r) + 64" using assms by simp
    have "((n - r) + 64) mod 64 = n - r" using n by (subst mod_add_self2) simp
    then show ?thesis using False unfolding e by simp
  qed
  show "bit (wrotl w r) n = bit (word_rotl r w) n"
    unfolding bit_word_rotl_iff using n assms m by (auto simp: wrotl_def bit_simps dest: bit_imp_le_length)
qed

lemma xround_word: "xround (uint a) v = uint (wround a (word_of_int v))"
  by (simp add: xround_def wround_def and_M64 rotl_word)

lemma merge_word: "merge (uint a) (uint b) = uint (wmerge a b)"
  using xround_word [of 0 "uint b"]
  by (simp add: merge_def wmerge_def and_M64 flip: unsigned_xor_eq)

lemma round_word: "xround (uint a) (le k bs) = uint (wround a (wle k bs))"
  by (simp add: xround_word wle_def)

lemma stripes_word:
  "stripes (uint a, uint b, uint c, uint d) bs =
     (case wstripes (a, b, c, d) bs of ((a, b, c, d), rest) \<Rightarrow> ((uint a, uint b, uint c, uint d), rest))"
proof (induction "(a, b, c, d)" bs arbitrary: a b c d rule: wstripes.induct)
  case (1 a b c d bs)
  show ?case
  proof (cases "32 \<le> length bs")
    case True
    then show ?thesis using 1 by (simp add: round_word del: stripes.simps wstripes.simps)
        (simp only: stripes.simps [of "uint a"] wstripes.simps [of a] True if_True round_word)
  qed simp
qed

lemma eights_word: "eights (uint h) bs = (case weights h bs of (h, rest) \<Rightarrow> (uint h, rest))"
proof (induction h bs rule: weights.induct)
  case (1 h bs)
  have e: "(rotl (uint h XOR xround 0 (le 8 bs)) 27 * P1 + P4) AND M64 =
    uint (wrotl (h XOR wround 0 (wle 8 bs)) 27 * word_of_int P1 + word_of_int P4)"
    using round_word [of 0 8 bs] by (simp add: and_M64 rotl_word flip: unsigned_xor_eq)
  show ?case
  proof (cases "8 \<le> length bs")
    case True
    then show ?thesis using 1 by (simp only: eights.simps [of "uint h"] weights.simps [of h] True if_True e)
  qed simp
qed

lemma four_word: "four (uint h) bs = (case wfour h bs of (h, rest) \<Rightarrow> (uint h, rest))"
  by (simp add: four_def wfour_def and_M64 wle_def rotl_word flip: unsigned_xor_eq)

lemma singles_word: "singles (uint h) bs = uint (wsingles h bs)"
  by (induction h bs rule: wsingles.induct) (simp_all add: and_M64 rotl_word flip: unsigned_xor_eq)

lemma drop_word: "drop_bit k (uint w) = uint (drop_bit k w)" for w :: u64
  by (rule bit_eqI) (auto simp: bit_simps dest: bit_imp_le_length)

lemma finish_word: "finish (uint h) = uint (wfinish h)"
  by (simp add: finish_def wfinish_def Let_def drop_word and_M64 flip: unsigned_xor_eq)

lemma start_word: "start seed bs = (case wstart (word_of_int seed) bs of (h, rest) \<Rightarrow> (uint h, rest))"
proof (cases "32 \<le> length bs")
  case True
  obtain a b c d rest where w: "wstripes (word_of_int seed + word_of_int P1 + word_of_int P2, word_of_int seed + word_of_int P2,
      word_of_int seed, word_of_int seed - word_of_int P1) bs = ((a, b, c, d), rest)"
    by (metis prod.exhaust)
  have "stripes ((seed + P1 + P2) AND M64, (seed + P2) AND M64, seed AND M64, (seed - P1) AND M64) bs
      = ((uint a, uint b, uint c, uint d), rest)"
    unfolding and_M64 stripes_word of_int_add of_int_diff w by simp
  then show ?thesis using True
    by (simp add: start_def wstart_def w and_M64 rotl_word merge_word del: stripes.simps wstripes.simps)
qed (simp add: start_def wstart_def and_M64)

lemma xxh64_word: "xxh64 data seed = uint (wxxh64 data (word_of_int seed))"
proof -
  obtain h0 bs0 where s: "wstart (word_of_int seed) data = (h0, bs0)" by fastforce
  obtain h1 bs1 where e: "weights (h0 + of_nat (length data)) bs0 = (h1, bs1)" by fastforce
  obtain h2 bs2 where f: "wfour h1 bs1 = (h2, bs2)" by fastforce
  have "(uint h0 + int (length data)) AND M64 = uint (h0 + of_nat (length data))"
    by (simp add: and_M64)
  then show ?thesis
    by (simp add: xxh64_def wxxh64_def start_word s e f eights_word four_word singles_word finish_word
        del: eights.simps weights.simps)
qed

section \<open>The table check\<close>

text \<open>\<open>verify\<close> on the entries of a table: the name up to its first zero byte and the stored hash.\<close>

fun check_table :: "(int list \<times> int) list \<Rightarrow> int \<Rightarrow> nat \<times> bool" where
  "check_table [] prev = (0, True)"
| "check_table ((name, stored) # es) prev =
     (case check_table es stored of
        (bad, ok) \<Rightarrow> ((if xxh64 (takeWhile (\<lambda>b. b \<noteq> 0) (take 80 name)) 0 \<noteq> stored then bad + 1 else bad),
                      ok \<and> prev \<le> stored))"

definition verify_table :: "(int list \<times> int) list \<Rightarrow> bool" where
  "verify_table es = (case check_table es (- 1) of (bad, ok) \<Rightarrow> bad = 0 \<and> ok)"

lemma check_table_iff:
  "check_table es prev = (0, True) \<longleftrightarrow>
     sorted (prev # map snd es) \<and> (\<forall>(n, h) \<in> set es. h = xxh64 (takeWhile (\<lambda>b. b \<noteq> 0) (take 80 n)) 0)"
proof (induction es prev rule: check_table.induct)
  case (2 name stored es prev)
  obtain bad ok where c: "check_table es stored = (bad, ok)" by fastforce
  show ?case using 2 by (auto simp: c)
qed simp

lemma verify_table_iff:
  "verify_table es \<longleftrightarrow> sorted (map snd es)
     \<and> (\<forall>(n, h) \<in> set es. h = uint (wxxh64 (takeWhile (\<lambda>b. b \<noteq> 0) (take 80 n)) 0))"
proof -
  have "verify_table es \<longleftrightarrow> check_table es (- 1) = (0, True)"
    by (auto simp: verify_table_def split: prod.splits)
  moreover have "- 1 \<le> h" if "h = uint (w :: u64)" for h w using that uint_ge_0 [of w] by linarith
  ultimately show ?thesis
    by (auto simp: check_table_iff xxh64_word)
qed

section \<open>Properties\<close>

text \<open>
  C31. The hash of the repository's verifier is XXH64: computed as the source does, on unbounded
  integers masked after every step, it is the reference algorithm on 64-bit machine words with their
  wrap-around and rotation, for every input and seed; it is a 64-bit value, it agrees with the
  published value of the empty input, and a tensor table verifies exactly when its stored hashes are
  sorted and each is the word hash of its name, cut at 80 bytes and at the first null byte.
\<close>

theorem xxh64_is_word_algorithm:
  "xxh64 data seed = uint (wxxh64 data (word_of_int seed)) \<and> 0 \<le> xxh64 data seed \<and> xxh64 data seed < 2 ^ 64
    \<and> xxh64 [] 0 = 0xEF46DB3751D8E999
    \<and> (verify_table es \<longleftrightarrow> sorted (map snd es)
         \<and> (\<forall>(n, h) \<in> set es. h = uint (wxxh64 (takeWhile (\<lambda>b. b \<noteq> 0) (take 80 n)) 0)))"
proof -
  have "uint (wxxh64 data (word_of_int seed)) < 2 ^ 64" using uint_lt2p [of "wxxh64 data (word_of_int seed)"] by simp
  moreover have "xxh64 [] 0 = 0xEF46DB3751D8E999" by code_simp
  ultimately show ?thesis using verify_table_iff [of es] by (simp add: xxh64_word)
qed

theorem xxh64_is_word_algorithm_witness:
  "verify_table [([], 0xEF46DB3751D8E999)]"
proof -
  have "wxxh64 [] 0 = 0xEF46DB3751D8E999" by code_simp
  then show ?thesis using xxh64_is_word_algorithm [of "[]" 0 "[([], 0xEF46DB3751D8E999)]"] by simp
qed

end
