(* ===== verification/Maintain.thy ===== *)
theory Maintain imports MemoryLaws begin

text \<open>
  The operator's maintenance of the registry (\<open>harness/maintenance/ops.py\<close>): the counts, the
  folding of duplicates and conflicts (\<open>compact\<close>), the quarantine of what is not a memory
  (\<open>cleanup\<close>, with its rescue pass), and the two verbs for one row. A write replaces the file by
  the rows that parsed. \<open>insight\<close> is in the theory Reflection.
\<close>

section \<open>Counts\<close>

record op_stats =
  os_total :: nat
  os_live :: nat
  os_superseded :: nat
  os_self :: nat
  os_user :: nat
  os_legacy :: nat
  os_classes :: "(string \<times> nat) list"

definition class_key :: "row \<Rightarrow> string" where
  "class_key r = (if r_class r = [] then ''?'' else r_class r)"

definition op_stats_of :: "row list \<Rightarrow> op_stats" where
  "op_stats_of rows =
     (let lv = filter live rows in
      \<lparr>os_total = length rows, os_live = length lv, os_superseded = length (filter dead rows),
       os_self = length (filter (\<lambda>r. r_speaker r = Some ''self'') lv),
       os_user = length (filter (\<lambda>r. r_speaker r \<noteq> Some ''self'') lv),
       os_legacy = length (filter (\<lambda>r. or_str (r_speaker r) [] = []) lv),
       os_classes = map (\<lambda>c. (c, length (filter (\<lambda>r. r_class r = c) lv)))
                      (sort (remdups (map class_key lv)))\<rparr>)"

section \<open>compact\<close>

text \<open>The first pass keeps, for each text seen on a live row, the name of its first row.\<close>

definition dup_key :: "row \<Rightarrow> string" where
  "dup_key r = lower (strip (strip_prefix (row_text r)))"

fun fold_dupes :: "string \<Rightarrow> (string \<times> string) list \<Rightarrow> row list \<Rightarrow> row list \<times> nat" where
  "fold_dupes ts seen [] = ([], 0)"
| "fold_dupes ts seen (r # rs) =
     (if \<not> live r \<or> dup_key r = [] then apfst ((#) r) (fold_dupes ts seen rs)
      else (case map_of seen (dup_key r) of
              Some nm \<Rightarrow> map_prod ((#) (tombstone nm ts r)) Suc (fold_dupes ts seen rs)
            | None \<Rightarrow> apfst ((#) r) (fold_dupes ts ((dup_key r, get_str (r_name r) []) # seen) rs)))"

definition low_words :: "row \<Rightarrow> string set" where
  "low_words r = set (py_split (lower (strip_prefix (r_text r))))"

definition same_voice :: "row \<Rightarrow> row \<Rightarrow> bool" where
  "same_voice r old \<longleftrightarrow> get_str (r_speaker old) ''user'' = get_str (r_speaker r) ''user''"

definition paraphrase :: "row \<Rightarrow> row \<Rightarrow> bool" where
  "paraphrase r old \<longleftrightarrow> same_voice r old \<and> near (low_words r) (low_words old)"

definition slot_clash :: "row \<Rightarrow> row \<Rightarrow> bool" where
  "slot_clash r old \<longleftrightarrow>
     same_voice r old \<and>
     (let sp = get_str (r_speaker r) ''user''; a = strip_prefix (r_text r); b = strip_prefix (r_text old)
      in attribute_key a sp \<noteq> None \<and> attribute_key a sp = attribute_key b sp \<and> value_of a \<noteq> value_of b)"

definition settle_one :: "string \<Rightarrow> row \<Rightarrow> row \<Rightarrow> row" where
  "settle_one ts r old =
     (if \<not> live old then old
      else if paraphrase r old then old\<lparr>r_lifecycle := 1, r_superseded_by := get_str (r_name r) []\<rparr>
      else if slot_clash r old then tombstone (get_str (r_name r) []) ts old
      else old)"

text \<open>The second pass: every live row, in order, against the live rows before it.\<close>

fun settle :: "string \<Rightarrow> row list \<Rightarrow> row list \<Rightarrow> row list \<times> nat \<times> nat" where
  "settle ts olds [] = (olds, 0, 0)"
| "settle ts olds (r # rs) =
     (if \<not> live r then settle ts (olds @ [r]) rs
      else (case settle ts (map (settle_one ts r) olds @ [r]) rs of
              (rows, p, c) \<Rightarrow>
                (rows, p + length (filter (\<lambda>q. live q \<and> paraphrase r q) olds),
                 c + length (filter (\<lambda>q. live q \<and> \<not> paraphrase r q \<and> slot_clash r q) olds))))"

record compact_receipt =
  k_dupes :: nat
  k_paraphrases :: nat
  k_conflicts :: nat
  k_live :: nat
  k_superseded :: nat

definition compact_rows :: "string \<Rightarrow> row list \<Rightarrow> row list" where
  "compact_rows ts rows = fst (settle ts [] (fst (fold_dupes ts [] rows)))"

text \<open>\<open>None\<close> is the \<open>OSError\<close> of a registry path that is not configured.\<close>

definition op_compact :: "real \<Rightarrow> mem \<Rightarrow> compact_receipt option \<times> mem" where
  "op_compact now s =
     (if m_path s = [] then (None, s)
      else let ts = stamp_of now;
               (r1, d) = fold_dupes ts [] (load_rows s);
               (r2, p, c) = settle ts [] r1;
               s' = save_all r2 s; st = op_stats_of (load_rows s')
           in (Some \<lparr>k_dupes = d, k_paraphrases = p, k_conflicts = c, k_live = os_live st,
                     k_superseded = os_superseded st\<rparr>, s'))"

section \<open>cleanup\<close>

datatype junk_reason = Refused refusal | TurnNotFact

record bin_row =
  bn_row :: row
  bn_reason :: junk_reason
  bn_at :: string

record sweep =
  w_keep :: "row list"
  w_junk :: "(row \<times> junk_reason) list"
  w_rescued :: "string list"
  w_seen :: "string list"

definition plain_text :: "row \<Rightarrow> string" where
  "plain_text r = strip_prefix (row_text r)"

definition adopt :: "row \<Rightarrow> row" where
  "adopt r =
     (if or_str (r_speaker r) [] = []
      then r\<lparr>r_speaker := Some ''user'',
             r_class := (if r_class r = [] then classify (plain_text r) else r_class r),
             r_src := Some (or_str (r_src r) [] @ '' | cleanup: stamped speaker=user'')\<rparr>
      else r)"

definition rescue_row :: "real \<Rightarrow> row \<Rightarrow> string \<Rightarrow> nat \<Rightarrow> row" where
  "rescue_row now r f n =
     stamp (blank_row\<lparr>r_name := Some (''ep_rescue_'' @ dec_nat (nat \<lfloor>now * 1000\<rfloor>) @ ''_'' @ dec_nat n),
                      r_topic := take 40 f\<rparr>)
       f (or_str (r_speaker r) ''user'') (''rescued from '' @ get_str (r_name r) ''?'') [] (stamp_of now)"

definition rescue_one :: "real \<Rightarrow> row \<Rightarrow> string \<Rightarrow> sweep \<Rightarrow> sweep" where
  "rescue_one now r f w =
     (let k = lower (strip f) in
      if k \<in> set (w_seen w) then w
      else w\<lparr>w_keep := w_keep w @ [rescue_row now r f (length (w_rescued w))],
             w_rescued := w_rescued w @ [f], w_seen := k # w_seen w\<rparr>)"

definition sweep_row :: "real \<Rightarrow> row \<Rightarrow> sweep \<Rightarrow> sweep" where
  "sweep_row now r w =
     (if \<not> live r then w\<lparr>w_keep := w_keep w @ [r]\<rparr>
      else let txt = plain_text r; v = is_memorable txt in
        if v = None \<and> length (split_sentences txt) = 1 then w\<lparr>w_keep := w_keep w @ [adopt r]\<rparr>
        else let w' = fold (rescue_one now r) (extract_facts txt) w in
          w'\<lparr>w_junk := w_junk w' @ [(r, case v of Some why \<Rightarrow> Refused why | None \<Rightarrow> TurnNotFact)]\<rparr>)"

definition sweep_rows :: "real \<Rightarrow> row list \<Rightarrow> sweep" where
  "sweep_rows now rows =
     fold (sweep_row now) rows \<lparr>w_keep = [], w_junk = [], w_rescued = [], w_seen = map dup_key rows\<rparr>"

record clean_receipt =
  l_dry :: bool
  l_quarantined :: nat
  l_kept :: nat
  l_rescued :: nat

text \<open>The quarantine file is appended to, and the registry replaced, only when something is junk.\<close>

definition op_cleanup :: "bool \<Rightarrow> real \<Rightarrow> bin_row list \<Rightarrow> mem \<Rightarrow> clean_receipt \<times> bin_row list \<times> mem" where
  "op_cleanup dry now bin s =
     (let w = sweep_rows now (load_rows s);
          receipt = \<lparr>l_dry = dry, l_quarantined = length (w_junk w),
            l_kept = length (w_keep w) - length (w_rescued w), l_rescued = length (w_rescued w)\<rparr>
      in if w_junk w \<noteq> [] \<and> \<not> dry
         then (receipt,
               bin @ map (\<lambda>(r, why). \<lparr>bn_row = r, bn_reason = why, bn_at = stamp_of now\<rparr>) (w_junk w),
               save_all (w_keep w) s)
         else (receipt, bin, s))"

section \<open>One row at a time\<close>

fun stored_reply :: "reply \<Rightarrow> bool" where
  "stored_reply (NotStored why) = False"
| "stored_reply r = True"

text \<open>The reply of an unconfigured registry does not begin with "not stored": it counts as ok.\<close>

definition op_add :: "env \<Rightarrow> string \<Rightarrow> string \<Rightarrow> mem \<Rightarrow> bool \<times> reply \<times> mem" where
  "op_add ev fct speaker s =
     (let (res, s') = remember ev fct ''operator'' (set_author speaker s)
      in (stored_reply res, res, set_author ''user'' s'))"

definition op_forget :: "real \<Rightarrow> string \<Rightarrow> mem \<Rightarrow> string option \<times> mem" where
  "op_forget now nm s =
     (case find (\<lambda>r. r_name r = Some nm) (load_rows s) of
        None \<Rightarrow> (None, s)
      | Some hit \<Rightarrow>
          (Some (strip_prefix (r_text hit)),
           save_all (update_first (\<lambda>r. r_name r = Some nm) (tombstone ''operator'' (stamp_of now))
                       (load_rows s)) s))"

section \<open>What folding keeps\<close>

text \<open>A row as it was, or the same row retired: the only two things a pass may leave behind.\<close>

definition folded :: "row \<Rightarrow> row \<Rightarrow> bool" where
  "folded a b \<longleftrightarrow> b = a \<or> (live a \<and> (\<exists>by ts. b = a\<lparr>r_lifecycle := 1, r_superseded_by := by, r_superseded_at := ts\<rparr>))"

lemma folded_refl [simp]: "folded a a"
  by (simp add: folded_def)

lemma folded_tombstone [simp]: "live a \<Longrightarrow> folded a (tombstone by ts a)"
  by (auto simp: folded_def tombstone_def)

lemma folded_trans: "folded a b \<Longrightarrow> folded b c \<Longrightarrow> folded a c"
  by (auto simp: folded_def live_def)

lemma folded_dead: "folded a b \<Longrightarrow> live b \<Longrightarrow> b = a"
  by (auto simp: folded_def live_def)

lemma folded_ident: "folded a b \<Longrightarrow> row_ident b = row_ident a \<and> (dead a \<longrightarrow> b = a)"
  by (auto simp: folded_def row_ident_def status_of_def dead_def)

lemma folded_settle_one [simp]: "folded a (settle_one ts r a)"
proof (cases "live a")
  case True
  have "folded a (a\<lparr>r_lifecycle := 1, r_superseded_by := by\<rparr>)" for "by"
    unfolding folded_def by (rule disjI2, rule conjI [OF True], intro exI [of _ "by"]
      exI [of _ "r_superseded_at a"]) simp
  with True show ?thesis by (simp add: settle_one_def)
qed (simp add: settle_one_def)

lemma fold_dupes_folded: "list_all2 folded rs (fst (fold_dupes ts seen rs))"
  by (induction rs arbitrary: seen) (auto split: option.splits)

lemma settle_folded: "list_all2 folded xs olds \<Longrightarrow> list_all2 folded (xs @ rs) (fst (settle ts olds rs))"
proof (induction rs arbitrary: xs olds)
  case (Cons r rs)
  have map_f: "list_all2 folded xs (map (settle_one ts r) olds)"
    using Cons.prems unfolding list_all2_map2
    by (rule list_all2_mono) (metis folded_settle_one folded_trans)
  have step: "list_all2 folded (xs @ [r]) (ys @ [r])" if "list_all2 folded xs ys" for ys
    using that by (simp add: list_all2_appendI)
  show ?case
    using Cons.IH [OF step [OF Cons.prems]] Cons.IH [OF step [OF map_f]]
    by (auto split: prod.splits)
qed simp

lemma compact_rows_folded: "list_all2 folded rows (compact_rows ts rows)"
proof -
  have c: "list_all2 folded (fst (fold_dupes ts [] rows)) (compact_rows ts rows)"
    using settle_folded [of "[]" "[]" "fst (fold_dupes ts [] rows)" ts] by (simp add: compact_rows_def)
  show ?thesis
  proof (rule list_all2_trans [OF _ fold_dupes_folded c])
    show "folded a b \<Longrightarrow> folded b d \<Longrightarrow> folded a d" for a b d by (rule folded_trans)
  qed
qed

section \<open>What folding leaves live\<close>

definition apart :: "row \<Rightarrow> row \<Rightarrow> bool" where
  "apart old r \<longleftrightarrow> (dup_key r \<noteq> [] \<longrightarrow> dup_key old \<noteq> dup_key r) \<and> \<not> paraphrase r old \<and> \<not> slot_clash r old"

lemma not_live_tombstone [simp]: "\<not> live (tombstone by ts r)"
  by (simp add: live_def tombstone_def)

lemma fold_dupes_keys:
  "sorted_wrt (\<lambda>a b. dup_key b \<noteq> [] \<longrightarrow> dup_key a \<noteq> dup_key b) (filter live (fst (fold_dupes ts seen rs)))
   \<and> (\<forall>r \<in> set (filter live (fst (fold_dupes ts seen rs))). dup_key r \<noteq> [] \<longrightarrow> dup_key r \<notin> fst ` set seen)"
proof (induction rs arbitrary: seen)
  case (Cons r rs)
  show ?case
  proof (cases "\<not> live r \<or> dup_key r = []")
    case True
    then show ?thesis using Cons.IH [of seen] by (auto simp: apfst_def map_prod_def split_beta)
  next
    case False
    show ?thesis
    proof (cases "map_of seen (dup_key r)")
      case None
      then have "dup_key r \<notin> fst ` set seen" by (simp add: map_of_eq_None_iff)
      with False None show ?thesis
        using Cons.IH [of "(dup_key r, get_str (r_name r) []) # seen"] by (auto simp: split_beta)
    next
      case (Some nm)
      with False show ?thesis using Cons.IH [of seen] by (simp add: split_beta)
    qed
  qed
qed simp

lemma filter_live_settle:
  "filter live (map (settle_one ts r) olds)
     = filter (\<lambda>q. \<not> paraphrase r q \<and> \<not> slot_clash r q) (filter live olds)"
proof (induction olds)
  case (Cons q olds)
  have d: "\<not> live (q\<lparr>r_lifecycle := 1, r_superseded_by := by\<rparr>)" for "by" by (simp add: live_def)
  show ?case using Cons by (auto simp: settle_one_def d)
qed simp

lemma settle_apart:
  assumes "sorted_wrt apart (filter live olds)"
    and "sorted_wrt (\<lambda>a b. dup_key b \<noteq> [] \<longrightarrow> dup_key a \<noteq> dup_key b) (filter live (olds @ rs))"
  shows "sorted_wrt apart (filter live (fst (settle ts olds rs)))"
  using assms
proof (induction rs arbitrary: olds)
  case (Cons r rs)
  show ?case
  proof (cases "live r")
    case True
    let ?olds = "map (settle_one ts r) olds @ [r]"
    let ?keep = "\<lambda>q. \<not> paraphrase r q \<and> \<not> slot_clash r q"
    have f: "filter live ?olds = filter ?keep (filter live olds) @ [r]"
      using True by (simp add: filter_live_settle del: filter_filter)
    have "sorted_wrt apart (filter ?keep (filter live olds))"
      using Cons.prems(1) by (rule sorted_wrt_filter)
    then have "sorted_wrt apart (filter live ?olds)"
      using Cons.prems(2) True unfolding f
      by (auto simp: sorted_wrt_append apart_def [of _ r] simp del: filter_filter)
    moreover have "sorted_wrt (\<lambda>a b. dup_key b \<noteq> [] \<longrightarrow> dup_key a \<noteq> dup_key b) (filter live (?olds @ rs))"
      using Cons.prems(2) True f
      by (auto simp: sorted_wrt_append sorted_wrt_filter simp del: filter_filter map_append)
    ultimately have "sorted_wrt apart (filter live (fst (settle ts ?olds rs)))" by (rule Cons.IH)
    with True show ?thesis by (simp add: split_beta)
  next
    case False
    with Cons.prems show ?thesis using Cons.IH [of "olds @ [r]"] by simp
  qed
qed simp

lemma compact_rows_apart: "sorted_wrt apart (filter live (compact_rows ts rows))"
  using settle_apart [of "[]" "fst (fold_dupes ts [] rows)" ts] fold_dupes_keys [of ts "[]" rows]
  by (simp add: compact_rows_def)

text \<open>A registry whose live rows are apart already is left as it is.\<close>

lemma fold_dupes_id:
  assumes "sorted_wrt apart (filter live rs)"
    and "\<forall>r \<in> set (filter live rs). dup_key r \<noteq> [] \<longrightarrow> dup_key r \<notin> fst ` set seen"
  shows "fold_dupes ts seen rs = (rs, 0)"
  using assms
proof (induction rs arbitrary: seen)
  case (Cons r rs)
  show ?case
  proof (cases "\<not> live r \<or> dup_key r = []")
    case True
    then show ?thesis using Cons.IH [of seen] Cons.prems by (auto split: if_splits)
  next
    case False
    then have "map_of seen (dup_key r) = None" using Cons.prems(2) by (auto simp: map_of_eq_None_iff)
    moreover have "fold_dupes ts ((dup_key r, get_str (r_name r) []) # seen) rs = (rs, 0)"
      using Cons.prems False by (intro Cons.IH) (auto simp: apart_def)
    ultimately show ?thesis using False by simp
  qed
qed simp

lemma settle_id:
  assumes "sorted_wrt apart (filter live (olds @ rs))"
  shows "settle ts olds rs = (olds @ rs, 0, 0)"
  using assms
proof (induction rs arbitrary: olds)
  case (Cons r rs)
  show ?case
  proof (cases "live r")
    case True
    have ap: "\<forall>q \<in> set olds. live q \<longrightarrow> \<not> paraphrase r q \<and> \<not> slot_clash r q"
      using Cons.prems True by (auto simp: sorted_wrt_append apart_def)
    have "map (settle_one ts r) olds = olds" using ap by (auto simp: settle_one_def intro!: map_idI)
    moreover have "filter (\<lambda>q. live q \<and> paraphrase r q) olds = []"
      "filter (\<lambda>q. live q \<and> \<not> paraphrase r q \<and> slot_clash r q) olds = []"
      using ap by (auto simp: filter_empty_conv)
    moreover have "settle ts (olds @ [r]) rs = ((olds @ [r]) @ rs, 0, 0)"
      using Cons.prems by (intro Cons.IH) simp
    ultimately show ?thesis using True by simp
  next
    case False
    then show ?thesis using Cons.IH [of "olds @ [r]"] Cons.prems by simp
  qed
qed simp

lemma compact_rows_id: "sorted_wrt apart (filter live rows) \<Longrightarrow> compact_rows ts rows = rows"
  by (simp add: compact_rows_def fold_dupes_id settle_id)

lemma compact_rows_idem: "compact_rows ts' (compact_rows ts rows) = compact_rows ts rows"
  by (rule compact_rows_id) (rule compact_rows_apart)

lemma fold_dupes_count:
  "length (filter live (fst (fold_dupes ts seen rs))) + snd (fold_dupes ts seen rs) = length (filter live rs)"
  by (induction rs arbitrary: seen) (auto simp: split_beta split: option.splits)

lemma filter_split3:
  "length (filter (\<lambda>q. \<not> P q \<and> \<not> Q q) (filter L xs)) + length (filter (\<lambda>q. L q \<and> P q) xs)
     + length (filter (\<lambda>q. L q \<and> \<not> P q \<and> Q q) xs) = length (filter L xs)"
  by (induction xs) auto

lemma settle_count:
  "settle ts olds rs = (out, p, c) \<Longrightarrow> length (filter live out) + p + c = length (filter live (olds @ rs))"
proof (induction rs arbitrary: olds p c)
  case (Cons r rs)
  show ?case
  proof (cases "live r")
    case True
    obtain p' c' where s: "settle ts (map (settle_one ts r) olds @ [r]) rs = (out, p', c')"
      and p: "p = p' + length (filter (\<lambda>q. live q \<and> paraphrase r q) olds)"
      and c: "c = c' + length (filter (\<lambda>q. live q \<and> \<not> paraphrase r q \<and> slot_clash r q) olds)"
      using Cons.prems True by (auto split: prod.splits)
    from Cons.IH [OF s] True show ?thesis
      using filter_split3 [of "paraphrase r" "slot_clash r" live olds]
      by (simp add: p c filter_live_settle del: filter_filter)
  next
    case False
    with Cons.prems Cons.IH [of "olds @ [r]" p c] show ?thesis by simp
  qed
qed simp

lemma op_compact_rows:
  assumes "m_path s \<noteq> []" and "op_compact now s = (rep, s')"
  shows "load_rows s' = compact_rows (stamp_of now) (load_rows s)" "m_path s' = m_path s"
    "s' = save_all (load_rows s') s"
    "\<exists>k. rep = Some k \<and> k_live k = length (filter live (load_rows s'))
       \<and> k_dupes k + k_paraphrases k + k_conflicts k + k_live k = length (filter live (load_rows s))"
proof -
  obtain r1 d where f: "fold_dupes (stamp_of now) [] (load_rows s) = (r1, d)" by fastforce
  obtain r2 p c where t: "settle (stamp_of now) [] r1 = (r2, p, c)" by (metis prod_cases3)
  have s': "s' = save_all r2 s" and rep: "rep = Some \<lparr>k_dupes = d, k_paraphrases = p, k_conflicts = c,
      k_live = os_live (op_stats_of (load_rows (save_all r2 s))),
      k_superseded = os_superseded (op_stats_of (load_rows (save_all r2 s)))\<rparr>"
    using assms f t by (auto simp: op_compact_def Let_def)
  have r2: "load_rows s' = r2" using assms(1) by (simp add: s' load_save)
  show "load_rows s' = compact_rows (stamp_of now) (load_rows s)" by (simp add: r2 compact_rows_def f t)
  show "m_path s' = m_path s" by (simp add: s' row_simps)
  show "s' = save_all (load_rows s') s" using r2 s' by simp
  have "length (filter live r2) + p + c + d = length (filter live (load_rows s))"
    using settle_count [OF t] fold_dupes_count [of "stamp_of now" "[]" "load_rows s"] f by simp
  then show "\<exists>k. rep = Some k \<and> k_live k = length (filter live (load_rows s'))
       \<and> k_dupes k + k_paraphrases k + k_conflicts k + k_live k = length (filter live (load_rows s))"
    by (simp add: rep s' [symmetric] r2 op_stats_of_def Let_def)
qed

lemma save_all_twice: "save_all rows (save_all rows' s) = save_all rows s"
  by (simp add: save_all_def)

section \<open>What cleaning keeps\<close>

definition gone :: "sweep \<Rightarrow> row list" where
  "gone w = map fst (w_junk w)"

lemma rescue_one_cases:
  "\<exists>one. w_keep (rescue_one now r f w) = w_keep w @ one \<and> set (map r_text one) \<subseteq> {f}
     \<and> (\<forall>q \<in> set one. live q)
     \<and> length one + length (w_rescued w) = length (w_rescued (rescue_one now r f w))"
  by (cases "lower (strip f) \<in> set (w_seen w)")
    (auto simp: rescue_one_def Let_def rescue_row_def row_simps live_def blank_row_def)

lemma rescue_fold_junk: "w_junk (fold (rescue_one now r) fs w) = w_junk w"
  by (induction fs arbitrary: w) (simp_all add: rescue_one_def Let_def)

lemma rescue_fold:
  "\<exists>new. w_keep (fold (rescue_one now r) fs w) = w_keep w @ new \<and> set (map r_text new) \<subseteq> set fs
     \<and> (\<forall>q \<in> set new. live q)
     \<and> length new + length (w_rescued w) = length (w_rescued (fold (rescue_one now r) fs w))"
proof (induction fs arbitrary: w)
  case (Cons f fs)
  let ?w = "rescue_one now r f w"
  obtain one where k: "w_keep ?w = w_keep w @ one" "set (map r_text one) \<subseteq> {f}" "\<forall>q \<in> set one. live q"
    "length one + length (w_rescued w) = length (w_rescued ?w)"
    using rescue_one_cases by blast
  obtain new where n: "w_keep (fold (rescue_one now r) fs ?w) = w_keep ?w @ new"
    "set (map r_text new) \<subseteq> set fs" "\<forall>q \<in> set new. live q"
    "length new + length (w_rescued ?w) = length (w_rescued (fold (rescue_one now r) fs ?w))"
    using Cons.IH [of ?w] by blast
  show ?case by (intro exI [of _ "one @ new"]) (use n k in auto)
qed simp

text \<open>
  What a sweep leaves: every row it has seen is kept (a row without an owner adopted) or in the
  bin, and what else is kept are facts carried by a binned row.
\<close>

definition is_fact :: "row \<Rightarrow> bool" where
  "is_fact r \<longleftrightarrow> is_memorable (plain_text r) = None \<and> length (split_sentences (plain_text r)) = 1"

definition kept_as :: "row \<Rightarrow> row" where
  "kept_as r = (if live r then adopt r else r)"

definition staying :: "row \<Rightarrow> bool" where
  "staying r \<longleftrightarrow> dead r \<or> is_fact r"

lemma sweep_row_fact: "staying r \<Longrightarrow> sweep_row now r w = w\<lparr>w_keep := w_keep w @ [kept_as r]\<rparr>"
  by (auto simp: sweep_row_def staying_def is_fact_def kept_as_def dead_def Let_def)

lemma sweep_row_junk:
  assumes "\<not> staying r"
  shows "\<exists>why. w_junk (sweep_row now r w) = w_junk w @ [(r, why)]"
    "w_keep (sweep_row now r w) = w_keep (fold (rescue_one now r) (extract_facts (plain_text r)) w)"
    "w_rescued (sweep_row now r w) = w_rescued (fold (rescue_one now r) (extract_facts (plain_text r)) w)"
  using assms by (auto simp: sweep_row_def staying_def is_fact_def dead_def Let_def rescue_fold_junk)

definition swept :: "row list \<Rightarrow> sweep \<Rightarrow> bool" where
  "swept rows w \<longleftrightarrow>
     gone w = filter (\<lambda>r. \<not> staying r) rows
     \<and> (\<exists>tags. map fst tags = w_keep w
          \<and> map fst (filter snd tags) = map kept_as (filter staying rows)
          \<and> length (filter (\<lambda>t. \<not> snd t) tags) = length (w_rescued w)
          \<and> (\<forall>q. (q, False) \<in> set tags \<longrightarrow> live q
               \<and> (\<exists>r \<in> set rows. \<not> staying r \<and> r_text q \<in> set (extract_facts (plain_text r)))))"

lemma swept_step: "swept rows w \<Longrightarrow> swept (rows @ [r]) (sweep_row now r w)"
proof -
  assume "swept rows w"
  then obtain tags where g: "gone w = filter (\<lambda>r. \<not> staying r) rows"
    and t: "map fst tags = w_keep w" "map fst (filter snd tags) = map kept_as (filter staying rows)"
      "length (filter (\<lambda>t. \<not> snd t) tags) = length (w_rescued w)"
    and f: "\<forall>q. (q, False) \<in> set tags \<longrightarrow> live q
        \<and> (\<exists>r \<in> set rows. \<not> staying r \<and> r_text q \<in> set (extract_facts (plain_text r)))"
    unfolding swept_def by blast
  show ?thesis
  proof (cases "staying r")
    case True
    have "\<exists>ts. map fst ts = w_keep w @ [kept_as r]
        \<and> map fst (filter snd ts) = map kept_as (filter staying (rows @ [r]))
        \<and> length (filter (\<lambda>t. \<not> snd t) ts) = length (w_rescued w)
        \<and> (\<forall>q. (q, False) \<in> set ts \<longrightarrow> live q
             \<and> (\<exists>s \<in> set (rows @ [r]). \<not> staying s \<and> r_text q \<in> set (extract_facts (plain_text s))))"
      by (rule exI [of _ "tags @ [(kept_as r, True)]"]) (use t f True in auto)
    with g True show ?thesis by (simp add: swept_def gone_def sweep_row_fact)
  next
    case False
    obtain new where n: "w_keep (sweep_row now r w) = w_keep w @ new"
      "set (map r_text new) \<subseteq> set (extract_facts (plain_text r))" "\<forall>q \<in> set new. live q"
      "length new + length (w_rescued w) = length (w_rescued (sweep_row now r w))"
      using rescue_fold [of now r "extract_facts (plain_text r)" w] sweep_row_junk [OF False] by metis
    have fl: "filter snd (map (\<lambda>q. (q, False)) new) = []"
      "filter (\<lambda>t. \<not> snd t) (map (\<lambda>q. (q, False)) new) = map (\<lambda>q. (q, False)) new"
      by (induction new) auto
    have "\<exists>ts. map fst ts = w_keep (sweep_row now r w)
        \<and> map fst (filter snd ts) = map kept_as (filter staying (rows @ [r]))
        \<and> length (filter (\<lambda>t. \<not> snd t) ts) = length (w_rescued (sweep_row now r w))
        \<and> (\<forall>q. (q, False) \<in> set ts \<longrightarrow> live q
             \<and> (\<exists>s \<in> set (rows @ [r]). \<not> staying s \<and> r_text q \<in> set (extract_facts (plain_text s))))"
      by (rule exI [of _ "tags @ map (\<lambda>q. (q, False)) new"]) (use t f n fl False in \<open>auto simp: comp_def\<close>)
    with g False sweep_row_junk(1) [OF False, of now w] show ?thesis by (auto simp: swept_def gone_def)
  qed
qed

lemma swept_rows: "swept rows (sweep_rows now rows)"
proof -
  define w0 where "w0 = \<lparr>w_keep = [], w_junk = [], w_rescued = [], w_seen = map dup_key rows\<rparr>"
  have "swept (xs @ rows') (fold (sweep_row now) rows' w)" if "swept xs w" for xs rows' w
    using that
  proof (induction rows' arbitrary: xs w)
    case (Cons r rows')
    from Cons.IH [OF swept_step [OF Cons.prems]] show ?case by simp
  qed simp
  from this [of "[]" w0 rows] show ?thesis
    by (simp add: w0_def sweep_rows_def swept_def gone_def)
qed

lemma tags_kept:
  assumes "map fst tags = ks" and "map fst (filter snd tags) = as"
    and "\<forall>q. (q, False) \<in> set tags \<longrightarrow> P q"
  shows "subseq as ks" "\<forall>q \<in> set ks. q \<in> set as \<or> P q"
    "length ks = length as + length (filter (\<lambda>t. \<not> snd t) tags)"
proof -
  show "subseq as ks" using assms(1,2) by (metis subseq_filter_left subseq_map)
  show "\<forall>q \<in> set ks. q \<in> set as \<or> P q"
  proof
    fix q assume "q \<in> set ks"
    then obtain b where b: "(q, b) \<in> set tags" using assms(1) by force
    show "q \<in> set as \<or> P q"
    proof (cases b)
      case True
      with b have "q \<in> set (map fst (filter snd tags))" by force
      with assms(2) show ?thesis by simp
    qed (use b assms(3) in auto)
  qed
  have "length tags = length (filter snd tags) + length (filter (\<lambda>t. \<not> snd t) tags)"
    using sum_length_filter_compl [of snd tags] by simp
  then show "length ks = length as + length (filter (\<lambda>t. \<not> snd t) tags)"
    using assms(1,2) by (metis length_map)
qed

lemma sweep_rows_spec:
  "gone (sweep_rows now rows) = filter (\<lambda>r. \<not> staying r) rows"
    "subseq (map kept_as (filter staying rows)) (w_keep (sweep_rows now rows))"
    "\<forall>q \<in> set (w_keep (sweep_rows now rows)). q \<in> set (map kept_as (filter staying rows)) \<or>
       live q \<and> (\<exists>r \<in> set rows. \<not> staying r \<and> r_text q \<in> set (extract_facts (plain_text r)))"
    "length (w_keep (sweep_rows now rows))
       = length (filter staying rows) + length (w_rescued (sweep_rows now rows))"
proof -
  obtain tags where g: "gone (sweep_rows now rows) = filter (\<lambda>r. \<not> staying r) rows"
    and t: "map fst tags = w_keep (sweep_rows now rows)"
      "map fst (filter snd tags) = map kept_as (filter staying rows)"
      "length (filter (\<lambda>t. \<not> snd t) tags) = length (w_rescued (sweep_rows now rows))"
    and f: "\<forall>q. (q, False) \<in> set tags \<longrightarrow> live q
        \<and> (\<exists>r \<in> set rows. \<not> staying r \<and> r_text q \<in> set (extract_facts (plain_text r)))"
    using swept_rows [of rows now] unfolding swept_def by blast
  show "gone (sweep_rows now rows) = filter (\<lambda>r. \<not> staying r) rows" by (rule g)
  note k = tags_kept [OF t(1,2) f]
  show "subseq (map kept_as (filter staying rows)) (w_keep (sweep_rows now rows))" by (rule k(1))
  show "\<forall>q \<in> set (w_keep (sweep_rows now rows)). q \<in> set (map kept_as (filter staying rows)) \<or>
       live q \<and> (\<exists>r \<in> set rows. \<not> staying r \<and> r_text q \<in> set (extract_facts (plain_text r)))"
    by (rule k(2))
  show "length (w_keep (sweep_rows now rows))
       = length (filter staying rows) + length (w_rescued (sweep_rows now rows))"
    using k(3) t(3) by simp
qed

section \<open>Properties\<close>

definition op_row :: "string \<Rightarrow> string \<Rightarrow> string \<Rightarrow> row" where
  "op_row nm txt st = blank_row\<lparr>r_name := Some nm, r_text := txt, r_speaker := Some ''user'', r_status := st\<rparr>"

definition op_mem :: "row list \<Rightarrow> mem" where
  "op_mem rows =
     \<lparr>m_path = ''reg.jsonl'', m_file = Some (map Row rows), m_author = ''user'', m_question = [], m_queue = []\<rparr>"

lemma load_op_mem [simp]: "load_rows (op_mem rows) = rows" "m_path (op_mem rows) = ''reg.jsonl''"
  by (simp_all add: op_mem_def load_rows_def)

text \<open>
  C4. The operator's compaction destroys nothing: every row stays in place as it was or is the same
  row retired. The rows left live are apart (no two with one text, no paraphrase and no conflicting
  slot of one speaker), the receipt accounts for every live row there was, and folding again, at any
  later time, changes nothing.
\<close>

theorem maintenance_folds:
  assumes "m_path s \<noteq> []" and "op_compact now s = (rep, s')"
  shows "list_all2 folded (load_rows s) (load_rows s') \<and> sorted_wrt apart (filter live (load_rows s'))
    \<and> (\<exists>k. rep = Some k \<and> k_live k = length (filter live (load_rows s'))
         \<and> k_dupes k + k_paraphrases k + k_conflicts k + k_live k = length (filter live (load_rows s)))
    \<and> snd (op_compact later s') = s'"
proof -
  note r = op_compact_rows [OF assms]
  obtain rep2 s2 where two: "op_compact later s' = (rep2, s2)" by fastforce
  have p: "m_path s' \<noteq> []" using assms(1) r(2) by simp
  note r2 = op_compact_rows [OF p two]
  have "load_rows s2 = load_rows s'" by (simp add: r2(1) r(1) compact_rows_idem)
  then have "s2 = save_all (load_rows s') s'" using r2(3) by simp
  also have "\<dots> = s'" using r(3) by (metis save_all_twice)
  finally show ?thesis
    using r(1,4) by (simp add: two compact_rows_folded compact_rows_apart)
qed

theorem maintenance_folds_witness:
  "let rows = [op_row ''a'' ''My cat is called Tuffy'' ''observed'', op_row ''b'' ''my cat is called tuffy'' ''observed''];
       s' = snd (op_compact 0 (op_mem rows))
   in list_all2 folded rows (load_rows s') \<and> map live (load_rows s') = [True, False]
      \<and> snd (op_compact 7 s') = s'"
proof -
  let ?rows = "[op_row ''a'' ''My cat is called Tuffy'' ''observed'',
    op_row ''b'' ''my cat is called tuffy'' ''observed'']"
  have "map live (load_rows (snd (op_compact 0 (op_mem ?rows)))) = [True, False]" by code_simp
  then show ?thesis
    using maintenance_folds [of "op_mem ?rows" 0 "fst (op_compact 0 (op_mem ?rows))"
        "snd (op_compact 0 (op_mem ?rows))" 7] by (simp add: Let_def)
qed

text \<open>
  The compaction does not know the law of testimony: a row he said is retired by a later row of
  the same slot with another value even when that row is only inferred, which the write path refuses
  (the same pair is no conflict for \<open>find_superseded\<close>).
\<close>

theorem compaction_ignores_standing:
  assumes "live e" and "live r" and "slot_clash r e" and "dup_key e \<noteq> dup_key r"
    and "ground e" and "status_of r = STATUS_INFERRED"
  shows "(\<exists>b. dead b \<and> row_ident b = row_ident e \<and> compact_rows ts [e, r] = [b, r])
    \<and> e \<notin> set (find_superseded (plain_text r) (get_str (r_speaker r) ''user'') [e, r] (status_of r))"
proof -
  have d: "fold_dupes ts [] [e, r] = ([e, r], 0)" using assms(1,2,4) by auto
  have s: "compact_rows ts [e, r] = [settle_one ts r e, r]"
    using assms(1,2) by (simp add: compact_rows_def d del: fold_dupes.simps)
  have "dead (settle_one ts r e)"
    using assms(1,3) by (auto simp: settle_one_def dead_def live_def tombstone_def)
  moreover have "row_ident (settle_one ts r e) = row_ident e"
    using folded_ident [OF folded_settle_one] by blast
  moreover have "e \<notin> set (find_superseded (plain_text r) (get_str (r_speaker r) ''user'') [e, r] (status_of r))"
    using find_superseded_inferred [of e] assms(5,6) by auto
  ultimately show ?thesis using s by blast
qed

theorem compaction_ignores_standing_witness:
  "\<exists>b. dead b \<and> row_ident b = row_ident (op_row ''a'' ''my lucky number is 7'' ''observed'')
     \<and> compact_rows ''now'' [op_row ''a'' ''my lucky number is 7'' ''observed'',
         op_row ''b'' ''my lucky number is 9'' ''inferred'']
       = [b, op_row ''b'' ''my lucky number is 9'' ''inferred'']"
proof -
  let ?e = "op_row ''a'' ''my lucky number is 7'' ''observed''"
  let ?r = "op_row ''b'' ''my lucky number is 9'' ''inferred''"
  have "live ?e" "live ?r" "slot_clash ?r ?e" "dup_key ?e \<noteq> dup_key ?r" "ground ?e"
    "status_of ?r = STATUS_INFERRED" by code_simp+
  from compaction_ignores_standing [OF this, of "''now''"] show ?thesis by blast
qed

text \<open>
  The operator's cleanup loses no row: in their order, the retired rows and the rows that are
  one memorable sentence stay (a row without a speaker is adopted as his), every other row is
  appended to the quarantine, and whatever else the registry then holds is a live fact extracted from
  a quarantined row; the receipt counts both. A dry run, or a registry with nothing to quarantine,
  changes nothing.
\<close>

theorem cleanup_loses_no_row:
  assumes "m_path s \<noteq> []" and "op_cleanup dry now bin s = (k, bin', s')"
  defines "junk \<equiv> filter (\<lambda>r. \<not> staying r) (load_rows s)"
    and "kept \<equiv> map kept_as (filter staying (load_rows s))"
  shows "l_quarantined k = length junk \<and> l_kept k = length kept
    \<and> (dry \<or> junk = [] \<longrightarrow> bin' = bin \<and> s' = s)
    \<and> (\<not> dry \<and> junk \<noteq> [] \<longrightarrow> map bn_row bin' = map bn_row bin @ junk \<and> subseq kept (load_rows s')
         \<and> length (load_rows s') = length kept + l_rescued k
         \<and> (\<forall>q \<in> set (load_rows s'). q \<in> set kept \<or>
              live q \<and> (\<exists>r \<in> set junk. r_text q \<in> set (extract_facts (plain_text r)))))"
proof -
  define w where "w = sweep_rows now (load_rows s)"
  note sp = sweep_rows_spec [where now = now and rows = "load_rows s", folded w_def, folded junk_def kept_def]
  have q: "length (w_junk w) = length junk" "w_junk w = [] \<longleftrightarrow> junk = []"
    using sp(1) by (auto simp: gone_def simp flip: length_map [of fst])
  have k: "k = \<lparr>l_dry = dry, l_quarantined = length (w_junk w),
      l_kept = length (w_keep w) - length (w_rescued w), l_rescued = length (w_rescued w)\<rparr>"
    and same: "dry \<or> junk = [] \<Longrightarrow> bin' = bin \<and> s' = s"
    and new: "\<not> dry \<and> junk \<noteq> [] \<Longrightarrow> s' = save_all (w_keep w) s
      \<and> bin' = bin @ map (\<lambda>(r, why). \<lparr>bn_row = r, bn_reason = why, bn_at = stamp_of now\<rparr>) (w_junk w)"
    using assms(2) q by (auto simp: op_cleanup_def Let_def w_def split: if_splits)
  have len: "length (w_keep w) = length kept + length (w_rescued w)"
    using sp(4) by (simp add: kept_def)
  have "map bn_row (map (\<lambda>(r, why). \<lparr>bn_row = r, bn_reason = why, bn_at = stamp_of now\<rparr>) xs) = map fst xs"
    for xs :: "(row \<times> junk_reason) list" by (induction xs) auto
  note bm = this
  from new have "\<not> dry \<and> junk \<noteq> [] \<Longrightarrow> map bn_row bin' = map bn_row bin @ junk \<and> load_rows s' = w_keep w"
    using assms(1) sp(1) by (simp add: load_save gone_def bm del: map_map)
  moreover have "\<forall>q \<in> set (w_keep w). q \<in> set kept \<or>
      live q \<and> (\<exists>r \<in> set junk. r_text q \<in> set (extract_facts (plain_text r)))"
    using sp(3) by (fastforce simp: junk_def)
  ultimately show ?thesis
    using same q(1) len sp(2) by (simp add: k)
qed

theorem cleanup_loses_no_row_witness:
  "let rows = [op_row ''a'' ''hello there'' ''observed'', op_row ''b'' ''My cat is called Tuffy'' ''observed''];
       (k, bin', s') = op_cleanup False 0 [] (op_mem rows)
   in l_quarantined k = 1 \<and> map bn_row bin' = [rows ! 0] \<and> subseq [rows ! 1] (load_rows s')"
proof -
  let ?a = "op_row ''a'' ''hello there'' ''observed''"
  let ?b = "op_row ''b'' ''My cat is called Tuffy'' ''observed''"
  have st: "\<not> staying ?a" "staying ?b" "kept_as ?b = ?b" by code_simp+
  obtain k bin' s' where o: "op_cleanup False 0 [] (op_mem [?a, ?b]) = (k, bin', s')" by (metis prod_cases3)
  show ?thesis using cleanup_loses_no_row [OF _ o] st by (simp add: o)
qed

end
