(* ===== verification/Duetime.thy ===== *)
theory Duetime imports Clock PyRegex begin

text \<open>
  The words a person says, turned into a due stamp (\<open>harness/skills/duetime.py\<close>). A
  \<open>datetime\<close> is the tuple of the theory Clock (aware UTC, whole seconds: every stamp is written
  without the fraction, and a \<open>datetime\<close> whose microsecond is 0 is at most \<open>now\<close> exactly when its
  second is); the current second is an argument. The exceptions the source does not catch are the
  values of \<open>due_error\<close>. \<open>strftime\<close> writes years with four digits.
\<close>

datatype due_error = ValueError | OverflowError

definition WEEKDAYS :: "(string \<times> int) list" where
  "WEEKDAYS = [(''monday'', 0), (''mon'', 0), (''tuesday'', 1), (''tue'', 1), (''tues'', 1),
     (''wednesday'', 2), (''wed'', 2), (''thursday'', 3), (''thu'', 3), (''thur'', 3), (''thurs'', 3),
     (''friday'', 4), (''fri'', 4), (''saturday'', 5), (''sat'', 5), (''sunday'', 6), (''sun'', 6)]"

definition UNITS :: "(string \<times> int) list" where
  "UNITS = [(''min'', 60), (''mins'', 60), (''minute'', 60), (''minutes'', 60), (''hour'', 3600),
     (''hours'', 3600), (''hr'', 3600), (''hrs'', 3600), (''day'', 86400), (''days'', 86400),
     (''week'', 604800), (''weeks'', 604800)]"

section \<open>The patterns, with their groups as parts\<close>

definition dig :: rx where
  "dig = Cls is_digit"

definition dig2 :: rx where
  "dig2 = Sq dig dig"

definition dig12 :: rx where
  "dig12 = Al dig2 dig"

definition ISO :: "rx list" where
  "ISO = [Bos, sp0, Sq dig2 dig2, lit ''-'', dig2, lit ''-'', dig2,
     opt (seqs [one_of ''T '', dig12, lit '':'', dig2])]"

definition IN_N :: "rx list" where
  "IN_N = [Bnd, lit ''in'', sp1, plus1 dig, sp0,
     words [''min'', ''mins'', ''minute'', ''minutes'', ''hour'', ''hours'', ''hr'', ''hrs'', ''day'', ''days'',
       ''week'', ''weeks''], Bnd]"

definition CLOCK :: "rx list" where
  "CLOCK = [Bnd, opt (Sq (lit ''at'') sp1), dig12, opt (Sq (lit '':'') dig2), sp0,
     opt (words [''am'', ''pm'']), Bnd]"

definition parts_of :: "rx list \<Rightarrow> string \<Rightarrow> string list option" where
  "parts_of rs s = map_option pieces (search_path rs (spots_from ([], s)))"

section \<open>Dates\<close>

definition day_number :: "tm \<Rightarrow> int" where
  "day_number x = days_before_year (tm_year x) + days_before_month (tm_year x) (tm_mon x) + tm_mday x - 1"

definition weekday :: "tm \<Rightarrow> int" where
  "weekday x = (day_number x + 3) mod 7"

definition DAY_NAMES :: "string list" where
  "DAY_NAMES = [''Monday'', ''Tuesday'', ''Wednesday'', ''Thursday'', ''Friday'', ''Saturday'', ''Sunday'']"

definition MONTH_NAMES :: "string list" where
  "MONTH_NAMES = [''Jan'', ''Feb'', ''Mar'', ''Apr'', ''May'', ''Jun'', ''Jul'', ''Aug'', ''Sep'', ''Oct'',
     ''Nov'', ''Dec'']"

definition due_say :: "tm \<Rightarrow> string \<Rightarrow> string" where
  "due_say x lead =
     (let st = DAY_NAMES ! nat (weekday x) @ '' '' @ dec2 (tm_mday x) @ '' '' @ MONTH_NAMES ! nat (tm_mon x - 1)
               @ '' at '' @ dec2 (tm_hour x) @ '':'' @ dec2 (tm_min x)
      in if lead \<noteq> [] then lead @ '' ('' @ st @ '')'' else st)"

text \<open>\<open>datetime(y, mo, d)\<close>: midnight, or no date.\<close>

definition date_of :: "int \<Rightarrow> int \<Rightarrow> int \<Rightarrow> tm option" where
  "date_of y mo d =
     (if 1 \<le> y \<and> 1 \<le> mo \<and> mo \<le> 12 \<and> 1 \<le> d \<and> d \<le> months y ! nat (mo - 1)
      then Some \<lparr>tm_year = y, tm_mon = mo, tm_mday = d, tm_hour = 0, tm_min = 0, tm_sec = 0\<rparr> else None)"

definition set_time :: "tm \<Rightarrow> int \<Rightarrow> int \<Rightarrow> due_error + tm" where
  "set_time day h m =
     (if 0 \<le> h \<and> h \<le> 23 \<and> 0 \<le> m \<and> m \<le> 59
      then Inr (day\<lparr>tm_hour := h, tm_min := m, tm_sec := 0\<rparr>) else Inl ValueError)"

text \<open>The last second of year 9999.\<close>

definition LAST_SECOND :: int where
  "LAST_SECOND = 253402300799"

definition plus_seconds :: "int \<Rightarrow> int \<Rightarrow> due_error + tm" where
  "plus_seconds now k = (if now + k \<le> LAST_SECOND then Inr (gmtime (now + k)) else Inl OverflowError)"

definition bind_due :: "due_error + 'a \<Rightarrow> ('a \<Rightarrow> due_error + 'b) \<Rightarrow> due_error + 'b" where
  "bind_due x f = (case x of Inl e \<Rightarrow> Inl e | Inr a \<Rightarrow> f a)"

section \<open>The time of day\<close>

definition clock_hour :: "int \<Rightarrow> string \<Rightarrow> int" where
  "clock_hour h ap =
     (if ap = ''pm'' \<and> h < 12 then h + 12
      else if ap = ''am'' \<and> h = 12 then 0
      else if ap = [] \<and> h \<le> 7 then h + 12
      else h)"

definition clock_on :: "tm \<Rightarrow> string \<Rightarrow> int \<Rightarrow> due_error + tm" where
  "clock_on day said default_hour =
     (case parts_of CLOCK said of
        None \<Rightarrow> set_time day default_hour 0
      | Some ps \<Rightarrow>
          (let h = clock_hour (undec (ps ! 2)) (ps ! 5); m = undec (drop 1 (ps ! 3))
           in set_time day (if 0 \<le> h \<and> h \<le> 23 then h else default_hour) m))"

section \<open>parse_due\<close>

definition answer :: "string \<Rightarrow> due_error + tm \<Rightarrow> due_error + (string \<times> string)" where
  "answer lead x = bind_due x (\<lambda>dt. Inr (strftime dt, due_say dt lead))"

definition ahead_of :: "string \<Rightarrow> int \<Rightarrow> int \<Rightarrow> int" where
  "ahead_of t idx today =
     (let a = (idx - today) mod 7; b = (if a = 0 then 7 else a)
      in if contains t ''next'' \<and> b < 7 then b + 7 else b)"

definition parse_iso :: "string \<Rightarrow> spot list \<Rightarrow> due_error + (string \<times> string)" where
  "parse_iso t qs =
     (let ps = pieces qs; clock = ps ! 7 in
      case date_of (undec (ps ! 2)) (undec (ps ! 4)) (undec (ps ! 6)) of
        None \<Rightarrow> Inr ([], [])
      | Some day \<Rightarrow>
          answer []
            (if clock \<noteq> []
             then set_time day (undec (takeWhile is_digit (drop 1 clock)))
                    (undec (drop 1 (dropWhile is_digit (drop 1 clock))))
             else clock_on day (snd (last qs)) 9))"

definition named_day :: "string \<Rightarrow> int option" where
  "named_day t = map_option snd (find (\<lambda>(nm, i). found (bounded (lit nm)) t) WEEKDAYS)"

definition parse_due :: "string \<Rightarrow> int \<Rightarrow> due_error + (string \<times> string)" where
  "parse_due said now =
     (let t = lower (strip said) in
      if t = [] then Inr ([], [])
      else case search_path ISO [([], t)] of
        Some qs \<Rightarrow> parse_iso t qs
      | None \<Rightarrow>
      (case parts_of IN_N t of
        Some ps \<Rightarrow>
          answer (''in '' @ ps ! 3 @ '' '' @ ps ! 5)
            (plus_seconds now (undec (ps ! 3) * the (map_of UNITS (ps ! 5))))
      | None \<Rightarrow>
        if contains t ''tonight'' then answer ''tonight'' (clock_on (gmtime now) t 20)
        else if contains t ''tomorrow''
        then answer ''tomorrow'' (bind_due (plus_seconds now 86400) (\<lambda>d. clock_on d t 9))
        else if contains t ''today'' then answer ''today'' (clock_on (gmtime now) t 9)
        else (case named_day t of
          Some idx \<Rightarrow>
            answer [] (bind_due (plus_seconds now (ahead_of t idx (weekday (gmtime now)) * 86400))
              (\<lambda>d. clock_on d t 9))
        | None \<Rightarrow>
          if parts_of CLOCK t \<noteq> None
          then bind_due (clock_on (gmtime now) t 9) (\<lambda>dt.
            if timegm dt \<le> now
            then answer ''tomorrow'' (bind_due (plus_seconds now 86400) (\<lambda>d. clock_on d t 9))
            else Inr (strftime dt, due_say dt ''today''))
          else Inr ([], []))))"

end
