(* ===== verification/DuetimeLaws.thy ===== *)
theory DuetimeLaws imports Duetime begin

text \<open>
  What a due stamp is worth: it can be read back, it is not in the past unless he named the day
  himself, a weekday is the day he named, a date with a time is kept to the minute, and the stamp
  format of the stores is not among the formats the parser reads.
\<close>

section \<open>Seconds of a changed time of day\<close>

lemma timegm_day: "timegm x = day_number x * 86400 + tm_hour x * 3600 + tm_min x * 60 + tm_sec x"
  by (simp add: timegm_def day_number_def algebra_simps)

lemma day_number_gmtime: "0 \<le> t \<Longrightarrow> day_number (gmtime t) = t div 86400"
proof -
  assume t: "0 \<le> t"
  define r where "r = tm_hour (gmtime t) * 3600 + tm_min (gmtime t) * 60 + tm_sec (gmtime t)"
  have r: "0 \<le> r" "r < 86400" using gmtime_ok [OF t] by (simp_all add: r_def)
  have "t = day_number (gmtime t) * 86400 + r"
    using gmtime_ok(1) [OF t] timegm_day [of "gmtime t"] by (simp add: r_def)
  then have "t div 86400 = (day_number (gmtime t) * 86400 + r) div 86400" by simp
  also have "\<dots> = day_number (gmtime t)" using r by simp
  finally show ?thesis by simp
qed

lemma day_number_set_time:
  "set_time d h m = Inr x \<Longrightarrow> day_number x = day_number d \<and> tm_year x = tm_year d
     \<and> tm_mon x = tm_mon d \<and> tm_mday x = tm_mday d \<and> tm_sec x = 0
     \<and> 0 \<le> tm_hour x \<and> tm_hour x \<le> 23 \<and> 0 \<le> tm_min x \<and> tm_min x \<le> 59"
  by (auto simp: set_time_def day_number_def split: if_splits)

lemma clock_on_set_time: "\<exists>h m. clock_on d s dh = set_time d h m"
  by (simp add: clock_on_def Let_def split: option.splits) blast

lemma clock_on_day:
  "clock_on d s dh = Inr x \<Longrightarrow> day_number x = day_number d \<and> tm_year x = tm_year d
     \<and> tm_mon x = tm_mon d \<and> tm_mday x = tm_mday d \<and> tm_sec x = 0
     \<and> 0 \<le> tm_hour x \<and> tm_hour x \<le> 23 \<and> 0 \<le> tm_min x \<and> tm_min x \<le> 59"
  using clock_on_set_time [of d s dh] day_number_set_time by metis

lemma year_mono:
  assumes "0 \<le> t" and "t \<le> LAST_SECOND" shows "tm_year (gmtime t) \<le> 9999"
proof (rule ccontr)
  assume "\<not> ?thesis"
  then have y: "10000 \<le> tm_year (gmtime t)" by simp
  have mono: "days_before_year a \<le> days_before_year (a + int k)" for a k
  proof (induction k)
    case (Suc k)
    have "days_before_year (a + int (Suc k)) = days_before_year (a + int k) + year_len (a + int k)"
      using days_before_year_Suc [of "a + int k"] by (simp add: algebra_simps)
    moreover have "0 \<le> year_len (a + int k)" by (simp add: year_len_def)
    ultimately show ?case using Suc by linarith
  qed simp
  have "days_before_year 10000 \<le> days_before_year (tm_year (gmtime t))"
    using mono [of 10000 "nat (tm_year (gmtime t) - 10000)"] y by simp
  moreover have "days_before_year 10000 = 2932897" by (simp add: days_before_year_def)
  moreover have "0 \<le> days_before_month (tm_year (gmtime t)) (tm_mon (gmtime t))"
    unfolding days_before_month_def by (rule sum_list_nonneg) (auto simp: months_def dest!: in_set_takeD)
  ultimately have "2932897 \<le> day_number (gmtime t)"
    using gmtime_ok(4) [OF assms(1)] by (simp add: day_number_def)
  then have "2932897 \<le> t div 86400" by (simp add: day_number_gmtime assms(1))
  then show False using assms(2) by (simp add: LAST_SECOND_def)
qed

lemma plus_seconds_ok:
  "0 \<le> now + k \<Longrightarrow> plus_seconds now k = Inr d \<Longrightarrow>
     d = gmtime (now + k) \<and> tm_ok d \<and> day_number d = (now + k) div 86400"
  using year_mono [of "now + k"] gmtime_tm_ok [of "now + k"]
  by (auto simp: plus_seconds_def day_number_gmtime split: if_splits)

lemma clock_on_ok: "tm_ok d \<Longrightarrow> clock_on d s dh = Inr x \<Longrightarrow> tm_ok x"
  using clock_on_day [of d s dh x] by (simp add: tm_ok_def)

lemma set_time_ok: "tm_ok d \<Longrightarrow> set_time d h m = Inr x \<Longrightarrow> tm_ok x"
  using day_number_set_time [of d h m x] by (simp add: tm_ok_def)

lemma later_day: "now div 86400 < day_number x \<Longrightarrow> 0 \<le> tm_hour x \<Longrightarrow> 0 \<le> tm_min x \<Longrightarrow> tm_sec x = 0
    \<Longrightarrow> now < timegm x"
proof -
  assume a: "now div 86400 < day_number x" "0 \<le> tm_hour x" "0 \<le> tm_min x" "tm_sec x = 0"
  have "now < (now div 86400 + 1) * 86400" by (simp add: distrib_right)
  also have "\<dots> \<le> day_number x * 86400" using a(1) by (intro mult_right_mono) auto
  also have "\<dots> \<le> timegm x" using a by (simp add: timegm_day)
  finally show ?thesis .
qed

lemma clock_on_later:
  assumes "0 \<le> now" "86400 \<le> k" "plus_seconds now k = Inr d" "clock_on d s dh = Inr x"
  shows "tm_ok x" "now < timegm x" "day_number x = (now + k) div 86400"
proof -
  have d: "tm_ok d" "day_number d = (now + k) div 86400" using plus_seconds_ok [of now k d] assms by auto
  show "tm_ok x" using d(1) assms(4) by (rule clock_on_ok)
  note c = clock_on_day [OF assms(4)]
  show "day_number x = (now + k) div 86400" using c d(2) by simp
  moreover have "(now + 86400) div 86400 \<le> (now + k) div 86400" using assms(2) by (intro zdiv_mono1) auto
  ultimately show "now < timegm x" using c by (intro later_day) auto
qed

section \<open>A due stamp can be read and is not in the past\<close>

definition said_date :: "string \<Rightarrow> bool" where
  "said_date said \<longleftrightarrow> search_path ISO [([], lower (strip said))] \<noteq> None"

definition said_today :: "string \<Rightarrow> bool" where
  "said_today said \<longleftrightarrow> contains (lower (strip said)) ''today'' \<or> contains (lower (strip said)) ''tonight''"

lemma answer_Inr: "answer lead v = Inr (due, say) \<longleftrightarrow> (\<exists>x. v = Inr x \<and> due = strftime x \<and> say = due_say x lead)"
  by (auto simp: answer_def bind_due_def split: sum.splits)

lemma bind_due_Inr: "bind_due v f = Inr y \<longleftrightarrow> (\<exists>x. v = Inr x \<and> f x = Inr y)"
  by (cases v) (auto simp: bind_due_def)

lemma undec_nonneg: "list_all is_digit s \<Longrightarrow> 0 \<le> undec s"
proof -
  have "0 \<le> a \<Longrightarrow> list_all is_digit s \<Longrightarrow> 0 \<le> foldl (\<lambda>n c. n * 10 + (code c - 48)) a s" for a
    by (induction s arbitrary: a) (auto simp: is_digit_def)
  then show "list_all is_digit s \<Longrightarrow> 0 \<le> undec s" by (simp add: undec_def)
qed

lemma dig_star: "rmatch (St dig) p q \<Longrightarrow> list_all is_digit (between p q)"
proof -
  have "rmatch r p q \<Longrightarrow> r = St dig \<Longrightarrow> \<exists>w. snd p = w @ snd q \<and> list_all is_digit w" for r
  proof (induction rule: rmatch.induct)
    case (rm_more r p q u)
    then obtain w where w: "snd q = w @ snd u" "list_all is_digit w" by auto
    from rm_more obtain c where "snd p = c # snd q" "is_digit c" by (auto simp: dig_def)
    with w show ?case by (intro exI [of _ "c # w"]) simp
  qed auto
  then show "rmatch (St dig) p q \<Longrightarrow> list_all is_digit (between p q)" by (fastforce simp: between_def)
qed

lemma dig_plus: "rmatch (plus1 dig) p q \<Longrightarrow> list_all is_digit (between p q)"
proof -
  assume "rmatch (plus1 dig) p q"
  then obtain u where u: "rmatch dig p u" "rmatch (St dig) u q" by (auto simp: plus1_def)
  from u(1) obtain c where c: "snd p = c # snd u" "is_digit c" by (auto simp: dig_def)
  have l: "length (snd q) \<le> length (snd u)" using u(2) by (rule rmatch_forward)
  with dig_star [OF u(2)] c show ?thesis by (simp add: between_def Suc_diff_le)
qed

lemma paths_Cons: "qs \<in> set (paths (r # rs) p) \<longleftrightarrow> (\<exists>q us. qs = q # us \<and> rmatch r p q \<and> us \<in> set (paths rs q))"
  by (auto simp flip: mt_iff)

lemma search_pathD: "search_path rs ps = Some qs \<Longrightarrow> \<exists>p us. qs = p # us \<and> us \<in> set (paths rs p)"
  by (induction ps) (auto split: list.splits)

lemma rmatch_words: "rmatch (words ws) p q \<Longrightarrow> between p q \<in> set ws"
proof -
  have "rmatch (alts (map lit ws)) p q \<Longrightarrow> \<exists>w \<in> set ws. snd p = w @ snd q"
  proof (induction ws rule: induct_list012)
    case 1
    then show ?case by auto
  next
    case (2 w)
    then show ?case by (auto dest: rmatch_lit)
  next
    case (3 v w ws)
    then show ?case by (auto dest: rmatch_lit)
  qed
  then show "rmatch (words ws) p q \<Longrightarrow> between p q \<in> set ws" by (auto simp: words_def between_def)
qed

lemma in_n_pieces:
  assumes "parts_of IN_N t = Some ps"
  shows "list_all is_digit (ps ! 3)" "\<exists>u > 0. map_of UNITS (ps ! 5) = Some u"
proof -
  obtain p us where us: "us \<in> set (paths IN_N p)" and ps: "ps = pieces (p # us)"
    using assms by (auto simp: parts_of_def dest!: search_pathD)
  from us obtain a b c d e f g where "us = [a, b, c, d, e, f, g]" "rmatch (plus1 dig) c d"
    "rmatch (words (map fst UNITS)) e f"
    unfolding IN_N_def paths_Cons by (auto simp: UNITS_def)
  then have "list_all is_digit (ps ! 3)" "ps ! 5 \<in> set (map fst UNITS)"
    using dig_plus [of c d] rmatch_words [of "map fst UNITS" e f] by (simp_all add: ps eval_nat_numeral)
  then show "list_all is_digit (ps ! 3)" "\<exists>u > 0. map_of UNITS (ps ! 5) = Some u"
    by (auto simp: UNITS_def)
qed

lemma ahead_range: "1 \<le> ahead_of t i w \<and> ahead_of t i w \<le> 13"
proof -
  have "0 \<le> (i - w) mod 7" "(i - w) mod 7 < 7" by simp_all
  then show ?thesis by (auto simp: ahead_of_def Let_def)
qed

text \<open>What the parser returns, branch by branch.\<close>

lemma parse_due_cases:
  assumes "0 \<le> now" and "parse_due said now = Inr (due, say)" and "due \<noteq> []"
    and "\<not> said_date said" and "\<not> said_today said" and "now \<le> LAST_SECOND"
  obtains x where "tm_ok x" "due = strftime x" "now \<le> timegm x"
proof -
  define t where "t = lower (strip said)"
  note def = assms(2) [unfolded parse_due_def, folded t_def]
  have t: "t \<noteq> []" and nd: "search_path ISO [([], t)] = None"
    and today: "\<not> contains t ''tonight''" "\<not> contains t ''today''"
    using assms(3,4,5) def by (auto simp: said_date_def said_today_def t_def Let_def)
  have tm: "tm_ok (gmtime now)" using assms(1,6) year_mono gmtime_tm_ok by blast
  show thesis
  proof (cases "parts_of IN_N t")
    case (Some ps)
    define k where "k = undec (ps ! 3) * the (map_of UNITS (ps ! 5))"
    obtain x where x: "plus_seconds now k = Inr x" "due = strftime x"
      using def t nd Some by (auto simp: Let_def answer_Inr k_def)
    have "0 \<le> k" using in_n_pieces [OF Some] undec_nonneg [of "ps ! 3"] by (auto simp: k_def)
    then show thesis using that [of x] x plus_seconds_ok [of now k x] gmtime_ok(1) [of "now + k"] assms(1) by auto
  next
    case None
    show thesis
    proof (cases "contains t ''tomorrow''")
      case True
      then obtain d x where d: "plus_seconds now 86400 = Inr d" "clock_on d t 9 = Inr x" "due = strftime x"
        using def t nd None today by (auto simp: Let_def answer_Inr bind_due_Inr)
      with clock_on_later [OF assms(1) _ d(1,2)] show thesis by (intro that [of x]) auto
    next
      case False
      note no_tomorrow = this
      show thesis
      proof (cases "named_day t")
        case (Some idx)
        define k where "k = ahead_of t idx (weekday (gmtime now)) * 86400"
        obtain d x where d: "plus_seconds now k = Inr d" "clock_on d t 9 = Inr x" "due = strftime x"
          using def t nd None today False Some by (auto simp: Let_def answer_Inr bind_due_Inr k_def)
        have "86400 \<le> k" by (simp add: k_def ahead_range)
        with clock_on_later [OF assms(1) _ d(1,2)] d(3) show thesis by (intro that [of x]) auto
      next
        case None
        note rest = def t nd \<open>parts_of IN_N t = None\<close> today no_tomorrow None
        have clock: "parts_of CLOCK t \<noteq> None" using rest assms(3) by (auto simp: Let_def split: if_splits)
        then obtain dt where dt: "clock_on (gmtime now) t 9 = Inr dt"
          using rest by (auto simp: Let_def bind_due_Inr)
        show thesis
        proof (cases "timegm dt \<le> now")
          case True
          then obtain d x where d: "plus_seconds now 86400 = Inr d" "clock_on d t 9 = Inr x" "due = strftime x"
            using rest clock dt by (auto simp: Let_def answer_Inr bind_due_Inr)
          with clock_on_later [OF assms(1) _ d(1,2)] show thesis by (intro that [of x]) auto
        next
          case False
          then have "due = strftime dt" using rest clock dt by (auto simp: Let_def bind_due_Inr)
          moreover have "tm_ok dt" using tm dt by (rule clock_on_ok)
          ultimately show thesis using False by (intro that [of dt]) auto
        qed
      qed
    qed
  qed
qed

lemma undec_less: "list_all is_digit s \<Longrightarrow> undec s < 10 ^ length s"
proof -
  have "foldl (\<lambda>n c. n * 10 + (code c - 48)) a s < (a + 1) * 10 ^ length s" if "list_all is_digit s" for a
    using that
  proof (induction s arbitrary: a)
    case (Cons c s)
    then have c: "code c - 48 \<le> 9" by (simp add: is_digit_def)
    have "foldl (\<lambda>n c. n * 10 + (code c - 48)) (a * 10 + (code c - 48)) s
        < (a * 10 + (code c - 48) + 1) * 10 ^ length s" by (rule Cons.IH) (use Cons.prems in simp)
    also have "\<dots> \<le> (a + 1) * 10 * 10 ^ length s" using c by (intro mult_right_mono) auto
    finally show ?case by (simp add: algebra_simps)
  qed simp
  from this [of 0] show "list_all is_digit s \<Longrightarrow> undec s < 10 ^ length s" by (simp add: undec_def)
qed

lemma dig4: "rmatch (Sq dig2 dig2) p q \<Longrightarrow> undec (between p q) \<le> 9999"
proof -
  assume "rmatch (Sq dig2 dig2) p q"
  then obtain a b c d where "snd p = [a, b, c, d] @ snd q" "list_all is_digit [a, b, c, d]"
    by (auto simp: dig2_def dig_def)
  then show ?thesis using undec_less [of "[a, b, c, d]"] by (simp add: between_def)
qed

lemma date_of_ok: "date_of y mo d = Some x \<Longrightarrow> y \<le> 9999 \<Longrightarrow> tm_ok x"
  by (auto simp: date_of_def tm_ok_def split: if_splits)

lemma parse_iso_ok:
  assumes "search_path ISO [([], t)] = Some qs" and "parse_iso t qs = Inr (due, say)" and "due \<noteq> []"
  obtains x where "tm_ok x" "due = strftime x"
proof -
  obtain us where us: "us \<in> set (paths ISO ([], t))" and qs: "qs = ([], t) # us"
    using assms(1) by (cases "paths ISO ([], t)") auto
  obtain R where R: "ISO = Bos # sp0 # Sq dig2 dig2 # R" by (rule that) (rule ISO_def)
  obtain a us1 where u1: "us = a # us1" "us1 \<in> set (paths (sp0 # Sq dig2 dig2 # R) a)"
    using us unfolding R paths_Cons [of us] by (elim exE conjE) (rule that)
  obtain b us2 where u2: "us1 = b # us2" "us2 \<in> set (paths (Sq dig2 dig2 # R) b)"
    using u1(2) unfolding paths_Cons [of us1] by (elim exE conjE) (rule that)
  obtain c us3 where u: "us2 = c # us3" "rmatch (Sq dig2 dig2) b c"
    using u2(2) unfolding paths_Cons [of us2] by (elim exE conjE) (rule that)
  have y: "undec (pieces qs ! 2) \<le> 9999" using dig4 [OF u(2)] by (simp add: qs u1(1) u2(1) u(1))
  obtain day where d: "date_of (undec (pieces qs ! 2)) (undec (pieces qs ! 4)) (undec (pieces qs ! 6)) = Some day"
    using assms(2,3) by (auto simp: parse_iso_def Let_def split: option.splits)
  then have ok: "tm_ok day" using y by (rule date_of_ok)
  obtain x where "due = strftime x" and v: "(\<exists>h m. set_time day h m = Inr x) \<or> (\<exists>s. clock_on day s 9 = Inr x)"
    using assms(2) d by (auto simp: parse_iso_def Let_def answer_Inr split: if_splits)
  moreover have "tm_ok x" using v ok set_time_ok clock_on_ok by blast
  ultimately show thesis using that by blast
qed

text \<open>
  C28. A due stamp the parser gives is a date of the calendar that the readers of the board read back,
  and unless he said a date, or today or tonight, it is not in the past.
\<close>

theorem due_stamp_kept:
  assumes "0 \<le> now" and "now \<le> LAST_SECOND"
    and "parse_due said now = Inr (due, say)" and "due \<noteq> []"
  shows "\<exists>x. tm_ok x \<and> due = strftime x \<and> strptime due = Some x
    \<and> (said_date said \<or> said_today said \<or> now \<le> timegm x)"
proof -
  define t where "t = lower (strip said)"
  note def = assms(3) [unfolded parse_due_def, folded t_def]
  have t: "t \<noteq> []" using def assms(4) by (auto simp: Let_def)
  have tm: "tm_ok (gmtime now)" using assms(1,2) year_mono gmtime_tm_ok by blast
  consider (date) "said_date said" | (today) "\<not> said_date said" "said_today said"
    | (other) "\<not> said_date said" "\<not> said_today said" by blast
  then show ?thesis
  proof cases
    case date
    then obtain qs where qs: "search_path ISO [([], t)] = Some qs" by (auto simp: said_date_def t_def)
    then have "parse_iso t qs = Inr (due, say)" using def t by (simp add: Let_def)
    from parse_iso_ok [OF qs this assms(4)] obtain x where "tm_ok x" "due = strftime x" .
    with date show ?thesis by (metis strptime_strftime)
  next
    case today
    have "\<exists>x. tm_ok x \<and> due = strftime x \<and> (said_today said \<or> now \<le> timegm x)"
    proof (cases "parts_of IN_N t")
      case (Some ps)
      define k where "k = undec (ps ! 3) * the (map_of UNITS (ps ! 5))"
      have "0 \<le> k" using in_n_pieces [OF Some] undec_nonneg [of "ps ! 3"] by (auto simp: k_def)
      moreover obtain x where "plus_seconds now k = Inr x" "due = strftime x"
        using def t today(1) Some by (auto simp: Let_def answer_Inr k_def said_date_def t_def)
      ultimately show ?thesis using plus_seconds_ok [of now k x] today assms(1) by auto
    next
      case None
      have day: "\<exists>d s dh. due = strftime d \<and> (\<exists>g. tm_ok g \<and> clock_on g s dh = Inr d)"
        if "answer lead (clock_on g s dh) = Inr (due, say)" "tm_ok g" for lead g s dh
        using that by (auto simp: answer_Inr)
      have "\<exists>g lead dh. answer lead (clock_on g t dh) = Inr (due, say) \<and> tm_ok g"
      proof -
        have "0 \<le> now + 86400" using assms(1) by simp
        then have p: "tm_ok g" if "plus_seconds now 86400 = Inr g" for g
          using plus_seconds_ok that by blast
        show ?thesis
          using def t today None tm p
          by (auto simp: Let_def said_date_def said_today_def t_def answer_Inr bind_due_Inr split: if_splits)
      qed
      then show ?thesis using day today(2) clock_on_ok by blast
    qed
    with today show ?thesis by (metis strptime_strftime)
  next
    case other
    from parse_due_cases [OF assms(1,3,4) other assms(2)] obtain x
      where "tm_ok x" "due = strftime x" "now \<le> timegm x" .
    then show ?thesis by (metis strptime_strftime)
  qed
qed

theorem due_stamp_kept_witness:
  "\<exists>x. tm_ok x \<and> ''2026-07-13T18:00:00Z'' = strftime x \<and> strptime ''2026-07-13T18:00:00Z'' = Some x
     \<and> 1783947600 \<le> timegm x"
proof -
  have "parse_due ''at 6pm'' 1783947600 = Inr (''2026-07-13T18:00:00Z'', ''today (Monday 13 Jul at 18:00)'')"
    "\<not> said_date ''at 6pm''" "\<not> said_today ''at 6pm''" by code_simp+
  then show ?thesis
    using due_stamp_kept [of 1783947600 "''at 6pm''" "''2026-07-13T18:00:00Z''"
        "''today (Monday 13 Jul at 18:00)''"] by (simp add: LAST_SECOND_def)
qed

text \<open>
  A day of the week he names is that day of the calendar, tomorrow at the earliest and less than
  two weeks away.
\<close>

theorem named_day_kept:
  assumes "0 \<le> now" and "parse_due said now = Inr (due, say)"
    and "\<not> said_date said" and "\<not> said_today said" and "parts_of IN_N (lower (strip said)) = None"
    and "\<not> contains (lower (strip said)) ''tomorrow''" and "named_day (lower (strip said)) = Some idx"
  shows "\<exists>x. tm_ok x \<and> due = strftime x \<and> say = due_say x [] \<and> weekday x = idx \<and> now < timegm x
    \<and> now div 86400 < day_number x \<and> day_number x \<le> now div 86400 + 13"
proof -
  define t where "t = lower (strip said)"
  define k where "k = ahead_of t idx (weekday (gmtime now))"
  have "named_day [] = None" by code_simp
  then have "t \<noteq> []" using assms(7) by (auto simp: t_def)
  then obtain d x where d: "plus_seconds now (k * 86400) = Inr d" "clock_on d t 9 = Inr x"
      "due = strftime x" "say = due_say x []"
    using assms(2-7) unfolding parse_due_def t_def [symmetric]
    by (auto simp: Let_def answer_Inr bind_due_Inr said_date_def said_today_def k_def t_def)
  have k: "1 \<le> k" "k \<le> 13" using ahead_range by (simp_all add: k_def)
  have "86400 \<le> k * 86400" using k(1) by simp
  note c = clock_on_later [OF assms(1) this d(1,2)]
  have dn: "day_number x = now div 86400 + k" using c(3) by simp
  have idx: "0 \<le> idx" "idx < 7" using assms(7) by (auto simp: named_day_def WEEKDAYS_def split: if_splits)
  define w where "w = (now div 86400 + 3) mod 7"
  have "k mod 7 = (idx - w) mod 7"
    by (auto simp: k_def ahead_of_def Let_def weekday_def day_number_gmtime assms(1) w_def)
  then have "(now div 86400 + 3 + k) mod 7 = (w + (idx - w)) mod 7"
    unfolding w_def by (metis mod_add_cong mod_mod_trivial)
  then have "weekday x = idx" using idx by (simp add: weekday_def dn ac_simps)
  then show ?thesis using c d k dn by auto
qed

theorem named_day_kept_witness:
  "\<exists>x. tm_ok x \<and> ''2026-07-24T09:00:00Z'' = strftime x \<and> weekday x = 4 \<and> 1783947600 < timegm x"
proof -
  have "parse_due ''next friday'' 1783947600 = Inr (''2026-07-24T09:00:00Z'', ''Friday 24 Jul at 09:00'')"
    "\<not> said_date ''next friday''" "\<not> said_today ''next friday''"
    "parts_of IN_N (lower (strip ''next friday'')) = None" "\<not> contains (lower (strip ''next friday'')) ''tomorrow''"
    "named_day (lower (strip ''next friday'')) = Some 4" by code_simp+
  from named_day_kept [OF _ this] show ?thesis by auto
qed

section \<open>Dates with a time\<close>

lemma digit_char: "is_digit c \<Longrightarrow> \<not> is_space c \<and> is_wordc c \<and> \<not> is_upper c \<and> lower_char c = c"
  by (auto simp: is_digit_def is_space_def is_wordc_def is_alnum_def is_upper_def lower_char_def)

lemma digit_neq: "is_digit c \<Longrightarrow> \<not> is_digit d \<Longrightarrow> c \<noteq> d"
  by auto

lemma is_digit_digit: "0 \<le> n \<Longrightarrow> n \<le> 9 \<Longrightarrow> is_digit (digit n)"
  by (simp add: is_digit_def code_digit)

lemma mt_star_stop: "\<not> first_is P (snd p) \<Longrightarrow> mt (St (Cls P)) p = [p]"
proof -
  assume n: "\<not> first_is P (snd p)"
  then have "eat P p = []" by (cases p; cases "snd p") auto
  then show ?thesis by (cases "length (snd p)") auto
qed

lemmas run_rx = mt_star_stop dig_def dig2_def dig12_def opt_def seqs_def lit_def chr_def one_of_def sp0_def
  digit_char

definition iso_date :: "char \<Rightarrow> char \<Rightarrow> char \<Rightarrow> char \<Rightarrow> char \<Rightarrow> char \<Rightarrow> char \<Rightarrow> char \<Rightarrow> string" where
  "iso_date a b c d e f g h = [a, b, c, d, CHR ''-'', e, f, CHR ''-'', g, h]"

lemma not_digits: "\<not> is_digit CHR ''-''" "\<not> is_digit CHR '':''" "\<not> is_digit CHR '' ''" "\<not> is_digit CHR ''t''"
    "\<not> is_digit CHR ''z''" "\<not> is_digit CHR ''T''"
  by (simp_all add: is_digit_def code_def)

lemma search_iso:
  assumes "is_digit a" "is_digit b" "is_digit c" "is_digit d" "is_digit e" "is_digit f" "is_digit g" "is_digit h"
  shows "is_digit i \<Longrightarrow> is_digit j \<Longrightarrow> is_digit k \<Longrightarrow> is_digit l \<Longrightarrow>
      map_option pieces (search_path ISO [([], iso_date a b c d e f g h @ [CHR '' '', i, j, CHR '':'', k, l])])
      = Some [[], [], [a, b, c, d], ''-'', [e, f], ''-'', [g, h], [CHR '' '', i, j, CHR '':'', k, l]]"
    "\<exists>qs. search_path ISO [([], iso_date a b c d e f g h @ CHR ''t'' # s)] = Some qs
      \<and> pieces qs = [[], [], [a, b, c, d], ''-'', [e, f], ''-'', [g, h], []] \<and> snd (last qs) = CHR ''t'' # s"
  using assms not_digits
  by (simp_all add: ISO_def iso_date_def run_rx between_def digit_neq)

lemma dec2_chars:
  assumes "0 \<le> n" "n < 100"
  obtains a b where "dec2 n = [a, b]" "is_digit a" "is_digit b" "undec [a, b] = n"
  using dec2_digits [OF assms] by (auto simp: dec2_def)

lemma dec4_chars:
  assumes "0 \<le> n" "n < 10000"
  obtains a b c d where "dec4 n = [a, b, c, d]" "is_digit a" "is_digit b" "is_digit c" "is_digit d"
    "undec [a, b, c, d] = n"
  using dec4_digits [OF assms] by (auto simp: dec4_def dec2_def)

lemma strftime_day_chars:
  assumes "tm_ok x"
  obtains a b c d e f g h where "strftime_day x = iso_date a b c d e f g h"
    "is_digit a" "is_digit b" "is_digit c" "is_digit d" "is_digit e" "is_digit f" "is_digit g" "is_digit h"
    "undec [a, b, c, d] = tm_year x" "undec [e, f] = tm_mon x" "undec [g, h] = tm_mday x"
proof -
  have r: "0 \<le> tm_year x" "tm_year x < 10000" "0 \<le> tm_mon x" "tm_mon x < 100" "0 \<le> tm_mday x" "tm_mday x < 100"
    using assms months_le [of "tm_mon x - 1" "tm_year x"] by (simp_all add: tm_ok_def)
  obtain a b c d where y: "dec4 (tm_year x) = [a, b, c, d]" "is_digit a" "is_digit b" "is_digit c" "is_digit d"
    "undec [a, b, c, d] = tm_year x" using r(1,2) by (rule dec4_chars)
  obtain e f where m: "dec2 (tm_mon x) = [e, f]" "is_digit e" "is_digit f" "undec [e, f] = tm_mon x"
    using r(3,4) by (rule dec2_chars)
  obtain g h where d: "dec2 (tm_mday x) = [g, h]" "is_digit g" "is_digit h" "undec [g, h] = tm_mday x"
    using r(5,6) by (rule dec2_chars)
  show thesis using y m d by (intro that [of a b c d e f g h]) (simp_all add: strftime_day_def iso_date_def)
qed

lemma date_of_tm_ok: "tm_ok x \<Longrightarrow> date_of (tm_year x) (tm_mon x) (tm_mday x)
    = Some (x\<lparr>tm_hour := 0, tm_min := 0, tm_sec := 0\<rparr>)"
  by (simp add: date_of_def tm_ok_def)

lemma set_time_back:
  "tm_ok x \<Longrightarrow> tm_sec x = 0 \<Longrightarrow> set_time (x\<lparr>tm_hour := 0, tm_min := 0, tm_sec := 0\<rparr>) (tm_hour x) (tm_min x) = Inr x"
  by (simp add: set_time_def tm_ok_def)

lemma parse_due_iso:
  "lower (strip said) = t \<Longrightarrow> t \<noteq> [] \<Longrightarrow> search_path ISO [([], t)] = Some qs \<Longrightarrow>
     parse_due said now = parse_iso t qs"
  by (simp add: parse_due_def Let_def del: search_path.simps)

text \<open>
  A date with a time of day, written with a blank between them, is kept to the minute whatever
  the clock says.
\<close>

theorem date_and_time_kept:
  assumes "tm_ok x" and "tm_sec x = 0"
  shows "parse_due (strftime_day x @ '' '' @ dec2 (tm_hour x) @ '':'' @ dec2 (tm_min x)) now
    = Inr (strftime x, due_say x [])"
proof -
  obtain a b c d e f g h where day: "strftime_day x = iso_date a b c d e f g h"
    and dg: "is_digit a" "is_digit b" "is_digit c" "is_digit d" "is_digit e" "is_digit f" "is_digit g" "is_digit h"
    and u: "undec [a, b, c, d] = tm_year x" "undec [e, f] = tm_mon x" "undec [g, h] = tm_mday x"
    using assms(1) by (rule strftime_day_chars)
  obtain i j where hr: "dec2 (tm_hour x) = [i, j]" "is_digit i" "is_digit j" "undec [i, j] = tm_hour x"
    using assms(1) by (auto simp: tm_ok_def intro: dec2_chars [of "tm_hour x"])
  obtain k l where mi: "dec2 (tm_min x) = [k, l]" "is_digit k" "is_digit l" "undec [k, l] = tm_min x"
    using assms(1) by (auto simp: tm_ok_def intro: dec2_chars [of "tm_min x"])
  define s where "s = iso_date a b c d e f g h @ [CHR '' '', i, j, CHR '':'', k, l]"
  have "strip s = s" using dg hr mi by (intro strip_ends_id) (simp_all add: s_def iso_date_def digit_char)
  moreover have "lower s = s"
    using dg hr mi by (simp add: s_def iso_date_def lower_def digit_char)
      (simp add: lower_char_def is_upper_def code_def)
  ultimately have t: "lower (strip s) = s" by simp
  obtain qs where qs: "search_path ISO [([], s)] = Some qs"
    and ps: "pieces qs = [[], [], [a, b, c, d], ''-'', [e, f], ''-'', [g, h], [CHR '' '', i, j, CHR '':'', k, l]]"
    using search_iso(1) [OF dg hr(2,3) mi(2,3)] by (auto simp: s_def)
  have "undec (takeWhile is_digit [i, j, CHR '':'', k, l]) = tm_hour x"
    "undec (drop 1 (dropWhile is_digit [i, j, CHR '':'', k, l])) = tm_min x"
    using hr mi not_digits by simp_all
  then have "parse_iso s qs = Inr (strftime x, due_say x [])"
    using u assms by (simp add: parse_iso_def ps date_of_tm_ok set_time_back answer_def bind_due_def
        eval_nat_numeral del: takeWhile.simps dropWhile.simps)
  moreover have "s \<noteq> []" by (simp add: s_def)
  ultimately have "parse_due s now = Inr (strftime x, due_say x [])" by (simp add: parse_due_iso [OF t _ qs])
  then show ?thesis by (simp add: s_def day hr mi)
qed

theorem date_and_time_kept_witness:
  "parse_due ''2026-07-17 09:30'' 0 = Inr (''2026-07-17T09:30:00Z'', ''Friday 17 Jul at 09:30'')"
proof -
  let ?x = "\<lparr>tm_year = 2026, tm_mon = 7, tm_mday = 17, tm_hour = 9, tm_min = 30, tm_sec = 0\<rparr>"
  have "tm_ok ?x" "strftime_day ?x @ '' '' @ dec2 (tm_hour ?x) @ '':'' @ dec2 (tm_min ?x) = ''2026-07-17 09:30''"
    "strftime ?x = ''2026-07-17T09:30:00Z''" "due_say ?x [] = ''Friday 17 Jul at 09:30''" by code_simp+
  with date_and_time_kept [of ?x 0] show ?thesis by simp
qed

text \<open>The pattern of a time of day finds the minutes of a stamp, not its hour.\<close>

lemma clock_of_stamp:
  assumes "is_digit i" "is_digit j" "is_digit k" "is_digit l" "is_digit m" "is_digit n"
  shows "parts_of CLOCK [CHR ''t'', i, j, CHR '':'', k, l, CHR '':'', m, n, CHR ''z'']
    = Some [[], [], [k, l], [], [], [], []]"
proof -
  have w: "is_wordc CHR ''t''" "is_wordc CHR ''z''" "\<not> is_wordc CHR '':''" "\<not> is_space CHR '':''"
    "\<not> is_space CHR ''z''"
    by (simp_all add: is_wordc_def is_alnum_def is_lower_def is_digit_def is_upper_def is_space_def code_def)
  have d: "i \<noteq> CHR '':''" "j \<noteq> CHR '':''" "k \<noteq> CHR '':''" "l \<noteq> CHR '':''" "k \<noteq> CHR ''a''" "k \<noteq> CHR ''p''"
    "m \<noteq> CHR '':''" "k \<noteq> CHR ''a''"
    using assms by (auto simp: is_digit_def code_def)
  show ?thesis
    using assms w d not_digits
    by (simp add: parts_of_def CLOCK_def run_rx at_bound_def words_def between_def)
qed

text \<open>
  The stamp format of the stores is not read: a stamp said as a due time keeps its date, but the
  hour of the answer comes from the minutes of the stamp and its own hour is lost.
\<close>

theorem stamp_misread:
  assumes "tm_ok x"
  defines "h \<equiv> clock_hour (tm_min x) []"
  shows "parse_due (strftime x) now
    = answer [] (set_time (x\<lparr>tm_hour := 0, tm_min := 0, tm_sec := 0\<rparr>) (if h \<le> 23 then h else 9) 0)"
proof -
  obtain a b c d e f g h where day: "strftime_day x = iso_date a b c d e f g h"
    and dg: "is_digit a" "is_digit b" "is_digit c" "is_digit d" "is_digit e" "is_digit f" "is_digit g" "is_digit h"
    and u: "undec [a, b, c, d] = tm_year x" "undec [e, f] = tm_mon x" "undec [g, h] = tm_mday x"
    using assms(1) by (rule strftime_day_chars)
  obtain i j where hr: "dec2 (tm_hour x) = [i, j]" "is_digit i" "is_digit j" "undec [i, j] = tm_hour x"
    using assms(1) by (auto simp: tm_ok_def intro: dec2_chars [of "tm_hour x"])
  obtain k l where mi: "dec2 (tm_min x) = [k, l]" "is_digit k" "is_digit l" "undec [k, l] = tm_min x"
    using assms(1) by (auto simp: tm_ok_def intro: dec2_chars [of "tm_min x"])
  obtain m n where se: "dec2 (tm_sec x) = [m, n]" "is_digit m" "is_digit n"
    using assms(1) by (auto simp: tm_ok_def intro: dec2_chars [of "tm_sec x"])
  define r where "r = [i, j, CHR '':'', k, l, CHR '':'', m, n, CHR ''z'']"
  define s where "s = iso_date a b c d e f g h @ CHR ''t'' # r"
  have x: "strftime x = iso_date a b c d e f g h @ [CHR ''T'', i, j, CHR '':'', k, l, CHR '':'', m, n, CHR ''Z'']"
    by (simp add: strftime_def day hr mi se)
  have z: "\<not> is_space CHR ''Z''" by (simp add: is_space_def code_def)
  have "strip (strftime x) = strftime x"
    using dg z by (intro strip_ends_id) (simp_all add: x iso_date_def digit_char)
  moreover have low: "lower_char CHR ''T'' = CHR ''t''" "lower_char CHR ''Z'' = CHR ''z''"
    "lower_char CHR '':'' = CHR '':''" "lower_char CHR ''-'' = CHR ''-''" by code_simp+
  then have "lower (strftime x) = s"
    using dg hr mi se by (simp add: x s_def r_def iso_date_def lower_def digit_char)
  ultimately have t: "lower (strip (strftime x)) = s" by simp
  obtain qs where qs: "search_path ISO [([], s)] = Some qs" "snd (last qs) = CHR ''t'' # r"
    and ps: "pieces qs = [[], [], [a, b, c, d], ''-'', [e, f], ''-'', [g, h], []]"
    using search_iso(2) [OF dg, of r] by (auto simp: s_def)
  have "parse_iso s qs = answer [] (clock_on (x\<lparr>tm_hour := 0, tm_min := 0, tm_sec := 0\<rparr>) (CHR ''t'' # r) 9)"
    using u assms(1) by (simp add: parse_iso_def ps qs(2) date_of_tm_ok eval_nat_numeral)
  moreover have "clock_on (x\<lparr>tm_hour := 0, tm_min := 0, tm_sec := 0\<rparr>) (CHR ''t'' # r) 9
      = set_time (x\<lparr>tm_hour := 0, tm_min := 0, tm_sec := 0\<rparr>)
          (if 0 \<le> clock_hour (tm_min x) [] \<and> clock_hour (tm_min x) [] \<le> 23 then clock_hour (tm_min x) [] else 9) 0"
    using clock_of_stamp [OF hr(2,3) mi(2,3) se(2,3)] mi(4)
    by (simp add: clock_on_def r_def Let_def undec_def eval_nat_numeral)
  moreover have "0 \<le> clock_hour (tm_min x) []" using assms(1) by (simp add: clock_hour_def tm_ok_def)
  moreover have "s \<noteq> []" by (simp add: s_def)
  ultimately show ?thesis by (simp add: parse_due_iso [OF t _ qs(1)] assms(2))
qed

theorem stamp_misread_witness:
  "parse_due ''2026-07-17T14:05:00Z'' 0 = Inr (''2026-07-17T17:00:00Z'', ''Friday 17 Jul at 17:00'')"
proof -
  let ?x = "\<lparr>tm_year = 2026, tm_mon = 7, tm_mday = 17, tm_hour = 14, tm_min = 5, tm_sec = 0\<rparr>"
  have "tm_ok ?x" "strftime ?x = ''2026-07-17T14:05:00Z''"
    "answer [] (set_time (?x\<lparr>tm_hour := 0, tm_min := 0, tm_sec := 0\<rparr>) 17 0)
       = Inr (''2026-07-17T17:00:00Z'', ''Friday 17 Jul at 17:00'')" "clock_hour (tm_min ?x) [] = 17" by code_simp+
  with stamp_misread [of ?x 0] show ?thesis by simp
qed

end
