(* ===== verification/StampOrder.thy ===== *)
theory StampOrder imports Clock begin

text \<open>
  The stores compare stamps as texts (\<open>due <= now\<close> in \<open>harness/skills/notes.py\<close>, the ordering of the
  board). This theory shows that the order of the texts is the order of time: fields of fixed width
  in falling significance, and a calendar in which a later tuple is a later second.
\<close>

section \<open>Fixed width numbers\<close>

lemma code_le: "a \<le> b \<longleftrightarrow> code a \<le> code b" for a b :: char
proof -
  have "(of_char c :: int) = int (of_char c)" for c :: char by (cases c) simp
  then have "(of_char a :: int) \<le> of_char b \<longleftrightarrow> (of_char a :: nat) \<le> of_char b"
    by (simp only: of_nat_le_iff)
  then show ?thesis by (simp add: code_def less_eq_char_def)
qed

lemma digit_le: "0 \<le> a \<Longrightarrow> a \<le> 9 \<Longrightarrow> 0 \<le> b \<Longrightarrow> b \<le> 9 \<Longrightarrow> digit a \<le> digit b \<longleftrightarrow> a \<le> b"
  by (simp add: code_le code_digit)

lemma append_less: "length a = length b \<Longrightarrow> a < b \<Longrightarrow> a @ s < b @ (t :: string)"
proof (induction a b rule: list_induct2)
  case (Cons x xs y ys)
  then show ?case by (auto simp: Cons_less_Cons)
qed simp

lemma append_less_same [simp]: "p @ s < p @ t \<longleftrightarrow> s < (t :: string)"
  by (induction p) (auto simp: Cons_less_Cons)

lemma dec2_less: "0 \<le> a \<Longrightarrow> a < b \<Longrightarrow> b < 100 \<Longrightarrow> dec2 a < dec2 b"
proof -
  assume r: "0 \<le> a" "a < b" "b < 100"
  have d: "0 \<le> a div 10" "b div 10 < 10" "a div 10 \<le> b div 10"
    using r div_lt [of 10 b 10] by (simp_all add: pos_imp_zdiv_nonneg_iff zdiv_mono1)
  have lt: "digit m < digit n" if "0 \<le> m" "m < n" "n \<le> 9" for m n
    using digit_le [of m n] digit_le [of n m] that by (simp add: less_le_not_le)
  show ?thesis
  proof (cases "a div 10 = b div 10")
    case True
    then have "a mod 10 < b mod 10" using r(2) mult_div_mod_eq [of 10 a] mult_div_mod_eq [of 10 b] by linarith
    with True lt [of "a mod 10" "b mod 10"] show ?thesis by (simp add: dec2_def Cons_less_Cons mod10_le)
  next
    case False
    with d lt [of "a div 10" "b div 10"] show ?thesis by (simp add: dec2_def Cons_less_Cons)
  qed
qed

lemma dec4_less: "0 \<le> a \<Longrightarrow> a < b \<Longrightarrow> b < 10000 \<Longrightarrow> dec4 a < dec4 b"
proof -
  assume r: "0 \<le> a" "a < b" "b < 10000"
  have d: "0 \<le> a div 100" "b div 100 < 100" "a div 100 \<le> b div 100"
    using r div_lt [of 100 b 100] by (simp_all add: pos_imp_zdiv_nonneg_iff zdiv_mono1)
  show ?thesis
  proof (cases "a div 100 = b div 100")
    case True
    then have "a mod 100 < b mod 100"
      using r(2) mult_div_mod_eq [of 100 a] mult_div_mod_eq [of 100 b] by linarith
    with True dec2_less [of "a mod 100" "b mod 100"] show ?thesis by (simp add: dec4_def)
  next
    case False
    with d dec2_less [of "a div 100" "b div 100"] show ?thesis
      by (simp add: dec4_def append_less)
  qed
qed

section \<open>The calendar is monotone\<close>

lemma days_before_year_mono: "a \<le> b \<Longrightarrow> days_before_year a \<le> days_before_year b"
proof (induction b rule: int_ge_induct)
  case (step i)
  then show ?case by (simp add: days_before_year_Suc year_len_def split: if_splits)
qed simp

definition year_day :: "tm \<Rightarrow> int" where
  "year_day x = days_before_month (tm_year x) (tm_mon x) + tm_mday x - 1"

lemma months_nonneg: "l \<in> set (months y) \<Longrightarrow> 0 < l"
  by (auto simp: months_def split: if_splits)

lemma days_before_month_step:
  assumes "1 \<le> m" "m < n" "n \<le> 12"
  shows "days_before_month y m + months y ! nat (m - 1) \<le> days_before_month y n"
proof -
  have l: "nat (m - 1) < length (months y)" using assms by (simp add: months_def)
  have "days_before_month y m + months y ! nat (m - 1) = sum_list (take (Suc (nat (m - 1))) (months y))"
    using l by (simp add: days_before_month_def take_Suc_conv_app_nth)
  also have "\<dots> \<le> sum_list (take (nat (n - 1)) (months y))"
  proof -
    obtain k where k: "nat (n - 1) = Suc (nat (m - 1)) + k" using assms by (metis Suc_leI le_iff_add nat_less_eq_zless diff_strict_right_mono diff_ge_0_iff_ge)
    have "0 \<le> sum_list (take k (drop (Suc (nat (m - 1))) (months y)))"
      by (rule sum_list_nonneg) (metis in_set_dropD in_set_takeD less_imp_le months_nonneg)
    then show ?thesis unfolding k take_add sum_list_append by simp
  qed
  finally show ?thesis by (simp add: days_before_month_def)
qed

lemma year_day_range:
  assumes "tm_ok x" shows "0 \<le> year_day x" "year_day x < year_len (tm_year x)"
proof -
  have m: "1 \<le> tm_mon x" "tm_mon x \<le> 12" "1 \<le> tm_mday x" "tm_mday x \<le> months (tm_year x) ! nat (tm_mon x - 1)"
    using assms by (simp_all add: tm_ok_def)
  have "0 \<le> days_before_month (tm_year x) (tm_mon x)"
    unfolding days_before_month_def
    by (rule sum_list_nonneg) (metis in_set_takeD less_imp_le months_nonneg)
  with m(3) show "0 \<le> year_day x" by (simp add: year_day_def)
  have "days_before_month (tm_year x) (tm_mon x) + months (tm_year x) ! nat (tm_mon x - 1) \<le> year_len (tm_year x)"
  proof (cases "tm_mon x = 12")
    case True
    then show ?thesis by (simp add: days_before_month_def months_def year_len_def eval_nat_numeral)
  next
    case False
    with m have "days_before_month (tm_year x) (tm_mon x) + months (tm_year x) ! nat (tm_mon x - 1)
        \<le> days_before_month (tm_year x) 12" by (intro days_before_month_step) auto
    also have "\<dots> \<le> year_len (tm_year x)"
      by (simp add: days_before_month_def months_def year_len_def eval_nat_numeral)
    finally show ?thesis .
  qed
  with m(4) show "year_day x < year_len (tm_year x)" by (simp add: year_day_def)
qed

definition day_secs :: "tm \<Rightarrow> int" where
  "day_secs x = (tm_hour x * 60 + tm_min x) * 60 + tm_sec x"

lemma timegm_split: "timegm x = (days_before_year (tm_year x) + year_day x) * 86400 + day_secs x"
  by (simp add: timegm_def year_day_def day_secs_def algebra_simps)

lemma day_secs_range: "tm_ok x \<Longrightarrow> 0 \<le> day_secs x \<and> day_secs x < 86400"
  by (simp add: tm_ok_def day_secs_def)

lemma day_secs_less:
  assumes "tm_ok x" "tm_ok y"
  shows "tm_hour x < tm_hour y \<Longrightarrow> day_secs x < day_secs y"
    "tm_hour x = tm_hour y \<Longrightarrow> tm_min x < tm_min y \<Longrightarrow> day_secs x < day_secs y"
    "tm_hour x = tm_hour y \<Longrightarrow> tm_min x = tm_min y \<Longrightarrow> tm_sec x < tm_sec y \<Longrightarrow> day_secs x < day_secs y"
  using assms by (auto simp: day_secs_def tm_ok_def)

text \<open>A tuple that is later in the order of its fields is a later second.\<close>

lemma timegm_less:
  assumes "tm_ok x" "tm_ok y"
    and "days_before_year (tm_year x) + year_day x < days_before_year (tm_year y) + year_day y"
  shows "timegm x < timegm y"
proof -
  have "timegm x < (days_before_year (tm_year x) + year_day x + 1) * 86400"
    using day_secs_range [OF assms(1)] by (simp add: timegm_split algebra_simps)
  also have "\<dots> \<le> (days_before_year (tm_year y) + year_day y) * 86400"
    using assms(3) by (intro mult_right_mono) auto
  also have "\<dots> \<le> timegm y" using day_secs_range [OF assms(2)] by (simp add: timegm_split)
  finally show ?thesis .
qed

lemma timegm_less_year:
  assumes "tm_ok x" "tm_ok y" "tm_year x < tm_year y" shows "timegm x < timegm y"
proof (rule timegm_less [OF assms(1,2)])
  have "days_before_year (tm_year x) + year_day x < days_before_year (tm_year x + 1)"
    using year_day_range [OF assms(1)] by (simp add: days_before_year_Suc)
  also have "\<dots> \<le> days_before_year (tm_year y)" using assms(3) by (intro days_before_year_mono) simp
  also have "\<dots> \<le> days_before_year (tm_year y) + year_day y" using year_day_range [OF assms(2)] by simp
  finally show "days_before_year (tm_year x) + year_day x < days_before_year (tm_year y) + year_day y" .
qed

lemma timegm_less_month:
  assumes "tm_ok x" "tm_ok y" "tm_year x = tm_year y" "tm_mon x < tm_mon y" shows "timegm x < timegm y"
proof (rule timegm_less [OF assms(1,2)])
  show "days_before_year (tm_year x) + year_day x < days_before_year (tm_year y) + year_day y"
    using days_before_month_step [of "tm_mon x" "tm_mon y" "tm_year x"] assms
    by (simp add: year_day_def tm_ok_def)
qed

lemma timegm_less_day:
  "tm_ok x \<Longrightarrow> tm_ok y \<Longrightarrow> tm_year x = tm_year y \<Longrightarrow> tm_mon x = tm_mon y \<Longrightarrow> tm_mday x < tm_mday y \<Longrightarrow>
     timegm x < timegm y"
  by (rule timegm_less) (simp_all add: year_day_def)

lemma timegm_less_secs:
  "tm_year x = tm_year y \<Longrightarrow> tm_mon x = tm_mon y \<Longrightarrow> tm_mday x = tm_mday y \<Longrightarrow> day_secs x < day_secs y \<Longrightarrow>
     timegm x < timegm y"
  by (simp add: timegm_split year_day_def)

section \<open>The order of the texts\<close>

lemma strftime_less:
  assumes "tm_ok x" "tm_ok y" "\<not> timegm y \<le> timegm x"
  shows "strftime x < strftime y"
proof -
  have lt: "timegm x < timegm y" using assms(3) by simp
  have r: "0 \<le> tm_year z" "tm_year z < 10000" "0 \<le> tm_mon z" "tm_mon z < 100" "0 \<le> tm_mday z" "tm_mday z < 100"
    "0 \<le> tm_hour z" "tm_hour z < 60" "0 \<le> tm_min z" "tm_min z < 60" "0 \<le> tm_sec z" "tm_sec z < 60"
    if "tm_ok z" for z
    using that months_le [of "tm_mon z - 1" "tm_year z"] by (simp_all add: tm_ok_def)
  note rx = r [OF assms(1)] and ry = r [OF assms(2)]
  have no: "\<not> timegm y < timegm x" using lt by simp
  consider (year) "tm_year x < tm_year y" | (mon) "tm_year x = tm_year y" "tm_mon x < tm_mon y"
    | (day) "tm_year x = tm_year y" "tm_mon x = tm_mon y" "tm_mday x < tm_mday y"
    | (secs) "tm_year x = tm_year y" "tm_mon x = tm_mon y" "tm_mday x = tm_mday y"
    using no timegm_less_year [OF assms(2,1)] timegm_less_month [OF assms(2,1)] timegm_less_day [OF assms(2,1)]
    by (metis linorder_neqE_linordered_idom)
  then show ?thesis
  proof cases
    case year
    then have "dec4 (tm_year x) < dec4 (tm_year y)" using rx ry by (intro dec4_less)
    then show ?thesis by (simp add: strftime_def strftime_day_def append_less)
  next
    case mon
    then have "dec2 (tm_mon x) < dec2 (tm_mon y)" using rx ry by (intro dec2_less)
    with mon show ?thesis by (simp add: strftime_def strftime_day_def append_less Cons_less_Cons)
  next
    case day
    then have "dec2 (tm_mday x) < dec2 (tm_mday y)" using rx ry by (intro dec2_less)
    with day show ?thesis by (simp add: strftime_def strftime_day_def append_less Cons_less_Cons)
  next
    case secs
    have ls: "day_secs x < day_secs y" using lt secs by (simp add: timegm_split year_day_def)
    consider (h) "tm_hour x < tm_hour y" | (m) "tm_hour x = tm_hour y" "tm_min x < tm_min y"
      | (s) "tm_hour x = tm_hour y" "tm_min x = tm_min y" "tm_sec x < tm_sec y"
    proof -
      have "\<not> (tm_hour x = tm_hour y \<and> tm_min x = tm_min y \<and> tm_sec x = tm_sec y)"
        using ls by (auto simp: day_secs_def)
      with ls day_secs_less [OF assms(2,1)] that show thesis
        by (metis linorder_neqE_linordered_idom order_less_asym)
    qed
    then show ?thesis
    proof cases
      case h
      then have "dec2 (tm_hour x) < dec2 (tm_hour y)" using rx ry by (intro dec2_less) auto
      with secs show ?thesis by (simp add: strftime_def strftime_day_def append_less Cons_less_Cons)
    next
      case m
      then have "dec2 (tm_min x) < dec2 (tm_min y)" using rx ry by (intro dec2_less) auto
      with secs m show ?thesis by (simp add: strftime_def strftime_day_def append_less Cons_less_Cons)
    next
      case s
      then have "dec2 (tm_sec x) < dec2 (tm_sec y)" using rx ry by (intro dec2_less) auto
      with secs s show ?thesis by (simp add: strftime_def strftime_day_def append_less Cons_less_Cons)
    qed
  qed
qed

text \<open>Comparing stamps is comparing seconds.\<close>

lemma strftime_le_iff:
  assumes "tm_ok x" "tm_ok y"
  shows "strftime x \<le> strftime y \<longleftrightarrow> timegm x \<le> timegm y"
proof
  show "strftime x \<le> strftime y \<Longrightarrow> timegm x \<le> timegm y"
    using strftime_less [OF assms(2,1)] by (meson leD)
next
  assume le: "timegm x \<le> timegm y"
  show "strftime x \<le> strftime y"
  proof (cases "timegm x = timegm y")
    case True
    then have no: "\<not> timegm x < timegm y" "\<not> timegm y < timegm x" by simp_all
    have f: "tm_year x = tm_year y" "tm_mon x = tm_mon y" "tm_mday x = tm_mday y"
      using no timegm_less_year [OF assms] timegm_less_year [OF assms(2,1)] timegm_less_month [OF assms]
        timegm_less_month [OF assms(2,1)] timegm_less_day [OF assms] timegm_less_day [OF assms(2,1)]
      by (metis linorder_neqE_linordered_idom)+
    then have "day_secs x = day_secs y" using True by (simp add: timegm_split year_day_def)
    then have "tm_hour x = tm_hour y \<and> tm_min x = tm_min y \<and> tm_sec x = tm_sec y"
      using day_secs_less [OF assms] day_secs_less [OF assms(2,1)]
      by (metis linorder_neqE_linordered_idom order_less_irrefl)
    with f show ?thesis by (simp add: strftime_def strftime_day_def)
  next
    case False
    with le strftime_less [OF assms] show ?thesis by simp
  qed
qed

end
