(* ===== verification/NoteTools.thy ===== *)
theory NoteTools imports Watch DuetimeLaws StampOrder begin

text \<open>
  The board in her hands (\<open>harness/skills/note_tools.py\<close>): the six verbs the model may call, over the
  board of the theory Notes and the due times of the theory Duetime. Every verb that writes comes
  through her door, so it sets the author to \<open>self\<close> first. A reply is a value of \<open>note_reply\<close>, one
  constructor for each message; \<open>Raised\<close> is an exception that leaves the tool (the caller of a tool
  turns it into the text of an error). \<open>now\<close> is the clock of the call, \<open>uuid\<close> the fresh identifier.
\<close>

datatype note_reply =
    Noted memo string
  | Unreadable string
  | Watching memo string
  | NothingToLookFor
  | NoNote string
  | NothingToChange
  | Updated memo
  | Removed string
  | BoardEmpty
  | NothingAbout string
  | Listed "memo list"
  | NothingDue
  | Raised

definition blank_args :: note_args where
  "blank_args = \<lparr>a_title = [], a_body = [], a_category = ''note'', a_due = [], a_colour = [],
     a_speaker = [], a_watch = []\<rparr>"

definition mine :: "board \<Rightarrow> board" where
  "mine b = note_author ''self'' b"

definition tool_add_note ::
  "string \<Rightarrow> real \<Rightarrow> string \<Rightarrow> string \<Rightarrow> string \<Rightarrow> string \<Rightarrow> board \<Rightarrow> note_reply \<times> board" where
  "tool_add_note uuid now title body category due b =
     (let b1 = mine b in
      case parse_due due \<lfloor>now\<rfloor> of
        Inl e \<Rightarrow> (Raised, b1)
      | Inr (stamp_at, human) \<Rightarrow>
          if due \<noteq> [] \<and> stamp_at = [] then (Unreadable due, b1)
          else (case add_note uuid (stamp_of now)
                       (blank_args\<lparr>a_title := title, a_body := body, a_category := category, a_due := stamp_at\<rparr>) b1 of
                  None \<Rightarrow> (Raised, b1)
                | Some (n, b2) \<Rightarrow> (Noted n (if stamp_at \<noteq> [] then human else []), b2)))"

definition tool_watch_for :: "string \<Rightarrow> real \<Rightarrow> string \<Rightarrow> string \<Rightarrow> board \<Rightarrow> note_reply \<times> board" where
  "tool_watch_for uuid now title look_for b =
     (let b1 = mine b; q = strip (if look_for \<noteq> [] then look_for else title) in
      if q = [] then (NothingToLookFor, b1)
      else (case add_note uuid (stamp_of now)
                   (blank_args\<lparr>a_title := title, a_category := ''watch'', a_watch := q\<rparr>) b1 of
              None \<Rightarrow> (Raised, b1)
            | Some (n, b2) \<Rightarrow> (Watching n q, b2)))"

definition tool_find_notes :: "string \<Rightarrow> board \<Rightarrow> note_reply" where
  "tool_find_notes query b =
     (let rows = (if query \<noteq> [] then search_notes query 6 b else live_notes b) in
      if rows = [] then (if query \<noteq> [] then NothingAbout query else BoardEmpty) else Listed rows)"

definition tool_due_reminders :: "real \<Rightarrow> board \<Rightarrow> note_reply" where
  "tool_due_reminders now b =
     (let rows = due_notes (stamp_of now) True b in if rows = [] then NothingDue else Listed rows)"

definition YES :: "string list" where
  "YES = [''1'', ''true'', ''yes'', ''y'', ''done'']"

definition edit_fields :: "string \<Rightarrow> string \<Rightarrow> string \<Rightarrow> string \<Rightarrow> string \<Rightarrow> string \<Rightarrow> nfield list" where
  "edit_fields title body category due stamp_at done_text =
     (if title \<noteq> [] then [UTitle title] else []) @ (if body \<noteq> [] then [UBody body] else [])
     @ (if category \<noteq> [] then [UCategory category] else [])
     @ (if due \<noteq> [] then [UDue stamp_at, URaised False] else [])
     @ (if done_text \<noteq> [] then [UDone (lower (strip done_text) \<in> set YES)] else [])"

definition tool_edit_note ::
  "real \<Rightarrow> string \<Rightarrow> string \<Rightarrow> string \<Rightarrow> string \<Rightarrow> string \<Rightarrow> string \<Rightarrow> board \<Rightarrow> note_reply \<times> board" where
  "tool_edit_note now i title body category due done_text b =
     (let b1 = mine b in
      case (if due = [] then Inr ([], []) else parse_due due \<lfloor>now\<rfloor>) of
        Inl e \<Rightarrow> (Raised, b1)
      | Inr (stamp_at, human) \<Rightarrow>
          if due \<noteq> [] \<and> stamp_at = [] then (Unreadable due, b1)
          else let fs = edit_fields title body category due stamp_at done_text in
            if fs = [] then (NothingToChange, b1)
            else let b2 = update_note (stamp_of now) i fs b1 in
              (case get_note i b2 of None \<Rightarrow> (NoNote i, b2) | Some n \<Rightarrow> (Updated n, b2)))"

definition tool_remove_note :: "real \<Rightarrow> string \<Rightarrow> board \<Rightarrow> note_reply \<times> board" where
  "tool_remove_note now i b =
     (let b1 = mine b; b2 = remove_note (stamp_of now) i b1 in
      case get_note i b2 of None \<Rightarrow> (NoNote i, b2) | Some n \<Rightarrow> (Removed (n_title n), b2))"

section \<open>The line a note is shown as\<close>

text \<open>
  \<open>_fmt\<close> joins the non-empty parts with a blank; the marks outside ASCII are written as their ASCII
  names here, so only the presence and the order of the parts is modelled.
\<close>

definition note_line :: "memo \<Rightarrow> string list" where
  "note_line n =
     filter (\<lambda>s. s \<noteq> [])
       ([''['' @ n_id n @ '']'', ''('' @ n_category n @ '')'', n_title n]
        @ (if n_due n \<noteq> []
           then [''due '' @ map (\<lambda>c. if c = CHR ''T'' then CHR '' '' else c) (take 16 (n_due n))
                 @ (if n_done n then '' done'' else [])]
           else [])
        @ [''by '' @ (if n_speaker n = ''self'' then ''you'' else ''Knack'')])"

section \<open>A promised reminder comes due\<close>

lemma load_mine [simp]: "load_notes (mine b) = load_notes b" "b_author (mine b) = ''self''"
  by (simp_all add: mine_def load_author) (simp add: note_author_def)

lemma strip_strftime: "tm_ok x \<Longrightarrow> strip (strftime x) = strftime x"
proof -
  assume "tm_ok x"
  then obtain a b c d e f g h where day: "strftime_day x = iso_date a b c d e f g h" and a: "is_digit a"
    by (rule strftime_day_chars)
  have "\<not> is_space CHR ''Z''" by (simp add: is_space_def code_def)
  with a show ?thesis
    by (intro strip_ends_id) (simp_all add: strftime_def day iso_date_def digit_char)
qed

lemma strftime_neq_Nil [simp]: "strftime x \<noteq> []"
  by (simp add: strftime_def)

lemma tool_add_note_cases:
  assumes "tool_add_note uuid now title body category due b = (r, b')"
  obtains (refused) "b' = mine b" "r \<in> {Raised, Unreadable due}"
    | (noted) n stamp_at human where "parse_due due \<lfloor>now\<rfloor> = Inr (stamp_at, human)"
      "due \<noteq> [] \<Longrightarrow> stamp_at \<noteq> []" "r = Noted n (if stamp_at \<noteq> [] then human else [])"
      "n = make_note uuid (stamp_of now) ''self''
         (blank_args\<lparr>a_title := title, a_body := body, a_category := category, a_due := stamp_at\<rparr>)"
      "load_notes b' = load_notes b @ [n]" "strip title \<noteq> []"
  using assms
  by (auto simp: tool_add_note_def add_note_def Let_def split: sum.splits prod.splits if_splits)

text \<open>Every verb is a run of the board's own operations, so what a run keeps her verbs keep.\<close>

datatype note_cmd =
    CallAdd string real string string string string
  | CallWatch string real string string
  | CallEdit real string string string string string string
  | CallRemove real string

fun note_call :: "note_cmd \<Rightarrow> board \<Rightarrow> note_reply \<times> board" where
  "note_call (CallAdd u now t bd c d) b = tool_add_note u now t bd c d b"
| "note_call (CallWatch u now t q) b = tool_watch_for u now t q b"
| "note_call (CallEdit now i t bd c d dn) b = tool_edit_note now i t bd c d dn b"
| "note_call (CallRemove now i) b = tool_remove_note now i b"

lemma mine_step: "mine b = note_step (NoteAuthor ''self'') b"
  by (simp add: mine_def)

lemma add_step: "add_note u now a b = Some (n, b') \<Longrightarrow> b' = note_step (AddNote u now a) b"
  by simp

lemma note_call_run: "\<exists>ops. snd (note_call c b) = fold note_step ops b"
proof -
  have one: "\<exists>ops. mine b = fold note_step ops b"
    by (rule exI [of _ "[NoteAuthor ''self'']"]) (simp add: mine_step)
  have two: "\<exists>ops. note_step a (mine b) = fold note_step ops b" for a
    by (rule exI [of _ "[NoteAuthor ''self'', a]"]) (simp add: mine_step)
  show ?thesis
  proof (cases c)
    case (CallAdd u now t bd cat d)
    then show ?thesis using one two by (auto simp: tool_add_note_def Let_def dest!: add_step split: sum.splits prod.splits option.splits)
  next
    case (CallWatch u now t q)
    then show ?thesis using one two by (auto simp: tool_watch_for_def Let_def dest!: add_step split: prod.splits option.splits)
  next
    case (CallEdit now i t bd cat d dn)
    have "update_note (stamp_of now) i fs (mine b) = note_step (UpdateNote (stamp_of now) i fs) (mine b)" for fs
      by simp
    then show ?thesis using one two CallEdit
      by (auto simp: tool_edit_note_def Let_def simp del: note_step.simps split: sum.splits prod.splits option.splits if_splits)
  next
    case (CallRemove now i)
    have "remove_note (stamp_of now) i (mine b) = note_step (RemoveNote (stamp_of now) i) (mine b)" by simp
    then show ?thesis using two CallRemove
      by (auto simp: tool_remove_note_def Let_def simp del: note_step.simps split: option.splits)
  qed
qed

interpretation notecalls: tombstone_store "\<lambda>c b. snd (note_call c b)" load_notes note_ident "\<lambda>n. \<not> note_live n"
proof unfold_locales
  fix c b
  obtain ops where ops: "snd (note_call c b) = fold note_step ops b" using note_call_run by blast
  show "\<exists>extra. map note_ident (load_notes (snd (note_call c b))) = map note_ident (load_notes b) @ extra"
    unfolding ops by (rule noteboard.run_keeps)
  fix i
  show "i < length (load_notes b) \<Longrightarrow> \<not> note_live (load_notes b ! i) \<Longrightarrow>
      \<not> note_live (load_notes (snd (note_call c b)) ! i)"
    unfolding ops by (rule noteboard.run_dead)
qed

text \<open>
  C27. A reminder she is asked for is either refused, and the board keeps its rows, or it is on the
  board as her own note, and from the second of its date on, and not before, it is among what is due.
\<close>

theorem promised_reminder_comes_due:
  assumes "tool_add_note uuid now title body category due b = (r, b')" and "due \<noteq> []"
    and "0 \<le> \<lfloor>now\<rfloor>" and "\<lfloor>now\<rfloor> \<le> LAST_SECOND" and "0 \<le> \<lfloor>later\<rfloor>" and "\<lfloor>later\<rfloor> \<le> LAST_SECOND"
  shows "(r \<in> {Raised, Unreadable due} \<and> load_notes b' = load_notes b) \<or>
    (\<exists>n human x. r = Noted n human \<and> load_notes b' = load_notes b @ [n] \<and> n_speaker n = ''self''
       \<and> tm_ok x \<and> n_due n = strftime x \<and> (said_date due \<or> said_today due \<or> \<lfloor>now\<rfloor> \<le> timegm x)
       \<and> (n \<in> set (due_notes (stamp_of later) False b') \<longleftrightarrow> timegm x \<le> \<lfloor>later\<rfloor>))"
  using assms(1)
proof (cases rule: tool_add_note_cases)
  case (noted m stamp_at said)
  have s: "stamp_at \<noteq> []" using noted(2) assms(2) by simp
  from due_stamp_kept [OF assms(3,4) noted(1) s] obtain x
    where x: "tm_ok x" "stamp_at = strftime x" "said_date due \<or> said_today due \<or> \<lfloor>now\<rfloor> \<le> timegm x" by blast
  have m: "n_due m = strftime x" "n_speaker m = ''self''" "note_live m" "\<not> n_done m" "\<not> n_raised m"
    unfolding noted(4)
    by (simp_all add: make_note_def Let_def blank_args_def x(1,2) strip_strftime note_live_def)
  have g: "tm_ok (gmtime \<lfloor>later\<rfloor>)" "timegm (gmtime \<lfloor>later\<rfloor>) = \<lfloor>later\<rfloor>"
    using year_mono gmtime_tm_ok gmtime_ok(1) assms(5,6) by blast+
  have "is_due (stamp_of later) False m \<longleftrightarrow> timegm x \<le> \<lfloor>later\<rfloor>"
    using strftime_le_iff [OF x(1) g(1)] g(2) x(1)
    by (simp add: is_due_def m stamp_of_def strip_strftime)
  then have "m \<in> set (due_notes (stamp_of later) False b') \<longleftrightarrow> timegm x \<le> \<lfloor>later\<rfloor>"
    using due_notes_exact [of "stamp_of later" False b'] noted(5) m(3) by auto
  with noted(3,5) m(1,2) x show ?thesis by (intro disjI2 exI [of _ m] exI [of _ said] exI [of _ x]) simp
qed simp

theorem promised_reminder_comes_due_witness:
  "let (r, b') = tool_add_note ''0123456789abcdef'' 1783947600 ''call'' [] ''note'' ''at 6pm'' demo_board
   in \<exists>n human x. r = Noted n human \<and> load_notes b' = load_notes demo_board @ [n]
        \<and> (n \<in> set (due_notes (stamp_of 1783965600) False b') \<longleftrightarrow> timegm x \<le> 1783965600)"
proof -
  obtain r b' where c: "tool_add_note ''0123456789abcdef'' 1783947600 ''call'' [] ''note'' ''at 6pm'' demo_board = (r, b')"
    by fastforce
  have "parse_due ''at 6pm'' 1783947600 = Inr (''2026-07-13T18:00:00Z'', ''today (Monday 13 Jul at 18:00)'')"
    by code_simp
  moreover have "strip ''call'' \<noteq> []" by code_simp
  ultimately have "r \<notin> {Raised, Unreadable ''at 6pm''}"
    using c by (auto simp: tool_add_note_def add_note_def blank_args_def Let_def)
  then show ?thesis
    using promised_reminder_comes_due [OF c, of 1783965600] by (auto simp: c LAST_SECOND_def)
qed

end
