(* ===== verification/Grammar.thy ===== *)
theory Grammar imports PyRegex begin

text \<open>
  The grammar of a tool call (\<open>harness/mcp/grammar.py\<close>): the fences, the typed call, the refusals,
  and the continuations the mask allows. \<open>ast.parse\<close> with \<open>ast.walk\<close> and \<open>ast.literal_eval\<close> is a
  parameter \<open>py\<close>: it gives the calls of a block in walk order, or \<open>None\<close> for a \<open>SyntaxError\<close>. The
  wording of a refusal and the spelling hint of \<open>difflib\<close> are not modelled: a refusal is a value
  that says which rule was broken.
\<close>

datatype pyval = VStr string | VNum string | VBool bool | VNone | VOther string

datatype callee = Plain string | Attribute string | Computed

text \<open>A value that is not a literal is \<open>None\<close>; a keyword without a name is \<open>**kwargs\<close>.\<close>

record call_node =
  c_fn :: callee
  c_args :: "pyval option list"
  c_kws :: "(string option \<times> pyval option) list"

type_synonym parser = "string \<Rightarrow> call_node list option"

datatype tolerance = FenceDrift | NameSplit

record tool_call =
  tc_name :: string
  tc_args :: "pyval list"
  tc_kwargs :: "(string \<times> pyval) list"
  tc_tolerated :: "tolerance list"

datatype parse_error =
    ManyBlocks
  | NotPython
  | NoCall
  | ManyCalls nat
  | NotPlainName
  | NoSuchTool string
  | ArgNotLiteral
  | StarKwargs string
  | NoSuchParam string string
  | ValueNotLiteral string
  | Missing string "string list"

record tool_sig =
  ts_params :: "string list"
  ts_required :: "string list"

type_synonym grammar = "(string \<times> tool_sig) list"

section \<open>The fences\<close>

definition FENCE_OPEN :: string where
  "FENCE_OPEN = replicate 3 (CHR 0x60) @ ''tool_code''"

definition FENCE_CLOSE :: string where
  "FENCE_CLOSE = replicate 3 (CHR 0x60)"

definition blanks :: rx where
  "blanks = St (Cls (\<lambda>c. c = CHR '' '' \<or> c = CHR 0x09))"

definition any :: rx where
  "any = Cls (\<lambda>_. True)"

definition newline :: rx where
  "newline = Sq (opt (chr (CHR 0x0D))) (chr (CHR 0x0A))"

definition FENCE_RE :: "rx list" where
  "FENCE_RE = [lit FENCE_CLOSE, blanks, seqs [lit ''tool'', opt (lit ''_''), lit ''code''], blanks, newline,
     Lz any, lit FENCE_CLOSE]"

definition DRIFT_RE :: "rx list" where
  "DRIFT_RE = [lit FENCE_CLOSE, blanks, words [''python'', ''py'', ''tool''], blanks, newline, Lz any,
     lit FENCE_CLOSE]"

definition NAME_SPLIT_RE :: "rx list" where
  "NAME_SPLIT_RE = [Bnd, plus1 (Cls is_wordc), seqs [sp1, lit ''_'', sp0], plus1 (Cls is_wordc),
     Sq sp0 (lit ''('')]"

definition blocks_of :: "rx list \<Rightarrow> string \<Rightarrow> string list" where
  "blocks_of rs t = map (\<lambda>qs. group_of t qs 5) (matches_of rs (lower t))"

text \<open>\<open>get _time()\<close> becomes \<open>get_time()\<close>, at every place.\<close>

fun heal_from :: "string \<Rightarrow> spot \<Rightarrow> spot list list \<Rightarrow> string" where
  "heal_from s p [] = drop (length (fst p)) s"
| "heal_from s p (qs # ms) =
     cut s p (qs ! 0) @ group_of s qs 1 @ ''_'' @ group_of s qs 3 @ ''('' @ heal_from s (last qs) ms"

definition heal :: "string \<Rightarrow> string" where
  "heal s = heal_from s ([], s) (matches_of NAME_SPLIT_RE s)"

definition names_call :: "string \<Rightarrow> string \<Rightarrow> bool" where
  "names_call n b \<longleftrightarrow> found (seqs [Bnd, lit n, sp0, lit ''('']) b"

section \<open>parse\<close>

fun all_literal :: "pyval option list \<Rightarrow> pyval list option" where
  "all_literal [] = Some []"
| "all_literal (None # vs) = None"
| "all_literal (Some v # vs) = map_option ((#) v) (all_literal vs)"

fun bind_keywords ::
  "string \<Rightarrow> string list \<Rightarrow> (string option \<times> pyval option) list \<Rightarrow> parse_error + (string \<times> pyval) list" where
  "bind_keywords nm ps [] = Inr []"
| "bind_keywords nm ps ((None, v) # ks) = Inl (StarKwargs nm)"
| "bind_keywords nm ps ((Some k, v) # ks) =
     (if ps \<noteq> [] \<and> k \<notin> set ps then Inl (NoSuchParam nm k)
      else case v of None \<Rightarrow> Inl (ValueNotLiteral k)
      | Some x \<Rightarrow> (case bind_keywords nm ps ks of Inl e \<Rightarrow> Inl e | Inr kw \<Rightarrow> Inr ((k, x) # kw)))"

definition check_call :: "grammar \<Rightarrow> tolerance list \<Rightarrow> call_node \<Rightarrow> parse_error + tool_call" where
  "check_call g tol c =
     (case c_fn c of
        Plain nm \<Rightarrow>
          (case map_of g nm of
             None \<Rightarrow> Inl (NoSuchTool nm)
           | Some sg \<Rightarrow>
               (case all_literal (c_args c) of
                  None \<Rightarrow> Inl ArgNotLiteral
                | Some vs \<Rightarrow>
                    (case bind_keywords nm (ts_params sg) (c_kws c) of
                       Inl e \<Rightarrow> Inl e
                     | Inr kw \<Rightarrow>
                         let missing = filter (\<lambda>r. r \<notin> fst ` set kw) (remdups (ts_required sg)) in
                         if missing \<noteq> [] \<and> length vs < length missing then Inl (Missing nm (sort missing))
                         else Inr \<lparr>tc_name = nm, tc_args = vs, tc_kwargs = kw, tc_tolerated = tol\<rparr>)))
      | _ \<Rightarrow> Inl NotPlainName)"

definition read_block :: "parser \<Rightarrow> bool \<Rightarrow> string \<Rightarrow> (call_node list \<times> tolerance list) option" where
  "read_block py tolerant src =
     (case py src of
        Some cs \<Rightarrow> Some (cs, [])
      | None \<Rightarrow> if tolerant then map_option (\<lambda>cs. (cs, [NameSplit])) (py (heal src)) else None)"

definition fenced :: "grammar \<Rightarrow> bool \<Rightarrow> string \<Rightarrow> string list \<times> tolerance list" where
  "fenced g tolerant t =
     (let bs = blocks_of FENCE_RE t in
      if bs = [] \<and> tolerant
      then (let ds = filter (\<lambda>b. \<exists>(n, sg) \<in> set g. names_call n b) (blocks_of DRIFT_RE t)
            in if ds \<noteq> [] then (take 1 ds, [FenceDrift]) else ([], []))
      else (bs, []))"

text \<open>\<open>None\<close>: no fence, she is talking.\<close>

definition grammar_parse :: "parser \<Rightarrow> grammar \<Rightarrow> bool \<Rightarrow> string \<Rightarrow> (parse_error + tool_call) option" where
  "grammar_parse py g tolerant t =
     (case fenced g tolerant t of
        ([], tol) \<Rightarrow> None
      | ([b], tol) \<Rightarrow>
          Some (case read_block py tolerant (strip b) of
                  None \<Rightarrow> Inl NotPython
                | Some (cs, tol2) \<Rightarrow>
                    (case cs of
                       [] \<Rightarrow> Inl NoCall
                     | [c] \<Rightarrow> check_call g (tol @ tol2) c
                     | _ \<Rightarrow> Inl (ManyCalls (length cs))))
      | (b # b2 # bs, tol) \<Rightarrow> Some (Inl ManyBlocks))"

section \<open>The mask\<close>

definition ident_start :: "char \<Rightarrow> bool" where
  "ident_start c \<longleftrightarrow> is_lower c \<or> is_upper c \<or> c = CHR ''_''"

definition NAME_RE :: "rx list" where
  "NAME_RE = [Bos, Sq (Cls ident_start) (St (Cls is_wordc)), Eos]"

definition OPENED_RE :: "rx list" where
  "OPENED_RE = [Bos, Sq (Cls ident_start) (St (Cls is_wordc)), lit ''('', Eos]"

definition group1_at_start :: "rx list \<Rightarrow> string \<Rightarrow> string option" where
  "group1_at_start rs s = map_option (\<lambda>qs. group_of s qs 1) (search_path rs [([], s)])"

definition allowed_next :: "grammar \<Rightarrow> string \<Rightarrow> string list" where
  "allowed_next g p =
     (if \<not> startswith p FENCE_OPEN then []
      else let body = dropWhile (\<lambda>c. c = CHR 0x0D \<or> c = CHR 0x0A) (drop (length FENCE_OPEN) p);
               m = group1_at_start NAME_RE body in
        if m \<noteq> None \<or> body = []
        then sort (filter (\<lambda>n. startswith n (case m of None \<Rightarrow> [] | Some st \<Rightarrow> st)) (map fst g))
        else case group1_at_start OPENED_RE body of
               None \<Rightarrow> []
             | Some nm \<Rightarrow> (case map_of g nm of
                             None \<Rightarrow> []
                           | Some sg \<Rightarrow> sort (map (\<lambda>k. k @ ''='') (ts_params sg))))"

definition forced :: "grammar \<Rightarrow> string \<Rightarrow> string option" where
  "forced g p = (case allowed_next g p of [x] \<Rightarrow> Some x | _ \<Rightarrow> None)"

section \<open>What an accepted call is\<close>

lemma bind_keywords_names:
  "bind_keywords nm ps ks = Inr kw \<Longrightarrow> map fst ks = map (\<lambda>p. Some (fst p)) kw
     \<and> (ps \<noteq> [] \<longrightarrow> fst ` set kw \<subseteq> set ps)"
  by (induction nm ps ks arbitrary: kw rule: bind_keywords.induct)
    (fastforce split: if_splits option.splits sum.splits)+

lemma all_literal_map: "all_literal vs = Some xs \<Longrightarrow> vs = map Some xs"
  by (induction vs arbitrary: xs rule: all_literal.induct) auto

lemma fenced_block: "fenced g tolerant t = (bs, tol) \<Longrightarrow> tol = [] \<and> bs = blocks_of FENCE_RE t \<or> tolerant"
  by (auto simp: fenced_def Let_def split: if_splits)

definition supplied :: "tool_sig \<Rightarrow> pyval list \<Rightarrow> (string \<times> pyval) list \<Rightarrow> bool" where
  "supplied sg vs kw \<longleftrightarrow>
     length (filter (\<lambda>r. r \<notin> fst ` set kw) (remdups (ts_required sg))) \<le> length vs"

text \<open>
  What the grammar lets through is one call of a tool that exists: a plain name of the table,
  literal arguments, keywords the tool declares (where it declares any), and as many positional
  values as required parameters are left. With no tolerance counted it is the only call of the only
  tool fence of the text; a text without a fence is no call and no error.
\<close>

theorem accepted_call_exists:
  assumes "grammar_parse py g tolerant t = Some (Inr c)"
  shows "\<exists>sg. map_of g (tc_name c) = Some sg
      \<and> (ts_params sg \<noteq> [] \<longrightarrow> fst ` set (tc_kwargs c) \<subseteq> set (ts_params sg))
      \<and> supplied sg (tc_args c) (tc_kwargs c)
      \<and> (tc_tolerated c = [] \<longrightarrow> (\<exists>b node. blocks_of FENCE_RE t = [b] \<and> py (strip b) = Some [node]
           \<and> c_fn node = Plain (tc_name c) \<and> c_args node = map Some (tc_args c)))"
proof -
  obtain b tol cs tol2 node where f: "fenced g tolerant t = ([b], tol)"
    and r: "read_block py tolerant (strip b) = Some (cs, tol2)" and cs: "cs = [node]"
    and c: "check_call g (tol @ tol2) node = Inr c"
    using assms by (auto simp: grammar_parse_def split: list.splits option.splits prod.splits)
  obtain nm sg vs kw where n: "c_fn node = Plain nm" "map_of g nm = Some sg" "all_literal (c_args node) = Some vs"
      "bind_keywords nm (ts_params sg) (c_kws node) = Inr kw" "supplied sg vs kw"
    and ce: "c = \<lparr>tc_name = nm, tc_args = vs, tc_kwargs = kw, tc_tolerated = tol @ tol2\<rparr>"
    using c by (auto simp: check_call_def supplied_def Let_def split: callee.splits option.splits sum.splits if_splits)
  have "tc_tolerated c = [] \<Longrightarrow> blocks_of FENCE_RE t = [b]"
    using f by (auto simp: ce fenced_def Let_def split: if_splits)
  moreover have "tc_tolerated c = [] \<Longrightarrow> py (strip b) = Some [node]"
    using r cs by (auto simp: ce read_block_def split: option.splits if_splits)
  ultimately show ?thesis
    using n bind_keywords_names [OF n(4)] all_literal_map [OF n(3)] by (auto simp: ce)
qed

definition demo_grammar :: grammar where
  "demo_grammar = [(''recall'', \<lparr>ts_params = [''query''], ts_required = [''query'']\<rparr>),
     (''get_time'', \<lparr>ts_params = [], ts_required = []\<rparr>)]"

definition demo_py :: parser where
  "demo_py src =
     (if src = ''recall(query=1)''
      then Some [\<lparr>c_fn = Plain ''recall'', c_args = [], c_kws = [(Some ''query'', Some (VNum ''1''))]\<rparr>]
      else if src = ''get_time()'' then Some [\<lparr>c_fn = Plain ''get_time'', c_args = [], c_kws = []\<rparr>]
      else None)"

definition demo_text :: string where
  "demo_text = ''ok '' @ FENCE_OPEN @ nl @ ''recall(query=1)'' @ nl @ FENCE_CLOSE"

theorem accepted_call_exists_witness:
  "\<exists>b node. blocks_of FENCE_RE demo_text = [b] \<and> demo_py (strip b) = Some [node] \<and> c_fn node = Plain ''recall''"
proof -
  have "grammar_parse demo_py demo_grammar True demo_text
      = Some (Inr \<lparr>tc_name = ''recall'', tc_args = [], tc_kwargs = [(''query'', VNum ''1'')], tc_tolerated = []\<rparr>)"
    by code_simp
  from accepted_call_exists [OF this] show ?thesis by auto
qed

text \<open>
  How Python binds a call: the positional values take the first parameters, a keyword must be one of
  the parameters left, and every required parameter is bound.
\<close>

definition binds :: "tool_sig \<Rightarrow> pyval list \<Rightarrow> (string \<times> pyval) list \<Rightarrow> bool" where
  "binds sg vs kw \<longleftrightarrow>
     length vs \<le> length (ts_params sg)
     \<and> fst ` set kw \<subseteq> set (drop (length vs) (ts_params sg))
     \<and> set (ts_required sg) \<subseteq> set (take (length vs) (ts_params sg)) \<union> fst ` set kw"

text \<open>
  An accepted call need not fit its signature: a positional value and a keyword for the same first
  parameter pass the count of what is missing, so do positional values for a tool without parameters,
  and neither call binds.
\<close>

theorem accepted_may_not_bind:
  assumes "a \<noteq> b"
  shows "check_call [(nm, \<lparr>ts_params = [a, b], ts_required = [a, b]\<rparr>)] []
        \<lparr>c_fn = Plain nm, c_args = [Some v], c_kws = [(Some a, Some w)]\<rparr>
      = Inr \<lparr>tc_name = nm, tc_args = [v], tc_kwargs = [(a, w)], tc_tolerated = []\<rparr>
    \<and> \<not> binds \<lparr>ts_params = [a, b], ts_required = [a, b]\<rparr> [v] [(a, w)]
    \<and> check_call [(nm, \<lparr>ts_params = [], ts_required = []\<rparr>)] []
        \<lparr>c_fn = Plain nm, c_args = [Some v], c_kws = []\<rparr>
      = Inr \<lparr>tc_name = nm, tc_args = [v], tc_kwargs = [], tc_tolerated = []\<rparr>
    \<and> \<not> binds \<lparr>ts_params = [], ts_required = []\<rparr> [v] []"
  using assms by (simp add: check_call_def binds_def Let_def)

theorem accepted_may_not_bind_witness:
  "\<not> binds \<lparr>ts_params = [''fact'', ''source''], ts_required = [''fact'', ''source'']\<rparr> [VNum ''1''] [(''fact'', VNum ''2'')]"
  using accepted_may_not_bind [of "''fact''" "''source''" "''remember''" "VNum ''1''" "VNum ''2''"] by simp

section \<open>What the mask allows\<close>

definition py_name :: "string \<Rightarrow> bool" where
  "py_name n \<longleftrightarrow> n \<noteq> [] \<and> ident_start (hd n) \<and> list_all is_wordc n"

lemma name_at_start:
  assumes "py_name n"
  shows "group1_at_start NAME_RE n = Some n"
proof -
  obtain c w where n: "n = c # w" "ident_start c" "list_all is_wordc w"
    using assms by (cases n) (auto simp: py_name_def)
  obtain others where "mt (St (Cls is_wordc)) ([c], w) = (rev w @ [c], []) # others"
    using star_greedy [of is_wordc w "[]" "[c]"] n(3) by auto
  then have "\<exists>more. paths NAME_RE ([], n) = [([], n), (rev w @ [c], []), (rev w @ [c], [])] # more"
    using n(2) by (simp add: NAME_RE_def n(1) at_end_def del: mt.simps(5) mt.simps(6))
  then show ?thesis by (auto simp: group1_at_start_def group_of_def cut_def n(1))
qed

lemma py_name_no_break: "py_name n \<Longrightarrow> dropWhile (\<lambda>c. c = CHR 0x0D \<or> c = CHR 0x0A) n = n"
proof -
  have "\<not> ident_start (CHR 0x0D)" "\<not> ident_start (CHR 0x0A)"
    by (simp_all add: ident_start_def is_lower_def is_upper_def code_def)
  then show "py_name n \<Longrightarrow> dropWhile (\<lambda>c. c = CHR 0x0D \<or> c = CHR 0x0A) n = n"
    by (cases n) (auto simp: py_name_def)
qed

lemma allowed_in_name:
  assumes "py_name n"
  shows "allowed_next g (FENCE_OPEN @ nl @ n) = sort (filter (\<lambda>m. startswith m n) (map fst g))"
  using name_at_start [OF assms] py_name_no_break [OF assms]
  by (simp add: allowed_next_def nl_def)

text \<open>
  At a complete tool name that no other name extends, the forced continuation is the name itself,
  whole: appending it, as the free-token path does, leaves the names of the table for good (nothing is
  allowed there unless a tool is called like the name doubled), and the parenthesis that would open
  the call is never offered.
\<close>

theorem forced_repeats_name:
  assumes "py_name n" and "filter (\<lambda>m. startswith m n) (map fst g) = [n]"
  shows "forced g (FENCE_OPEN @ nl @ n) = Some n
    \<and> ((\<forall>m \<in> set (map fst g). \<not> startswith m (n @ n)) \<longrightarrow> allowed_next g ((FENCE_OPEN @ nl @ n) @ n) = [])
    \<and> ''('' \<notin> set (allowed_next g (FENCE_OPEN @ nl @ n))"
proof -
  have nn: "py_name (n @ n)" using assms(1) by (auto simp: py_name_def)
  have "\<not> ident_start (CHR ''('')" by (simp add: ident_start_def is_lower_def is_upper_def code_def)
  then have "n \<noteq> ''(''" using assms(1) by (auto simp: py_name_def)
  with assms allowed_in_name [OF nn, of g] show ?thesis
    by (auto simp: forced_def allowed_in_name filter_empty_conv)
qed

theorem forced_repeats_name_witness:
  "forced demo_grammar (FENCE_OPEN @ nl @ ''recall'') = Some ''recall''
   \<and> allowed_next demo_grammar ((FENCE_OPEN @ nl @ ''recall'') @ ''recall'') = []"
proof -
  have "py_name ''recall''" "filter (\<lambda>m. startswith m ''recall'') (map fst demo_grammar) = [''recall'']"
    "\<forall>m \<in> set (map fst demo_grammar). \<not> startswith m (''recall'' @ ''recall'')" by code_simp+
  with forced_repeats_name [OF this(1,2)] show ?thesis by simp
qed

end
