(* ===== verification/ToolLoop.thy ===== *)
theory ToolLoop imports Grammar begin

text \<open>
  The tool-calling loop (\<open>run_with_tools\<close> of \<open>harness/mcp/tools.py\<close>) over the grammar. The served
  model is a parameter \<open>chat\<close> (configuration and messages to a text, \<open>None\<close> an exception that leaves
  the loop), the tools' functions and the state they change are parameters too. A message of the
  conversation is a value of \<open>entry\<close>; the system turn the loop puts in front is fixed and left out.
  The loop keeps a record of its rounds (what was asked, what came, what was done): it stands for
  \<open>on_tool\<close> and the log.
\<close>

section \<open>Tools\<close>

record gen_cfg =
  g_temperature :: real
  g_penalty :: real
  g_eot_bias :: real
  g_ngram :: "nat option"
  g_repeat_text :: string

datatype entry =
    User string
  | Assistant string
  | ToolOutput "string list" bool
  | RefusedCall parse_error
  | UnparsedCall

type_synonym 'w tool_fn = "pyval list \<Rightarrow> (string \<times> pyval) list \<Rightarrow> 'w \<Rightarrow> (string + string) \<times> 'w"

record 'w tool =
  tl_name :: string
  tl_sig :: tool_sig
  tl_line :: string
  tl_fn :: "'w tool_fn"

text \<open>\<open>ToolSpec.call\<close>: an exception of the function is the text of the result.\<close>

definition call_tool :: "'w tool \<Rightarrow> pyval list \<Rightarrow> (string \<times> pyval) list \<Rightarrow> 'w \<Rightarrow> string \<times> 'w" where
  "call_tool t vs kw w =
     (case tl_fn t vs kw w of
        (Inl exc, w') \<Rightarrow> (''[tool error: '' @ exc @ '']'', w')
      | (Inr r, w') \<Rightarrow> (r, w'))"

definition norm_name :: "string \<Rightarrow> string" where
  "norm_name s = filter (\<lambda>c. c \<noteq> CHR ''_'' \<and> c \<noteq> CHR ''-'') (lower s)"

definition resolve_tool :: "'w tool list \<Rightarrow> string \<Rightarrow> 'w tool option" where
  "resolve_tool ts nm =
     (case find (\<lambda>t. tl_name t = nm) ts of
        Some t \<Rightarrow> Some t
      | None \<Rightarrow> find (\<lambda>t. norm_name (tl_name t) = norm_name nm) ts)"

text \<open>Insertion into a dictionary keyed by the name: a known key keeps its place.\<close>

fun put_tool :: "'w tool \<Rightarrow> 'w tool list \<Rightarrow> 'w tool list" where
  "put_tool t [] = [t]"
| "put_tool t (u # us) = (if tl_name u = tl_name t then t # us else u # put_tool t us)"

definition load_tools_text :: "'w tool list \<Rightarrow> string \<Rightarrow> string" where
  "load_tools_text ts names =
     (let wanted = filter (\<lambda>x. x \<noteq> []) (map strip
            (split_on (\<lambda>c. c = CHR '','' \<or> c = CHR '';'' \<or> c = CHR '' '') names));
          out = map (\<lambda>n. case find (\<lambda>t. tl_name t = n) ts of
                       Some t \<Rightarrow> tl_line t | None \<Rightarrow> ''# no tool named '' @ [CHR 0x27] @ n @ [CHR 0x27]) wanted
      in if out \<noteq> [] then join nl out else ''# usage: load_tools('' @ dq @ ''name1,name2'' @ dq @ '')'')"

definition text_of_val :: "pyval \<Rightarrow> string" where
  "text_of_val v = (case v of VStr s \<Rightarrow> s | VNum d \<Rightarrow> d | VBool b \<Rightarrow> (if b then ''True'' else ''False'')
     | VNone \<Rightarrow> ''None'' | VOther s \<Rightarrow> s)"

text \<open>The loader is called with its one parameter, by place or by name; anything else is a \<open>TypeError\<close>.\<close>

definition load_tools_fn :: "'w tool list \<Rightarrow> 'w tool_fn" where
  "load_tools_fn ts vs kw w =
     (case (vs, kw) of
        ([v], []) \<Rightarrow> (Inr (load_tools_text ts (text_of_val v)), w)
      | ([], [(k, v)]) \<Rightarrow> (if k = ''names'' then Inr (load_tools_text ts (text_of_val v)) else Inl ''TypeError'', w)
      | _ \<Rightarrow> (Inl ''TypeError'', w))"

definition tool_index :: "'w tool list \<Rightarrow> 'w tool list \<Rightarrow> 'w tool list" where
  "tool_index core extra =
     (let all_specs = fold put_tool (core @ extra) []
      in put_tool \<lparr>tl_name = ''load_tools'', tl_sig = \<lparr>ts_params = [''names''], ts_required = [''names'']\<rparr>,
                    tl_line = ''def load_tools(names: str):  # Reveal how to call other tools by name (comma-separated), then call them'', tl_fn = load_tools_fn all_specs\<rparr> all_specs)"

definition grammar_of :: "'w tool list \<Rightarrow> grammar" where
  "grammar_of ts = map (\<lambda>t. (tl_name t, tl_sig t)) ts"

section \<open>The loop\<close>

type_synonym 'w chat_fn = "gen_cfg \<Rightarrow> entry list \<Rightarrow> 'w \<Rightarrow> string option \<times> 'w"

datatype deed = Spoke | Refuse parse_error | Act tool_call string

record round =
  rd_convo :: "entry list"
  rd_text :: string
  rd_deed :: deed

datatype ending = Answer string | Rut string | Exhausted | ChatFailed

record 'w loop =
  lp_convo :: "entry list"
  lp_cfg :: gen_cfg
  lp_prev :: "(tool_call \<times> string) option"
  lp_streak :: nat
  lp_rounds :: "round list"
  lp_world :: 'w

definition cool :: "gen_cfg \<Rightarrow> gen_cfg" where
  "cool cfg = cfg\<lparr>g_temperature := 15 / 100, g_penalty := 105 / 100\<rparr>"

definition output_line :: "string \<Rightarrow> string \<Rightarrow> string" where
  "output_line nm result = nm @ '' -> '' @ result"

definition run_call :: "'w tool list \<Rightarrow> tool_call \<Rightarrow> 'w \<Rightarrow> string \<times> 'w" where
  "run_call ts c w =
     (case resolve_tool ts (tc_name c) of
        Some t \<Rightarrow> call_tool t (tc_args c) (tc_kwargs c) w
      | None \<Rightarrow> (''[unknown tool: '' @ tc_name c @ '' - available: '' @ join '', '' (sort (map tl_name ts)) @ '']'', w))"

text \<open>Two calls are the same for the repeat test when name, arguments and result are.\<close>

definition same_call :: "tool_call \<Rightarrow> tool_call" where
  "same_call c = c\<lparr>tc_tolerated := []\<rparr>"

definition act :: "'w tool list \<Rightarrow> tool_call \<Rightarrow> string \<Rightarrow> 'w loop \<Rightarrow> ending option \<times> 'w loop" where
  "act ts c text st =
     (let (result, w) = run_call ts c (lp_world st); sg = (same_call c, result);
          streak = (if lp_prev st = Some sg then lp_streak st + 1 else 0);
          st1 = st\<lparr>lp_world := w, lp_prev := Some sg, lp_streak := streak,
                   lp_rounds := lp_rounds st @ [\<lparr>rd_convo = lp_convo st, rd_text = text, rd_deed = Act c result\<rparr>],
                   lp_convo := lp_convo st @ [Assistant text]\<rparr>
      in if 2 \<le> streak then (Some (Rut (take 400 (output_line (tc_name c) result))), st1)
         else (None, st1\<lparr>lp_convo := lp_convo st1 @ [ToolOutput [output_line (tc_name c) result] (streak = 1)],
                         lp_cfg := cool (lp_cfg st)\<rparr>))"

definition tool_round :: "parser \<Rightarrow> 'w chat_fn \<Rightarrow> 'w tool list \<Rightarrow> 'w loop \<Rightarrow> ending option \<times> 'w loop" where
  "tool_round py chat ts st =
     (case chat (lp_cfg st) (lp_convo st) (lp_world st) of
        (None, w) \<Rightarrow> (Some ChatFailed, st\<lparr>lp_world := w\<rparr>)
      | (Some text, w) \<Rightarrow>
          let st1 = st\<lparr>lp_world := w\<rparr>;
              rd = (\<lambda>d. lp_rounds st @ [\<lparr>rd_convo = lp_convo st, rd_text = text, rd_deed = d\<rparr>])
          in (case grammar_parse py (grammar_of ts) True text of
                None \<Rightarrow> (Some (Answer text), st1\<lparr>lp_rounds := rd Spoke\<rparr>)
              | Some (Inl e) \<Rightarrow>
                  (None, st1\<lparr>lp_rounds := rd (Refuse e), lp_convo := lp_convo st @ [Assistant text, RefusedCall e]\<rparr>)
              | Some (Inr c) \<Rightarrow> act ts c text st1))"

fun tool_rounds :: "nat \<Rightarrow> parser \<Rightarrow> 'w chat_fn \<Rightarrow> 'w tool list \<Rightarrow> 'w loop \<Rightarrow> ending \<times> 'w loop" where
  "tool_rounds 0 py chat ts st = (Exhausted, st)"
| "tool_rounds (Suc n) py chat ts st =
     (case tool_round py chat ts st of
        (Some e, st') \<Rightarrow> (e, st')
      | (None, st') \<Rightarrow> tool_rounds n py chat ts st')"

definition run_with_tools ::
  "nat \<Rightarrow> parser \<Rightarrow> 'w chat_fn \<Rightarrow> 'w tool list \<Rightarrow> 'w tool list \<Rightarrow> gen_cfg \<Rightarrow> entry list \<Rightarrow> 'w \<Rightarrow> ending \<times> 'w loop" where
  "run_with_tools max_rounds py chat core extra cfg messages w =
     tool_rounds max_rounds py chat (tool_index core extra)
       \<lparr>lp_convo = messages, lp_cfg = cfg, lp_prev = None, lp_streak = 0, lp_rounds = [], lp_world = w\<rparr>"

text \<open>The text the caller gets; an exception of the client is \<open>None\<close>.\<close>

fun final_answer :: "ending \<Rightarrow> string option" where
  "final_answer (Answer t) = Some t"
| "final_answer (Rut t) =
     Some (''(stopped: repeating the same tool call with the same result - latest output: '' @ t @ '')'')"
| "final_answer Exhausted = Some ''(tool loop exhausted)''"
| "final_answer ChatFailed = None"

section \<open>Act, observe, decide\<close>

text \<open>
  What the next round is asked with: the messages of this round, the text that came, and what was
  done with it.
\<close>

definition reports :: "deed \<Rightarrow> entry \<Rightarrow> bool" where
  "reports d m \<longleftrightarrow>
     (case d of Spoke \<Rightarrow> False
      | Refuse e \<Rightarrow> m = RefusedCall e
      | Act c r \<Rightarrow> (\<exists>note. m = ToolOutput [output_line (tc_name c) r] note))"

definition follows :: "round \<Rightarrow> entry list \<Rightarrow> bool" where
  "follows r convo \<longleftrightarrow> (\<exists>m. reports (rd_deed r) m \<and> convo = rd_convo r @ [Assistant (rd_text r), m])"

fun chained :: "round list \<Rightarrow> entry list \<Rightarrow> bool" where
  "chained [] convo = True"
| "chained [r] convo = follows r convo"
| "chained (r # r2 # rs) convo \<longleftrightarrow> follows r (rd_convo r2) \<and> chained (r2 # rs) convo"

lemma chained_snoc: "chained (rs @ [r]) convo \<longleftrightarrow> chained rs (rd_convo r) \<and> follows r convo"
  by (induction rs convo rule: chained.induct) (auto split: list.splits)

text \<open>Every round but the first is asked with the report of the one before.\<close>

definition fed_back :: "round list \<Rightarrow> bool" where
  "fed_back rs \<longleftrightarrow> rs = [] \<or> chained (butlast rs) (rd_convo (last rs))"

lemma linked_chained: "chained rs convo \<Longrightarrow> fed_back rs"
  by (cases rs rule: rev_cases) (auto simp: fed_back_def chained_snoc)

lemma linked_snoc [simp]: "fed_back (rs @ [r]) = chained rs (rd_convo r)"
  by (simp add: fed_back_def)

definition deeds :: "round list \<Rightarrow> (tool_call \<times> string) list" where
  "deeds rs = concat (map (\<lambda>r. case rd_deed r of Act c out \<Rightarrow> [(same_call c, out)] | _ \<Rightarrow> []) rs)"

text \<open>How often the last element of a list was repeated at its end.\<close>

definition run_at_end :: "'a list \<Rightarrow> nat" where
  "run_at_end xs = (case rev xs of [] \<Rightarrow> 0 | x # ys \<Rightarrow> length (takeWhile (\<lambda>y. y = x) ys))"

lemma run_at_end_snoc:
  "run_at_end (xs @ [x]) = (if xs \<noteq> [] \<and> last xs = x then run_at_end xs + 1 else 0)"
  by (cases xs rule: rev_cases) (auto simp: run_at_end_def)

definition lawful_round :: "grammar \<Rightarrow> parser \<Rightarrow> round \<Rightarrow> bool" where
  "lawful_round g py r \<longleftrightarrow>
     (case rd_deed r of
        Spoke \<Rightarrow> grammar_parse py g True (rd_text r) = None
      | Refuse e \<Rightarrow> grammar_parse py g True (rd_text r) = Some (Inl e)
      | Act c out \<Rightarrow> grammar_parse py g True (rd_text r) = Some (Inr c))"

text \<open>The invariant between two rounds.\<close>

definition loop_sound :: "parser \<Rightarrow> 'w tool list \<Rightarrow> 'w loop \<Rightarrow> bool" where
  "loop_sound py ts st \<longleftrightarrow>
     chained (lp_rounds st) (lp_convo st) \<and> (\<forall>r \<in> set (lp_rounds st). lawful_round (grammar_of ts) py r)
     \<and> lp_prev st = (if deeds (lp_rounds st) = [] then None else Some (last (deeds (lp_rounds st))))
     \<and> lp_streak st = run_at_end (deeds (lp_rounds st)) \<and> lp_streak st < 2
     \<and> (\<forall>k. run_at_end (take k (deeds (lp_rounds st))) < 2)"

definition ended_ok :: "parser \<Rightarrow> 'w tool list \<Rightarrow> ending \<Rightarrow> 'w loop \<Rightarrow> bool" where
  "ended_ok py ts e st \<longleftrightarrow>
     fed_back (lp_rounds st)
     \<and> (\<forall>r \<in> set (lp_rounds st). lawful_round (grammar_of ts) py r)
     \<and> (\<forall>k < length (deeds (lp_rounds st)). run_at_end (take k (deeds (lp_rounds st))) < 2)
     \<and> (run_at_end (deeds (lp_rounds st)) \<le> 2)
     \<and> (run_at_end (deeds (lp_rounds st)) = 2 \<longleftrightarrow> (\<exists>t. e = Rut t))
     \<and> (\<forall>t. e = Answer t \<longrightarrow> grammar_parse py (grammar_of ts) True t = None)"

lemma deeds_append [simp]: "deeds (xs @ ys) = deeds xs @ deeds ys"
  by (simp add: deeds_def)

lemma deeds_one [simp]:
  "deeds [r] = (case rd_deed r of Act c out \<Rightarrow> [(same_call c, out)] | _ \<Rightarrow> [])"
  by (simp add: deeds_def)

lemma deeds_Nil [simp]: "deeds [] = []"
  by (simp add: deeds_def)

lemma take_snoc_run:
  "(\<forall>k. run_at_end (take k xs) < 2) \<Longrightarrow> run_at_end (xs @ [x]) < 2 \<Longrightarrow> run_at_end (take k (xs @ [x])) < 2"
  by (cases "k \<le> length xs") auto

lemma tool_round_ok:
  assumes ok: "loop_sound py ts st" and "tool_round py chat ts st = (e, st')"
  shows "(case e of None \<Rightarrow> loop_sound py ts st' \<and> length (lp_rounds st') = Suc (length (lp_rounds st))
      | Some en \<Rightarrow> ended_ok py ts en st' \<and> length (lp_rounds st') \<le> Suc (length (lp_rounds st)))"
proof -
  obtain res w where ch: "chat (lp_cfg st) (lp_convo st) (lp_world st) = (res, w)" by fastforce
  note inv = ok [unfolded loop_sound_def]
  show ?thesis
  proof (cases res)
    case None
    with assms(2) ch have e: "e = Some ChatFailed" "lp_rounds st' = lp_rounds st"
      by (auto simp: tool_round_def)
    have "\<not> run_at_end (deeds (lp_rounds st)) = 2" using inv by auto
    then show ?thesis using inv e linked_chained by (auto simp: ended_ok_def)
  next
    case (Some said)
    define rd where "rd d = \<lparr>rd_convo = lp_convo st, rd_text = said, rd_deed = d\<rparr>" for d
    have ch2: "chained (lp_rounds st) (rd_convo (rd d))" for d using inv by (simp add: rd_def)
    show ?thesis
    proof (cases "grammar_parse py (grammar_of ts) True said")
      case None
      with assms(2) ch Some have e: "e = Some (Answer said)" "lp_rounds st' = lp_rounds st @ [rd Spoke]"
        by (auto simp: tool_round_def rd_def)
      have "lawful_round (grammar_of ts) py (rd Spoke)" using None by (simp add: lawful_round_def rd_def)
      moreover have "deeds [rd Spoke] = []" by (simp add: rd_def)
      ultimately show ?thesis using inv e ch2 None by (auto simp: ended_ok_def)
    next
      case (Some pc)
      show ?thesis
      proof (cases pc)
        case (Inl err)
        have e: "e = None" "lp_rounds st' = lp_rounds st @ [rd (Refuse err)]"
          "lp_convo st' = lp_convo st @ [Assistant said, RefusedCall err]" "lp_prev st' = lp_prev st"
          "lp_streak st' = lp_streak st"
          using assms(2) ch \<open>res = Some said\<close> Some Inl by (auto simp: tool_round_def rd_def Let_def)
        have "lawful_round (grammar_of ts) py (rd (Refuse err))" using Some Inl by (simp add: lawful_round_def rd_def)
        moreover have "follows (rd (Refuse err)) (lp_convo st')"
          by (simp add: follows_def reports_def rd_def e(3))
        moreover have "deeds [rd (Refuse err)] = []" by (simp add: rd_def)
        ultimately show ?thesis using inv e ch2 by (auto simp: loop_sound_def chained_snoc)
      next
        case (Inr c)
        obtain out w2 where rc: "run_call ts c w = (out, w2)" by fastforce
        define sg where "sg = (same_call c, out)"
        define ds where "ds = deeds (lp_rounds st)"
        define streak where "streak = (if lp_prev st = Some sg then lp_streak st + 1 else 0)"
        have r: "tool_round py chat ts st = act ts c said (st\<lparr>lp_world := w\<rparr>)"
          using ch \<open>res = Some said\<close> Some Inr by (simp add: tool_round_def)
        have rounds: "lp_rounds st' = lp_rounds st @ [rd (Act c out)]"
          using assms(2) r rc by (auto simp: act_def Let_def rd_def split: if_splits)
        have dn: "deeds (lp_rounds st') = ds @ [sg]" by (simp add: rounds ds_def rd_def sg_def)
        have run: "run_at_end (ds @ [sg]) = streak"
          using inv by (auto simp: run_at_end_snoc streak_def ds_def)
        have law: "\<forall>r \<in> set (lp_rounds st'). lawful_round (grammar_of ts) py r"
          using inv Some Inr by (auto simp: rounds lawful_round_def rd_def)
        show ?thesis
        proof (cases "2 \<le> streak")
          case True
          have e: "e = Some (Rut (take 400 (output_line (tc_name c) out)))"
            using assms(2) r rc True by (auto simp: act_def Let_def streak_def sg_def split: if_splits)
          have "streak \<le> 2" using inv by (auto simp: streak_def)
          moreover have "run_at_end (take k (ds @ [sg])) < 2" if "k < length (ds @ [sg])" for k
            using that inv by (simp add: ds_def)
          moreover have "fed_back (lp_rounds st')" by (simp add: rounds ch2)
          ultimately have "ended_ok py ts (Rut (take 400 (output_line (tc_name c) out))) st'"
            using law True run unfolding ended_ok_def dn by simp
          then show ?thesis by (simp add: e rounds)
        next
          case False
          have e: "e = None" "lp_convo st' = lp_convo st @ [Assistant said, ToolOutput [output_line (tc_name c) out] (streak = 1)]"
            "lp_prev st' = Some sg" "lp_streak st' = streak"
            using assms(2) r rc False by (auto simp: act_def Let_def streak_def sg_def split: if_splits)
          have "follows (rd (Act c out)) (lp_convo st')"
            by (simp add: follows_def reports_def rd_def e(2))
          moreover have "\<forall>k. run_at_end (take k (ds @ [sg])) < 2"
            using take_snoc_run [of ds sg] inv run False by (auto simp: ds_def)
          moreover have "chained (lp_rounds st') (lp_convo st')"
            using calculation(1) by (simp add: rounds chained_snoc ch2)
          ultimately have "loop_sound py ts st'" using law e run False unfolding loop_sound_def dn by simp
          then show ?thesis by (simp add: e(1) rounds)
        qed
      qed
    qed
  qed
qed

lemma tool_rounds_ok:
  assumes "loop_sound py ts st" and "tool_rounds n py chat ts st = (e, st')"
  shows "ended_ok py ts e st' \<and> length (lp_rounds st') \<le> length (lp_rounds st) + n
    \<and> (e = Exhausted \<longrightarrow> length (lp_rounds st') = length (lp_rounds st) + n)"
  using assms
proof (induction n py chat ts st arbitrary: e st' rule: tool_rounds.induct)
  case (1 py chat ts st)
  then show ?case using linked_chained by (auto simp: loop_sound_def ended_ok_def)
next
  case (2 n py chat ts st)
  obtain r st1 where r: "tool_round py chat ts st = (r, st1)" by fastforce
  note ok = tool_round_ok [OF 2(2) r]
  show ?case
  proof (cases r)
    case None
    with ok have "loop_sound py ts st1" and l: "length (lp_rounds st1) = Suc (length (lp_rounds st))" by auto
    moreover have "tool_rounds n py chat ts st1 = (e, st')" using 2(3) r None by simp
    ultimately show ?thesis using 2(1) [OF r [symmetric] None] by fastforce
  next
    case (Some en)
    have ne: "en \<noteq> Exhausted"
      using r Some by (auto simp: tool_round_def act_def Let_def split: prod.splits option.splits sum.splits if_splits)
    with Some ok 2(3) r show ?thesis by auto
  qed
qed

lemma resolve_exact:
  assumes "map_of (grammar_of ts) nm = Some sg"
  shows "\<exists>t \<in> set ts. tl_name t = nm \<and> resolve_tool ts nm = Some t \<and> tl_sig t = sg"
proof -
  have "\<exists>t \<in> set ts. tl_name t = nm \<and> find (\<lambda>t. tl_name t = nm) ts = Some t \<and> tl_sig t = sg"
    using assms by (induction ts) (auto simp: grammar_of_def split: if_splits)
  then show ?thesis by (auto simp: resolve_tool_def)
qed


definition demo_tools :: "nat tool list" where
  "demo_tools = [\<lparr>tl_name = ''recall'', tl_sig = \<lparr>ts_params = [''query''], ts_required = [''query'']\<rparr>,
     tl_line = ''def recall(query: str)'', tl_fn = (\<lambda>vs kw w. (Inr ''nothing'', Suc w))\<rparr>]"

definition demo_cfg :: gen_cfg where
  "demo_cfg = \<lparr>g_temperature = 6 / 10, g_penalty = 13 / 10, g_eot_bias = 4, g_ngram = None, g_repeat_text = []\<rparr>"

definition demo_chat :: "nat chat_fn" where
  "demo_chat cfg convo w = (Some demo_text, w)"


end
