(* ===== verification/AgentStream.thy ===== *)
theory AgentStream imports ToolLoop begin

text \<open>
  The streamed turn of \<open>harness/agent.py\<close>: the parser of tool calls it still uses (the one of
  \<open>harness/mcp/tools.py\<close>), the ban on repeating herself, and \<open>agent_chat_stream\<close>, which holds back
  what may be a tool call while the deltas of the model arrive. Parameters: the Python parser \<open>py\<close>,
  whether a block has a statement (\<open>stmt\<close>), the JSON reader, and the model \<open>say\<close>, which gives the
  deltas of a generation and whether it died before its end.
\<close>

section \<open>The parser of the streamed path\<close>

record loose_call =
  lc_name :: string
  lc_args :: "pyval list"
  lc_kws :: "(string option \<times> pyval) list"

fun put_kw :: "string option \<Rightarrow> pyval \<Rightarrow> (string option \<times> pyval) list \<Rightarrow> (string option \<times> pyval) list" where
  "put_kw k v [] = [(k, v)]"
| "put_kw k v ((k2, v2) # ks) = (if k2 = k then (k, v) # ks else (k2, v2) # put_kw k v ks)"

definition lit_or_none :: "pyval option \<Rightarrow> pyval" where
  "lit_or_none v = (case v of None \<Rightarrow> VNone | Some x \<Rightarrow> x)"

fun loose_of :: "call_node list \<Rightarrow> loose_call list" where
  "loose_of [] = []"
| "loose_of (c # cs) =
     (let rest = loose_of cs; mk = (\<lambda>nm. \<lparr>lc_name = nm, lc_args = map lit_or_none (c_args c),
            lc_kws = fold (\<lambda>(k, v). put_kw k (lit_or_none v)) (c_kws c) []\<rparr>)
      in case c_fn c of
           Plain nm \<Rightarrow> if nm = [] then rest else mk nm # rest
         | Attribute nm \<Rightarrow> if nm = [] then rest else mk nm # rest
         | Computed \<Rightarrow> rest)"

definition calls_from_code :: "parser \<Rightarrow> string \<Rightarrow> loose_call list" where
  "calls_from_code py src = (case py (heal src) of None \<Rightarrow> [] | Some cs \<Rightarrow> loose_of cs)"

definition TICKS :: string where
  "TICKS = replicate 3 (CHR 0x60)"

definition TOOLCODE_RE :: "rx list" where
  "TOOLCODE_RE = [lit TICKS, blanks, seqs [lit ''tool'', opt (one_of ''-_ ''), lit ''code''], sp0, Lz any,
     Al (lit TICKS) Zed]"

definition TOOL_RE :: "rx list" where
  "TOOL_RE = [lit ''<tool'', sp1, lit (''name='' @ dq), plus1 (Cls (\<lambda>c. c \<noteq> CHR 0x22)), lit dq, sp0, lit ''>'',
     Lz any, lit ''</tool>'']"

definition ANYFENCE_RE :: "rx list" where
  "ANYFENCE_RE = [lit TICKS, blanks, words [''python'', ''py'', ''tool''], Sq Bnd blanks, opt (lit nl), Lz any,
     Al (lit TICKS) Zed]"

definition STRAY_RE :: "rx list" where
  "STRAY_RE = [Bos, sp0, seqs [lit ''tool'', opt (lit ''_''), lit ''code''], Bnd,
     St (Cls (\<lambda>c. c = CHR '':'' \<or> is_space c))]"

definition strip_ticks :: "string \<Rightarrow> string" where
  "strip_ticks s = (let d = dropWhile (\<lambda>c. c = CHR 0x60) in rev (d (rev (d s))))"

definition fenced_calls :: "parser \<Rightarrow> string \<Rightarrow> loose_call list" where
  "fenced_calls py t =
     concat (map (\<lambda>qs. calls_from_code py (strip (strip_ticks (strip (group_of t qs 4)))))
       (matches_of TOOLCODE_RE (lower t)))"

text \<open>The legacy form; text that is no JSON object gives no keywords.\<close>

definition tagged_calls :: "(string \<Rightarrow> (string \<times> pyval) list option) \<Rightarrow> string \<Rightarrow> loose_call list" where
  "tagged_calls json t =
     map (\<lambda>qs. let raw = strip (group_of t qs 7) in
        \<lparr>lc_name = group_of t qs 3, lc_args = [],
         lc_kws = (case json (if raw = [] then ''{}'' else raw) of
                     None \<Rightarrow> [] | Some kw \<Rightarrow> map (\<lambda>(k, v). (Some k, v)) kw)\<rparr>)
       (matches_of TOOL_RE t)"

definition unstray :: "string \<Rightarrow> string" where
  "unstray b = (case search_path STRAY_RE [([], b)] of None \<Rightarrow> b | Some qs \<Rightarrow> snd (last qs))"

definition drift_blocks :: "string \<Rightarrow> (string \<times> string) list" where
  "drift_blocks t =
     map (\<lambda>qs. (group_of t qs 2, unstray (strip (group_of t qs 5)))) (matches_of ANYFENCE_RE (lower t))"

definition drift_calls :: "parser \<Rightarrow> string list \<Rightarrow> string \<Rightarrow> loose_call list" where
  "drift_calls py known b =
     filter (\<lambda>c. norm_name (lc_name c) \<in> norm_name ` set known) (calls_from_code py b)"

definition parse_tool_calls ::
  "parser \<Rightarrow> (string \<Rightarrow> bool) \<Rightarrow> (string \<Rightarrow> (string \<times> pyval) list option) \<Rightarrow> string list \<Rightarrow> string
     \<Rightarrow> loose_call list" where
  "parse_tool_calls py stmt json known t =
     (let c1 = fenced_calls py t in
      if c1 \<noteq> [] then c1
      else let c2 = tagged_calls json t in
      if c2 \<noteq> [] \<or> known = [] then c2
      else let bs = drift_blocks t; c3 = concat (map (\<lambda>(tag, b). drift_calls py known b) bs) in
      if c3 \<noteq> [] \<or> ''run_python'' \<notin> set known then c3
      else (case find stmt (map snd (filter (\<lambda>(tag, b). tag \<in> {''python'', ''py''} \<and> b \<noteq> []) bs)) of
              None \<Rightarrow> []
            | Some b \<Rightarrow> [\<lparr>lc_name = ''run_python'', lc_args = [VStr b], lc_kws = []\<rparr>]))"

section \<open>The ban on repeating herself\<close>

fun assistant_texts :: "entry list \<Rightarrow> string list" where
  "assistant_texts [] = []"
| "assistant_texts (Assistant t # ms) = (if strip t \<noteq> [] then t # assistant_texts ms else assistant_texts ms)"
| "assistant_texts (m # ms) = assistant_texts ms"

definition arm_self_repeat_ban :: "gen_cfg \<Rightarrow> entry list \<Rightarrow> gen_cfg" where
  "arm_self_repeat_ban cfg messages =
     (if g_ngram cfg \<noteq> None then cfg
      else (case rev (assistant_texts messages) of
              [] \<Rightarrow> cfg
            | prev # older \<Rightarrow>
                if 5 \<le> length (py_split prev) then cfg\<lparr>g_ngram := Some 4, g_repeat_text := prev\<rparr>
                else (case older of
                        prev2 # _ \<Rightarrow>
                          if strip prev = strip prev2
                          then cfg\<lparr>g_ngram := Some (max 1 (min 2 (length (py_split prev)))), g_repeat_text := prev\<rparr>
                          else cfg
                      | [] \<Rightarrow> cfg)))"

section \<open>Holding back\<close>

datatype hold = Undecided | ToolHold | Streaming | Late

record feed_state =
  f_buf :: string
  f_flushed :: nat
  f_mode :: hold
  f_out :: "string list"

definition feed :: "string \<Rightarrow> feed_state \<Rightarrow> feed_state" where
  "feed delta f =
     (let buf = f_buf f @ delta; f1 = f\<lparr>f_buf := buf\<rparr> in
      case f_mode f of
        Undecided \<Rightarrow>
          (let s = lstrip buf in
           if contains s TICKS then f1\<lparr>f_mode := ToolHold\<rparr>
           else if 80 \<le> length s
           then f1\<lparr>f_mode := Streaming, f_out := f_out f @ [buf], f_flushed := length buf\<rparr>
           else f1)
      | Streaming \<Rightarrow>
          (case find_from TICKS (f_flushed f - 2) buf of
             Some i \<Rightarrow>
               if f_flushed f < i
               then f1\<lparr>f_mode := Late, f_flushed := i,
                       f_out := f_out f @ [take (i - f_flushed f) (drop (f_flushed f) buf)]\<rparr>
               else f1\<lparr>f_mode := Late\<rparr>
           | None \<Rightarrow>
               f1\<lparr>f_flushed := length buf, f_out := f_out f @ [drop (f_flushed f) buf]\<rparr>)
      | _ \<Rightarrow> f1)"

definition fresh_feed :: feed_state where
  "fresh_feed = \<lparr>f_buf = [], f_flushed = 0, f_mode = Undecided, f_out = []\<rparr>"

definition TOOLISH :: rx where
  "TOOLISH = seqs [lit TICKS, blanks, lit ''tool'']"

section \<open>agent_chat_stream\<close>

datatype stream_end = Answered | OutOfRounds | StreamDied | CallCrashed

datatype stream_deed = Final | Reprompted | Called loose_call string | Broken

record streamed =
  sr_convo :: "entry list"
  sr_cfg :: gen_cfg
  sr_buf :: string
  sr_sent :: "string list"
  sr_deed :: stream_deed

record 'w stream =
  sm_convo :: "entry list"
  sm_cfg :: gen_cfg
  sm_world :: 'w
  sm_rounds :: "streamed list"

type_synonym 'w say_fn = "gen_cfg \<Rightarrow> entry list \<Rightarrow> 'w \<Rightarrow> string list \<times> bool \<times> 'w"

definition cool_stream :: "gen_cfg \<Rightarrow> gen_cfg" where
  "cool_stream cfg = cfg\<lparr>g_temperature := 15 / 100, g_penalty := 105 / 100, g_eot_bias := 0\<rparr>"

text \<open>A keyword that is no name makes the call itself raise, outside the tool's own handler.\<close>

definition run_loose :: "'w tool list \<Rightarrow> loose_call \<Rightarrow> 'w \<Rightarrow> (string \<times> 'w) option" where
  "run_loose ts c w =
     (case resolve_tool ts (lc_name c) of
        Some t \<Rightarrow>
          if None \<in> fst ` set (lc_kws c) then None
          else Some (call_tool t (lc_args c) (map (\<lambda>(k, v). (case k of Some x \<Rightarrow> x | None \<Rightarrow> [], v)) (lc_kws c)) w)
      | None \<Rightarrow> Some (''[unknown tool: '' @ lc_name c @ '' - available: '' @ join '', '' (sort (map tl_name ts)) @ '']'', w))"

record 'w stream_env =
  se_py :: parser
  se_stmt :: "string \<Rightarrow> bool"
  se_json :: "string \<Rightarrow> (string \<times> pyval) list option"
  se_say :: "'w say_fn"
  se_tools :: "'w tool list"

definition calls_in :: "'w stream_env \<Rightarrow> string \<Rightarrow> loose_call list" where
  "calls_in ev buf = parse_tool_calls (se_py ev) (se_stmt ev) (se_json ev) (map tl_name (se_tools ev)) buf"

definition logged :: "'w stream \<Rightarrow> string \<Rightarrow> string list \<Rightarrow> stream_deed \<Rightarrow> streamed list" where
  "logged st buf sent d =
     sm_rounds st @ [\<lparr>sr_convo = sm_convo st, sr_cfg = sm_cfg st, sr_buf = buf, sr_sent = sent, sr_deed = d\<rparr>]"

text \<open>The end of a generation: the call is run, the model is asked again, or the rest is shown.\<close>

definition close_round :: "'w stream_env \<Rightarrow> 'w stream \<Rightarrow> feed_state \<Rightarrow> stream_end option \<times> 'w stream" where
  "close_round ev st f =
     (let buf = f_buf f; out = f_out f in
      case calls_in ev buf of
        [] \<Rightarrow>
          if f_mode f \<in> {ToolHold, Late} \<and> ifound TOOLISH buf
          then (None, st\<lparr>sm_rounds := logged st buf out Reprompted,
                         sm_convo := sm_convo st @ [Assistant buf, UnparsedCall]\<rparr>)
          else (Some Answered,
                st\<lparr>sm_rounds := logged st buf
                     (if f_mode f \<noteq> Streaming then out @ [drop (f_flushed f) buf] else out) Final\<rparr>)
      | c # _ \<Rightarrow>
          (case run_loose (se_tools ev) c (sm_world st) of
             None \<Rightarrow> (Some CallCrashed, st\<lparr>sm_rounds := logged st buf out Broken,
                                          sm_convo := sm_convo st @ [Assistant buf]\<rparr>)
           | Some (result, w2) \<Rightarrow>
               (None, st\<lparr>sm_world := w2, sm_rounds := logged st buf out (Called c result),
                         sm_cfg := cool_stream (sm_cfg st),
                         sm_convo := sm_convo st @
                           [Assistant buf, ToolOutput [output_line (lc_name c) result] False]\<rparr>)))"

definition stream_round :: "'w stream_env \<Rightarrow> 'w stream \<Rightarrow> stream_end option \<times> 'w stream" where
  "stream_round ev st =
     (let (deltas, died, w) = se_say ev (sm_cfg st) (sm_convo st) (sm_world st);
          f = fold feed deltas fresh_feed; st1 = st\<lparr>sm_world := w\<rparr>
      in if died then (Some StreamDied, st1\<lparr>sm_rounds := logged st (f_buf f) (f_out f) Broken\<rparr>)
         else close_round ev st1 f)"

fun stream_rounds :: "nat \<Rightarrow> 'w stream_env \<Rightarrow> 'w stream \<Rightarrow> stream_end \<times> 'w stream" where
  "stream_rounds 0 ev st = (OutOfRounds, st)"
| "stream_rounds (Suc n) ev st =
     (case stream_round ev st of (Some e, st') \<Rightarrow> (e, st') | (None, st') \<Rightarrow> stream_rounds n ev st')"

definition agent_chat_stream ::
  "nat \<Rightarrow> 'w stream_env \<Rightarrow> gen_cfg \<Rightarrow> entry list \<Rightarrow> 'w \<Rightarrow> stream_end \<times> 'w stream" where
  "agent_chat_stream max_rounds ev cfg messages w =
     stream_rounds max_rounds ev
       \<lparr>sm_convo = messages, sm_cfg = arm_self_repeat_ban cfg messages, sm_world = w, sm_rounds = []\<rparr>"

text \<open>What the reader of the stream has seen.\<close>

definition seen :: "stream_end \<Rightarrow> 'w stream \<Rightarrow> string" where
  "seen e st = concat (concat (map sr_sent (sm_rounds st)))
     @ (if e = OutOfRounds then ''(tool loop exhausted)'' else [])"

section \<open>No fence gets out\<close>

text \<open>An occurrence in a prefix is an occurrence that ends inside it.\<close>

lemma startswith_take: "startswith (drop j (take n s)) p \<Longrightarrow> p \<noteq> [] \<Longrightarrow> startswith (drop j s) p \<and> j + length p \<le> n"
proof -
  assume a: "startswith (drop j (take n s)) p" and p: "p \<noteq> []"
  then have t: "take (length p) (take (n - j) (drop j s)) = p" by (simp add: startswith_def drop_take)
  then have "length p \<le> n - j" by (metis length_take min.bounded_iff min.cobounded1 nat_le_linear take_take)
  moreover have "0 < length p" using p by simp
  ultimately have "j + length p \<le> n" by linarith
  with t show ?thesis by (simp add: startswith_def min_def split: if_splits)
qed

lemma contains_take:
  "contains (take n s) p \<Longrightarrow> p \<noteq> [] \<Longrightarrow> \<exists>j. startswith (drop j s) p \<and> j + length p \<le> n"
proof -
  assume "contains (take n s) p" and p: "p \<noteq> []"
  then obtain j where "startswith (drop j (take n s)) p" unfolding contains_iff by blast
  from startswith_take [OF this p] show ?thesis by blast
qed

lemma length_TICKS [simp]: "length TICKS = 3" "TICKS \<noteq> []"
  by (simp_all add: TICKS_def)

lemma no_fence_extends:
  assumes "\<not> contains (take f s) TICKS" and "\<forall>j. f - 2 \<le> j \<and> j < i \<longrightarrow> \<not> startswith (drop j s) TICKS"
    and "i \<le> length s" and "f \<le> length s"
  shows "\<not> contains (take i s) TICKS"
proof
  assume "contains (take i s) TICKS"
  then obtain j where j: "startswith (drop j s) TICKS" "j + 3 \<le> i"
    using contains_take [of i s TICKS] by auto
  then have "\<not> f - 2 \<le> j" using assms(2) by auto
  then have "j < f - 2" by simp
  then have "startswith (drop j (take f s)) TICKS"
    using j(1) \<open>\<not> f - 2 \<le> j\<close> by (simp add: startswith_def drop_take min_absorb2)
  moreover have "j \<le> length (take f s)" using \<open>j < f - 2\<close> assms(4) by simp
  ultimately show False using assms(1) by (auto simp: contains_iff simp del: length_take)
qed

lemma contains_lstrip: "\<not> contains (lstrip s) TICKS \<Longrightarrow> \<not> contains s TICKS"
proof
  assume n: "\<not> contains (lstrip s) TICKS" and "contains s TICKS"
  then obtain i where i: "i \<le> length s" "startswith (drop i s) TICKS" by (auto simp: contains_iff)
  define k where "k = length (takeWhile is_space s)"
  have d: "drop k s = lstrip s" by (simp add: k_def lstrip_def dropWhile_eq_drop)
  have tick: "\<not> is_space (CHR 0x60)" by (simp add: is_space_def code_def)
  have "k \<le> i"
  proof (rule ccontr)
    assume "\<not> k \<le> i"
    then have "is_space (s ! i)" unfolding k_def using nth_mem takeWhile_nth set_takeWhileD by (metis not_le)
    moreover obtain u where "drop i s = CHR 0x60 # u" using i(2) by (auto simp: startswith_iff TICKS_def eval_nat_numeral)
    then have "s ! i = CHR 0x60" using i(1) by (metis hd_drop_conv_nth drop_eq_Nil linorder_not_le list.distinct(1) list.sel(1))
    ultimately show False using tick by simp
  qed
  then have "startswith (drop (i - k) (lstrip s)) TICKS" using i(2) by (simp flip: d)
  moreover have "i - k \<le> length (lstrip s)" using i(1) by (simp flip: d)
  ultimately show False using n by (auto simp: contains_iff)
qed

text \<open>The invariant of a generation: what was sent is the flushed prefix, and it holds no fence.\<close>

definition feed_ok :: "feed_state \<Rightarrow> bool" where
  "feed_ok f \<longleftrightarrow>
     f_flushed f \<le> length (f_buf f) \<and> concat (f_out f) = take (f_flushed f) (f_buf f)
     \<and> \<not> contains (take (f_flushed f) (f_buf f)) TICKS
     \<and> (f_mode f = Streaming \<longrightarrow> f_flushed f = length (f_buf f))
     \<and> (f_mode f = Undecided \<longrightarrow> f_flushed f = 0 \<and> \<not> contains (lstrip (f_buf f)) TICKS)"

lemma feed_ok_fresh: "feed_ok fresh_feed"
  by (simp add: feed_ok_def fresh_feed_def contains_def startswith_def lstrip_def TICKS_def)

lemma feed_buf [simp]: "f_buf (feed d f) = f_buf f @ d"
  by (simp add: feed_def Let_def split: hold.splits option.splits)

lemma no_ticks_Nil [simp]: "\<not> contains [] TICKS"
  by (simp add: contains_def startswith_def TICKS_def)

lemma feed_ok_undecided:
  assumes ok: "feed_ok f" and m: "f_mode f = Undecided"
  shows "feed_ok (feed d f)"
proof -
  let ?b = "f_buf f @ d"
  have k: "f_flushed f = 0" "concat (f_out f) = []" using ok m by (simp_all add: feed_ok_def)
  consider (fence) "contains (lstrip ?b) TICKS" | (long) "\<not> contains (lstrip ?b) TICKS" "80 \<le> length (lstrip ?b)"
    | (short) "\<not> contains (lstrip ?b) TICKS" "\<not> 80 \<le> length (lstrip ?b)" by blast
  then show ?thesis
  proof cases
    case fence
    then have "feed d f = f\<lparr>f_buf := ?b, f_mode := ToolHold\<rparr>" using m by (simp add: feed_def Let_def)
    then show ?thesis using k by (simp add: feed_ok_def)
  next
    case long
    then have "feed d f = f\<lparr>f_buf := ?b, f_mode := Streaming, f_out := f_out f @ [?b], f_flushed := length ?b\<rparr>"
      using m by (simp add: feed_def Let_def)
    then show ?thesis using k contains_lstrip [OF long(1)] by (simp add: feed_ok_def)
  next
    case short
    then have "feed d f = f\<lparr>f_buf := ?b\<rparr>" using m by (simp add: feed_def Let_def)
    then show ?thesis using k short m by (simp add: feed_ok_def)
  qed
qed

lemma feed_ok_streaming:
  assumes ok: "feed_ok f" and m: "f_mode f = Streaming"
  shows "feed_ok (feed d f)"
proof -
  let ?b = "f_buf f @ d" and ?k = "f_flushed f"
  have k: "?k = length (f_buf f)" "concat (f_out f) = f_buf f" "\<not> contains (take ?k ?b) TICKS"
    using ok m by (auto simp: feed_ok_def)
  have kl: "?k \<le> length ?b" by (simp add: k(1))
  show ?thesis
  proof (cases "find_from TICKS (?k - 2) ?b")
    case None
    have "\<not> contains (take (length ?b) ?b) TICKS"
      using find_from_None [OF None] by (intro no_fence_extends [OF k(3) _ _ kl]) auto
    moreover have "feed d f = f\<lparr>f_buf := ?b, f_flushed := length ?b, f_out := f_out f @ [drop ?k ?b]\<rparr>"
      using m None by (simp add: feed_def Let_def)
    ultimately show ?thesis using k m by (simp add: feed_ok_def)
  next
    case (Some i)
    note sp = find_from_Some [OF Some]
    have i: "\<not> contains (take i ?b) TICKS"
      using sp by (intro no_fence_extends [OF k(3) _ _ kl]) blast+
    show ?thesis
    proof (cases "?k < i")
      case True
      then have "feed d f = f\<lparr>f_buf := ?b, f_mode := Late, f_flushed := i,
          f_out := f_out f @ [take (i - ?k) (drop ?k ?b)]\<rparr>"
        using m Some by (simp add: feed_def Let_def)
      then show ?thesis using i sp k True by (simp add: feed_ok_def)
    next
      case False
      then have "feed d f = f\<lparr>f_buf := ?b, f_mode := Late\<rparr>" using m Some by (simp add: feed_def Let_def)
      then show ?thesis using k by (simp add: feed_ok_def)
    qed
  qed
qed

lemma feed_ok_step: "feed_ok f \<Longrightarrow> feed_ok (feed d f) \<and> f_buf (feed d f) = f_buf f @ d"
proof (cases "f_mode f")
  case Undecided
  then show "feed_ok f \<Longrightarrow> ?thesis" using feed_ok_undecided by simp
next
  case Streaming
  then show "feed_ok f \<Longrightarrow> ?thesis" using feed_ok_streaming by simp
qed (simp_all add: feed_ok_def feed_def Let_def)

lemma feed_ok_fold: "feed_ok f \<Longrightarrow> feed_ok (fold feed ds f) \<and> f_buf (fold feed ds f) = f_buf f @ concat ds"
proof (induction ds arbitrary: f)
  case (Cons d ds)
  from Cons.IH [of "feed d f"] feed_ok_step [OF Cons.prems, of d] show ?case by simp
qed simp

section \<open>What the reader of the stream sees\<close>

lemma lower_tick: "lower_char c = CHR 0x60 \<longleftrightarrow> c = CHR 0x60"
proof
  assume l: "lower_char c = CHR 0x60"
  show "c = CHR 0x60"
  proof (cases "is_upper c")
    case True
    then have r: "65 \<le> code c" "code c \<le> 90" by (simp_all add: is_upper_def)
    have "code (char_of (code c + 32)) = code c + 32"
      using r by (simp add: code_def of_char_of)
    moreover have "char_of (code c + 32) = CHR 0x60" using l True by (simp add: lower_char_def)
    ultimately have "code c + 32 = code (CHR 0x60)" by simp
    moreover have "code (CHR 0x60) = 96" by (simp add: code_def)
    ultimately show ?thesis using r by linarith
  qed (use l in \<open>simp add: lower_char_def\<close>)
next
  show "c = CHR 0x60 \<Longrightarrow> lower_char c = CHR 0x60"
    by (simp add: lower_char_def is_upper_def code_def)
qed

lemma startswith_lower: "startswith (lower s) TICKS \<Longrightarrow> startswith s TICKS"
proof -
  assume "startswith (lower s) TICKS"
  then have "map lower_char (take 3 s) = [CHR 0x60, CHR 0x60, CHR 0x60]"
    by (simp add: startswith_def lower_def take_map TICKS_def eval_nat_numeral)
  then have "take 3 s = [CHR 0x60, CHR 0x60, CHR 0x60]" by (auto simp: map_eq_Cons_conv lower_tick)
  then show ?thesis by (simp add: startswith_def TICKS_def eval_nat_numeral)
qed

lemma toolish_has_fence: "ifound TOOLISH s \<Longrightarrow> contains s TICKS"
proof -
  assume "ifound TOOLISH s"
  then obtain p q where p: "p \<in> set (spots_from ([], lower s))" and m: "rmatch TOOLISH p q"
    by (auto simp: ifound_def found_iff)
  from m obtain u where "rmatch (lit TICKS) p u" by (auto simp: TOOLISH_def seqs_def)
  then have st: "startswith (snd p) TICKS" using rmatch_lit by (auto simp: startswith_iff)
  have w: "rev (fst p) @ snd p = lower s" using spots_from_whole [OF p] by simp
  define i where "i = length (fst p)"
  have "snd p = drop i (lower s)" using arg_cong [OF w, of "drop i"] by (simp add: i_def)
  then have "startswith (lower (drop i s)) TICKS" using st by (simp add: lower_def drop_map)
  then have "startswith (drop i s) TICKS" by (rule startswith_lower)
  moreover have "i \<le> length s" using arg_cong [OF w, of length] by (simp add: i_def)
  ultimately show ?thesis by (auto simp: contains_iff)
qed

definition shown_ok :: "'w stream_env \<Rightarrow> streamed \<Rightarrow> bool" where
  "shown_ok ev r \<longleftrightarrow>
     \<not> ifound TOOLISH (concat (sr_sent r))
     \<and> (case sr_deed r of
          Final \<Rightarrow> concat (sr_sent r) = sr_buf r \<and> calls_in ev (sr_buf r) = []
        | Called c out \<Rightarrow> \<not> contains (concat (sr_sent r)) TICKS \<and> prefix (concat (sr_sent r)) (sr_buf r)
            \<and> (\<exists>cs. calls_in ev (sr_buf r) = c # cs)
        | _ \<Rightarrow> \<not> contains (concat (sr_sent r)) TICKS \<and> prefix (concat (sr_sent r)) (sr_buf r))"

lemma feed_shown:
  assumes "f = fold feed ds fresh_feed"
  shows "\<not> contains (concat (f_out f)) TICKS" "prefix (concat (f_out f)) (f_buf f)"
    "f_mode f = Streaming \<Longrightarrow> concat (f_out f) = f_buf f"
    "concat (f_out f) @ drop (f_flushed f) (f_buf f) = f_buf f"
    "f_mode f = Undecided \<Longrightarrow> \<not> contains (f_buf f) TICKS"
proof -
  have ok: "feed_ok f" using feed_ok_fold [OF feed_ok_fresh, of ds] assms by simp
  then show "\<not> contains (concat (f_out f)) TICKS" by (simp add: feed_ok_def)
  show "prefix (concat (f_out f)) (f_buf f)" using ok by (simp add: feed_ok_def take_is_prefix)
  show "f_mode f = Streaming \<Longrightarrow> concat (f_out f) = f_buf f" using ok by (simp add: feed_ok_def)
  show "concat (f_out f) @ drop (f_flushed f) (f_buf f) = f_buf f" using ok by (simp add: feed_ok_def)
  show "f_mode f = Undecided \<Longrightarrow> \<not> contains (f_buf f) TICKS" using ok contains_lstrip by (auto simp: feed_ok_def)
qed

lemma close_round_shown:
  assumes "f = fold feed ds fresh_feed" and "close_round ev st f = (e, st')"
  shows "\<exists>r. sm_rounds st' = sm_rounds st @ [r] \<and> shown_ok ev r \<and> (e = Some Answered \<longleftrightarrow> sr_deed r = Final)
    \<and> e \<noteq> Some OutOfRounds"
proof (cases "calls_in ev (f_buf f)")
  note sh = feed_shown [OF assms(1)]
  have nt: "\<not> ifound TOOLISH (concat (f_out f))" using sh(1) toolish_has_fence by blast
  case Nil
  show ?thesis
  proof (cases "f_mode f \<in> {ToolHold, Late} \<and> ifound TOOLISH (f_buf f)")
    case True
    then have "e = None" "sm_rounds st' = logged st (f_buf f) (f_out f) Reprompted"
      using assms(2) Nil by (auto simp: close_round_def Let_def)
    then show ?thesis using sh(1,2) nt by (simp add: logged_def shown_ok_def)
  next
    case no: False
    define sent where "sent = (if f_mode f \<noteq> Streaming then f_out f @ [drop (f_flushed f) (f_buf f)] else f_out f)"
    have all: "concat sent = f_buf f" using sh(3,4) by (simp add: sent_def)
    have "\<not> ifound TOOLISH (f_buf f)"
      using no nt sh(3,5) toolish_has_fence by (cases "f_mode f") auto
    moreover have "e = Some Answered \<and> sm_rounds st' = logged st (f_buf f) sent Final"
      using assms(2) Nil by (simp only: close_round_def Let_def no if_False list.case sent_def) auto
    ultimately show ?thesis using all Nil by (simp add: logged_def shown_ok_def)
  qed
next
  note sh = feed_shown [OF assms(1)]
  have nt: "\<not> ifound TOOLISH (concat (f_out f))" using sh(1) toolish_has_fence by blast
  case (Cons c cs)
  show ?thesis
  proof (cases "run_loose (se_tools ev) c (sm_world st)")
    case None
    then have "e = Some CallCrashed \<and> sm_rounds st' = logged st (f_buf f) (f_out f) Broken"
      using assms(2) Cons by (auto simp: close_round_def Let_def)
    then show ?thesis using sh(1,2) nt by (simp add: logged_def shown_ok_def)
  next
    case (Some x)
    obtain result w2 where x: "x = (result, w2)" by fastforce
    have "e = None \<and> sm_rounds st' = logged st (f_buf f) (f_out f) (Called c result)"
      using assms(2) Cons Some x by (auto simp: close_round_def Let_def)
    then show ?thesis using sh(1,2) nt Cons by (simp add: logged_def shown_ok_def)
  qed
qed

lemma stream_round_shown:
  assumes "stream_round ev st = (e, st')"
  shows "\<exists>r. sm_rounds st' = sm_rounds st @ [r] \<and> shown_ok ev r \<and> (e = Some Answered \<longleftrightarrow> sr_deed r = Final)
    \<and> e \<noteq> Some OutOfRounds"
proof -
  obtain ds died w where g: "se_say ev (sm_cfg st) (sm_convo st) (sm_world st) = (ds, died, w)" by (metis prod_cases3)
  define f where "f = fold feed ds fresh_feed"
  note sh = feed_shown [OF f_def]
  have nt: "\<not> ifound TOOLISH (concat (f_out f))" using sh(1) toolish_has_fence by blast
  have de: "(e, st') = (if died then (Some StreamDied, st\<lparr>sm_world := w, sm_rounds := logged st (f_buf f) (f_out f) Broken\<rparr>)
      else close_round ev (st\<lparr>sm_world := w\<rparr>) f)"
    using assms by (auto simp: stream_round_def g f_def Let_def)
  show ?thesis
  proof (cases died)
    case True
    then have "e = Some StreamDied" "sm_rounds st' = logged st (f_buf f) (f_out f) Broken" using de by simp_all
    then show ?thesis using sh(1,2) nt by (simp add: logged_def shown_ok_def)
  next
    case False
    then have "close_round ev (st\<lparr>sm_world := w\<rparr>) f = (e, st')" using de by simp
    from close_round_shown [OF f_def this] show ?thesis by simp
  qed
qed

lemma stream_rounds_shown:
  assumes "stream_rounds n ev st = (e, st')" and "\<forall>r \<in> set (sm_rounds st). shown_ok ev r \<and> sr_deed r \<noteq> Final"
  shows "(\<forall>r \<in> set (sm_rounds st'). shown_ok ev r) \<and> length (sm_rounds st') \<le> length (sm_rounds st) + n
    \<and> (\<forall>r \<in> set (butlast (sm_rounds st')). sr_deed r \<noteq> Final)
    \<and> (e = Answered \<longleftrightarrow> sm_rounds st' \<noteq> [] \<and> sr_deed (last (sm_rounds st')) = Final)
    \<and> (e = OutOfRounds \<longrightarrow> length (sm_rounds st') = length (sm_rounds st) + n)"
  using assms
proof (induction n ev st arbitrary: e st' rule: stream_rounds.induct)
  case (1 ev st)
  then show ?case by (auto dest: in_set_butlastD)
next
  case (2 n ev st)
  obtain r0 st1 where r0: "stream_round ev st = (r0, st1)" by fastforce
  then obtain r where r: "sm_rounds st1 = sm_rounds st @ [r]" "shown_ok ev r"
    "r0 = Some Answered \<longleftrightarrow> sr_deed r = Final" "r0 \<noteq> Some OutOfRounds" using stream_round_shown by blast
  show ?case
  proof (cases r0)
    case None
    have run: "stream_rounds n ev st1 = (e, st')" using 2(2) r0 None by simp
    have ok: "\<forall>q \<in> set (sm_rounds st1). shown_ok ev q \<and> sr_deed q \<noteq> Final" using 2(3) r None by auto
    have len: "length (sm_rounds st1) = Suc (length (sm_rounds st))" using r(1) by simp
    from 2(1) [OF r0 [symmetric] None run ok] show ?thesis unfolding len by simp
  next
    case (Some en)
    then have st: "st' = st1" "e = en" using 2(2) r0 by auto
    have "\<forall>q \<in> set (sm_rounds st'). shown_ok ev q" using 2(3) r(1,2) st(1) by auto
    moreover have "\<forall>q \<in> set (butlast (sm_rounds st')). sr_deed q \<noteq> Final" using 2(3) r(1) st(1) by simp
    moreover have "sm_rounds st' \<noteq> []" "last (sm_rounds st') = r" using r(1) st(1) by simp_all
    moreover have "e = Answered \<longleftrightarrow> sr_deed r = Final" "e \<noteq> OutOfRounds" using r(3,4) Some st(2) by simp_all
    moreover have "length (sm_rounds st') \<le> length (sm_rounds st) + Suc n" using r(1) st(1) by simp
    ultimately show ?thesis by simp
  qed
qed


text \<open>A model that streams prose in one delta and a tool call in the next, then dies on the second turn.\<close>

definition demo_say :: "nat say_fn" where
  "demo_say cfg convo w =
     (if w = 0 then ([replicate 80 (CHR ''a''), demo_text], False, w) else ([''b''], True, w))"

definition demo_stream :: "nat stream_env" where
  "demo_stream = \<lparr>se_py = demo_py, se_stmt = (\<lambda>b. False), se_json = (\<lambda>b. None), se_say = demo_say,
     se_tools = demo_tools\<rparr>"


text \<open>
  A call with a \<open>**\<close> argument is not caught: the keyword \<open>None\<close> is no name, the call of the tool
  raises before the tool's own handler is entered, and the exception leaves the stream.
\<close>

theorem starred_call_escapes:
  assumes "calls_in ev buf = c # cs" and "f_buf f = buf"
    and "resolve_tool (se_tools ev) (lc_name c) = Some t" and "None \<in> fst ` set (lc_kws c)"
  shows "fst (close_round ev st f) = Some CallCrashed"
  using assms by (simp add: close_round_def run_loose_def Let_def)

end
