(* ===== verification/OkfMem.thy ===== *)
theory OkfMem imports Slots "HOL-Library.Product_Lexorder" begin

text \<open>
  The content-addressed memory of \<open>tools/okf_mem.py\<close> with the class vocabulary of
  \<open>harness/skills/memclass.py\<close>. A store is the text of \<open>LUT.md\<close> and the texts of the files
  under \<open>sum/\<close> and \<open>full/\<close>, by address; \<open>index.md\<close>, which nothing reads, is left out. Reading a
  file turns every line end into a newline, as Python's text mode does. The digest (sha-256 as
  hexadecimal text) and the time stamp are parameters. What a command prints is not modelled, its
  exit code is.
\<close>

section \<open>The class vocabulary\<close>

definition REGISTRY :: "(string \<times> string) list" where
  "REGISTRY =
     [(''fact'', ''system''), (''preference'', ''system''), (''relationship'', ''system''), (''identity'', ''system''),
      (''event'', ''system''), (''private-secret'', ''attr-gate-strict''), (''counterfact'', ''systemecho''),
      (''same-template'', ''systemecho''), (''persona'', ''system''), (''episodic-event'', ''system''),
      (''self-fact'', ''recite'')]"

definition DELIVERIES :: "string list" where
  "DELIVERIES = [''attr-gate-strict'', ''systemecho'', ''two-stage'', ''recite'', ''system'', ''pass'']"

definition DECLINES :: "string list" where
  "DECLINES = [''attribute-absent'', ''family-ambiguous'', ''low-margin'', ''zero-inference'']"

definition CLASSES :: "string list" where
  "CLASSES = map fst REGISTRY"

definition delivery_for :: "string \<Rightarrow> string" where
  "delivery_for c = (case map_of REGISTRY c of Some d \<Rightarrow> d | None \<Rightarrow> ''system'')"

definition delivery_map :: "string list option \<Rightarrow> (string \<times> string) list" where
  "delivery_map cs =
     (case cs of None \<Rightarrow> REGISTRY
      | Some ks \<Rightarrow> concat (map (\<lambda>c. case map_of REGISTRY c of Some d \<Rightarrow> [(c, d)] | None \<Rightarrow> []) ks))"

text \<open>The sites that may emit a class.\<close>

definition PRODUCERS :: "(string \<times> string list) list" where
  "PRODUCERS =
     [(''fact'', [''lifecycle.classify'', ''recall.rs.classify_mem_class'']), (''preference'', [''lifecycle.classify'']),
      (''relationship'', [''lifecycle.classify'']), (''identity'', [''lifecycle.classify'']), (''event'', [''lifecycle.classify'']),
      (''private-secret'', [''lifecycle.classify'', ''recall.rs.classify_mem_class'', ''operator'']),
      (''counterfact'', [''operator'']), (''same-template'', [''operator'']), (''persona'', [''recall.rs.classify_mem_class'']),
      (''episodic-event'', [''operator'']), (''self-fact'', [''self_model.remember_self''])]"

definition producers_of :: "string \<Rightarrow> string list" where
  "producers_of c = (case map_of PRODUCERS c of Some ps \<Rightarrow> ps | None \<Rightarrow> [])"

definition produced_by :: "string \<Rightarrow> string list" where
  "produced_by site = map fst (filter (\<lambda>(c, ps). site \<in> set ps) PRODUCERS)"

definition MEM_VERIFIED :: "string list" where
  "MEM_VERIFIED = [''unverified'', ''verified'', ''contradicted'', ''rolled_back'']"

definition MEM_LIFECYCLE :: "string list" where
  "MEM_LIFECYCLE = [''active'', ''superseded'']"

definition LEGAL_VERIFIED :: "(string \<times> string list) list" where
  "LEGAL_VERIFIED =
     [(''unverified'', [''unverified'', ''verified'', ''contradicted'']),
      (''verified'', [''verified'', ''contradicted'', ''rolled_back'']),
      (''contradicted'', [''contradicted'', ''rolled_back'']),
      (''rolled_back'', [''rolled_back''])]"

definition legal_transition :: "string \<Rightarrow> string \<Rightarrow> bool" where
  "legal_transition a b \<longleftrightarrow> (case map_of LEGAL_VERIFIED a of None \<Rightarrow> False | Some bs \<Rightarrow> b \<in> set bs)"

section \<open>Front matter\<close>

datatype fmval = Txt string | Tags "string list"

definition fm_line :: "string \<times> fmval \<Rightarrow> string" where
  "fm_line kv = fst kv @ '': '' @ (case snd kv of Txt v \<Rightarrow> v | Tags ts \<Rightarrow> ''['' @ join '', '' ts @ '']'')"

definition RULE :: string where "RULE = ''---''"

definition fm_block :: "(string \<times> fmval) list \<Rightarrow> string" where
  "fm_block d = join nl (RULE # map fm_line d @ [RULE]) @ nl"

definition fm_entry :: "string \<Rightarrow> (string \<times> string) option" where
  "fm_entry l =
     (if CHR '':'' \<in> set l
      then Some (strip (takeWhile (\<lambda>c. c \<noteq> CHR '':'') l), strip (drop 1 (dropWhile (\<lambda>c. c \<noteq> CHR '':'') l)))
      else None)"

text \<open>A later line of a key replaces an earlier one: the pairs come last line first.\<close>

definition fm_entries :: "string list \<Rightarrow> (string \<times> string) list" where
  "fm_entries ls = rev (concat (map (\<lambda>l. case fm_entry l of None \<Rightarrow> [] | Some e \<Rightarrow> [e]) ls))"

definition parse_fm :: "string \<Rightarrow> (string \<times> string) list \<times> string" where
  "parse_fm text0 =
     (if startswith text0 (RULE @ nl)
      then (let rest = drop 4 text0 in
            case find_from (nl @ RULE) 0 rest of
              None \<Rightarrow> ([], text0)
            | Some i \<Rightarrow>
                (let b = drop (i + 4) rest
                 in (fm_entries (nl_lines (take i rest)), if startswith b nl then drop 1 b else b)))
      else ([], text0))"

definition fm_get :: "(string \<times> string) list \<Rightarrow> string \<Rightarrow> string option" where
  "fm_get fm k = map_of fm k"

section \<open>The store\<close>

type_synonym files = "(string \<times> string) list"

record okf =
  o_lut :: "string option"
  o_full :: files
  o_sum :: files

text \<open>Text mode: \<open>CR LF\<close> and \<open>CR\<close> are read as a newline.\<close>

definition as_read :: "string \<Rightarrow> string" where
  "as_read s = map (\<lambda>c. if c = CHR 0x0D then CHR 0x0A else c) (unix_lines s)"

fun put_file :: "string \<Rightarrow> string \<Rightarrow> files \<Rightarrow> files" where
  "put_file k v [] = [(k, v)]"
| "put_file k v ((k2, v2) # fs) = (if k2 = k then (k, v) # fs else (k2, v2) # put_file k v fs)"

definition LUT_HEADER :: string where
  "LUT_HEADER = ''| addr | kind | keys | summary | status | sum |'' @ nl @ ''|---|---|---|---|---|---|'' @ nl"

definition LUT_HEAD :: "string \<Rightarrow> string" where
  "LUT_HEAD now =
     fm_block [(''type'', Txt ''index''), (''title'', Txt ''MEM-OKF LUT (Tier-0, always-loadable)''),
       (''description'', Txt ''Keyword -> one-line agent-readable summary -> content address; follow addr to sum/ then full/.''),
       (''tags'', Tags [''mem-okf'', ''lut'', ''tier-0'', ''index'']), (''timestamp'', Txt now),
       (''resource'', Txt ''tools/okf_mem.py''), (''sp_status'', Txt ''ACTIVE''),
       (''sp_gate'', Txt ''G-MEM-OKF-CONFORM''), (''sp_commit'', Txt ''TBD''),
       (''sp_repro'', Txt ''python tools/okf_mem.py verify --root <root>'')]
     @ nl @ ''# MEM-OKF LUT'' @ nl @ nl
     @ ''Lookup up_to you build. `python tools/okf_mem.py lookup --root <root> <kw>`'' @ nl @ nl"

definition ensure_root :: "string \<Rightarrow> okf \<Rightarrow> okf" where
  "ensure_root now s =
     (case o_lut s of None \<Rightarrow> s\<lparr>o_lut := Some (LUT_HEAD now @ LUT_HEADER)\<rparr> | Some _ \<Rightarrow> s)"

definition strip_bars :: "string \<Rightarrow> string" where
  "strip_bars s = (let d = dropWhile (\<lambda>c. c = CHR ''|'') in rev (d (rev (d s))))"

definition lut_cells :: "string \<Rightarrow> string list" where
  "lut_cells l = map strip (split_on (\<lambda>c. c = CHR ''|'') (strip_bars (strip l)))"

definition lut_line :: "string \<Rightarrow> bool" where
  "lut_line l \<longleftrightarrow> startswith l ''|'' \<and> \<not> startswith l ''| addr'' \<and> \<not> startswith l ''|---''"

definition lut_rows :: "string \<Rightarrow> string list list" where
  "lut_rows txt = filter (\<lambda>r. length r = 6) (map lut_cells (filter lut_line (nl_lines txt)))"

definition row_line :: "string list \<Rightarrow> string" where
  "row_line r = ''| '' @ join '' | '' r @ '' |'' @ nl"

definition up_to :: "string \<Rightarrow> string \<Rightarrow> string" where
  "up_to p s = (case find_from p 0 s of None \<Rightarrow> s | Some i \<Rightarrow> take i s)"

definition write_lut :: "string \<Rightarrow> string list list \<Rightarrow> string" where
  "write_lut txt rows = up_to LUT_HEADER txt @ LUT_HEADER @ concat (map row_line rows)"

section \<open>add\<close>

datatype source = FullFile string | BlobRef string | Piped string | NoBody

text \<open>
  The policy fields exist on the arguments of the command line, and not on a namespace made by hand:
  \<open>None\<close> is a namespace without them, and reading one raises \<open>AttributeError\<close>.
\<close>

record policy =
  pl_class :: string
  pl_delivery :: string
  pl_authority :: string
  pl_retrieval :: string
  pl_decline :: string
  pl_message :: string
  pl_confidence :: "string option"

record add_args =
  aa_source :: source
  aa_addr :: string
  aa_kind :: string
  aa_keys :: string
  aa_summary :: string
  aa_title :: string
  aa_detail :: string
  aa_detail_file :: "string option"
  aa_status :: string
  aa_gate :: string
  aa_commit :: string
  aa_repro :: string
  aa_policy :: "policy option"
  aa_verified :: string
  aa_lifecycle :: string
  aa_links :: "(string \<times> string) list"

datatype exit_code = Exit nat | AttributeError

definition either :: "string \<Rightarrow> string \<Rightarrow> string" where
  "either a b = (if a \<noteq> [] then a else b)"

definition body_of :: "add_args \<Rightarrow> string option" where
  "body_of a =
     (case aa_source a of
        FullFile t \<Rightarrow> Some (as_read t)
      | BlobRef b \<Rightarrow>
          Some (''BLOB POINTER (Tier-2 = external payload)'' @ nl @ nl @ ''blob: '' @ b @ nl @ ''kind: '' @ aa_kind a @ nl
            @ ''Full context is the latent/binary payload at the blob path (Ring-2 / Optane). Address = C2 LSH signature / provided id.'' @ nl)
      | Piped t \<Rightarrow> Some (as_read t)
      | NoBody \<Rightarrow> None)"

definition delivery_of :: "policy \<Rightarrow> string" where
  "delivery_of p =
     either (pl_delivery p) (case map_of REGISTRY (pl_class p) of Some d \<Rightarrow> d | None \<Rightarrow> ''recite'')"

definition decline_of :: "policy \<Rightarrow> string" where
  "decline_of p =
     either (pl_decline p) (if pl_class p = ''private-secret'' then ''zero-inference,attribute-absent'' else [])"

definition retrieval_of :: "policy \<Rightarrow> string" where
  "retrieval_of p =
     (if pl_retrieval p \<noteq> [] then pl_retrieval p
      else if pl_class p = ''private-secret'' then ''exact-token'' else [])"

definition authority_of :: "policy \<Rightarrow> string" where
  "authority_of p =
     either (pl_authority p)
       (if pl_class p = ''private-secret'' then ''private''
        else if pl_class p \<in> {''counterfact'', ''same-template''} then ''overrides-prior'' else ''supplements'')"

definition policy_fields :: "policy \<Rightarrow> (string \<times> fmval) list" where
  "policy_fields p =
     (if pl_class p = [] then []
      else [(''mem_class'', Txt (pl_class p)), (''mem_delivery'', Txt (delivery_of p)),
            (''mem_authority'', Txt (authority_of p))]
        @ (if retrieval_of p \<noteq> [] then [(''mem_retrieval_key'', Txt (retrieval_of p))] else [])
        @ (if decline_of p \<noteq> []
           then [(''mem_decline_when'', Txt (decline_of p)),
                 (''mem_decline_message'', Txt (either (pl_message p)
                    ''I have a record for that entity, but it does not include that specific detail.''))]
           else [])
        @ (case pl_confidence p of None \<Rightarrow> [] | Some c \<Rightarrow> [(''mem_confidence'', Txt c)]))"

definition LINKS :: "string list" where
  "LINKS = [''mem_supersedes'', ''mem_superseded_by'', ''mem_contradicted_by'', ''mem_revises'']"

definition link_fields :: "add_args \<Rightarrow> (string \<times> fmval) list" where
  "link_fields a =
     concat (map (\<lambda>k. case map_of (aa_links a) k of
                       None \<Rightarrow> [] | Some v \<Rightarrow> if v = [] then [] else [(k, Txt v)]) LINKS)"

definition own_fields :: "string \<Rightarrow> string \<Rightarrow> add_args \<Rightarrow> (string \<times> fmval) list" where
  "own_fields now addr a =
     [(''type'', Txt ''memory''), (''title'', Txt (either (aa_title a) (take 60 (aa_summary a)))),
      (''description'', Txt (aa_summary a)), (''timestamp'', Txt now),
      (''resource'', Txt (either (aa_commit a) ''TBD'')), (''sp_status'', Txt (aa_status a)),
      (''sp_gate'', Txt (aa_gate a)), (''sp_commit'', Txt (either (aa_commit a) ''TBD'')),
      (''sp_repro'', Txt (either (aa_repro a) ''none'')), (''mem_kind'', Txt (aa_kind a)),
      (''mem_addr'', Txt addr)]"

definition axis_fields :: "add_args \<Rightarrow> (string \<times> fmval) list" where
  "axis_fields a =
     [(''mem_verified'', Txt (either (aa_verified a) ''unverified'')),
      (''mem_lifecycle'', Txt (either (aa_lifecycle a) ''active''))]"

definition common_fields :: "string \<Rightarrow> string \<Rightarrow> policy \<Rightarrow> add_args \<Rightarrow> (string \<times> fmval) list" where
  "common_fields now addr p a = own_fields now addr a @ policy_fields p @ axis_fields a @ link_fields a"

definition keys_tags :: "add_args \<Rightarrow> string \<Rightarrow> fmval" where
  "keys_tags a tier = Tags (split_on (\<lambda>c. c = CHR '','') (aa_keys a) @ [aa_kind a, tier])"

definition full_text :: "string \<Rightarrow> string \<Rightarrow> policy \<Rightarrow> add_args \<Rightarrow> string \<Rightarrow> string" where
  "full_text now addr p a body =
     fm_block (common_fields now addr p a @ [(''tags'', keys_tags a ''tier-2''), (''mem_tier'', Txt ''full'')])
     @ nl @ norm_body body"

definition detail_of :: "add_args \<Rightarrow> string" where
  "detail_of a =
     (if aa_detail a \<noteq> [] then aa_detail a
      else case aa_detail_file a of Some t \<Rightarrow> as_read t | None \<Rightarrow> aa_summary a)"

definition sum_text :: "string \<Rightarrow> string \<Rightarrow> policy \<Rightarrow> add_args \<Rightarrow> string" where
  "sum_text now addr p a =
     fm_block (common_fields now addr p a
       @ [(''tags'', keys_tags a ''tier-1''), (''mem_tier'', Txt ''summary''), (''mem_full'', Txt addr)])
     @ nl @ ''# '' @ either (aa_title a) (aa_summary a) @ nl @ nl @ norm_body (detail_of a)
     @ nl @ ''Full context: [full/'' @ addr @ ''.md](../full/'' @ addr @ ''.md)'' @ nl"

definition no_bars :: "string \<Rightarrow> string" where
  "no_bars s = strip (map (\<lambda>c. if c = CHR ''|'' then CHR ''/'' else c) s)"

definition lut_row :: "string \<Rightarrow> policy \<Rightarrow> add_args \<Rightarrow> string list" where
  "lut_row addr p a =
     [addr, aa_kind a, no_bars (aa_keys a),
      (if pl_class p \<noteq> [] then ''['' @ pl_class p @ ''/'' @ delivery_of p @ ''] '' @ no_bars (aa_summary a)
       else no_bars (aa_summary a)),
      aa_status a, ''sum/'' @ addr @ ''.md'']"

definition lut_of :: "okf \<Rightarrow> string" where
  "lut_of s = (case o_lut s of Some t \<Rightarrow> as_read t | None \<Rightarrow> [])"

definition cmd_add :: "(string \<Rightarrow> string) \<Rightarrow> string \<Rightarrow> add_args \<Rightarrow> okf \<Rightarrow> exit_code \<times> okf" where
  "cmd_add digest now a s0 =
     (let s = ensure_root now s0 in
      case body_of a of
        None \<Rightarrow> (Exit 2, s)
      | Some body \<Rightarrow>
          (case aa_policy a of
             None \<Rightarrow> (AttributeError, s)
           | Some p \<Rightarrow>
               if aa_verified a = ''verified'' then (Exit 2, s)
               else let addr = either (aa_addr a) (addr_of digest body);
                        rows = filter (\<lambda>r. hd r \<noteq> addr) (lut_rows (lut_of s))
                    in (Exit 0,
                        s\<lparr>o_full := put_file addr (full_text now addr p a body) (o_full s),
                          o_sum := put_file addr (sum_text now addr p a) (o_sum s),
                          o_lut := Some (write_lut (lut_of s) (rows @ [lut_row addr p a]))\<rparr>)))"

section \<open>lookup, expand and verify\<close>

text \<open>Without \<open>LUT.md\<close> both \<open>lookup\<close> and \<open>verify\<close> raise: \<open>None\<close>.\<close>

definition lut_hits :: "string \<Rightarrow> string \<Rightarrow> string list list" where
  "lut_hits query txt =
     (let q = lower query
      in filter (\<lambda>r. contains (lower (r ! 2)) q \<or> contains (lower (r ! 3)) q) (lut_rows txt))"

definition cmd_lookup :: "string \<Rightarrow> okf \<Rightarrow> string list list option" where
  "cmd_lookup query s = (case o_lut s of None \<Rightarrow> None | Some _ \<Rightarrow> Some (lut_hits query (lut_of s)))"

definition cmd_expand :: "bool \<Rightarrow> string \<Rightarrow> okf \<Rightarrow> exit_code \<times> string option" where
  "cmd_expand full addr s =
     (case map_of (if full then o_full s else o_sum s) addr of
        None \<Rightarrow> (Exit 2, None) | Some t \<Rightarrow> (Exit 0, Some (as_read t)))"

datatype okf_error =
    AddrDiffers string | BadVerified string | BadLifecycle string | NoSupersededBy string | NoContradictedBy string
  | Tampered string | BadClass string | BadDelivery string | LeakySecret string | SecretInfers string
  | BadDecline string string | SumUnresolved string | NoFull string | NoSum string | EmptyCells string

definition fget :: "(string \<times> string) list \<Rightarrow> string \<Rightarrow> string" where
  "fget fm k = (case fm_get fm k of Some v \<Rightarrow> v | None \<Rightarrow> [])"

definition decline_words :: "string \<Rightarrow> string list" where
  "decline_words dw =
     (let d = dropWhile (\<lambda>c. c = CHR ''['' \<or> c = CHR '']'')
      in filter (\<lambda>w. w \<noteq> []) (map strip (split_on (\<lambda>c. c = CHR '','') (rev (d (rev (d dw)))))))"

definition verify_policy :: "string \<Rightarrow> (string \<times> string) list \<Rightarrow> okf_error list" where
  "verify_policy addr fm =
     (let mc = fget fm ''mem_class''; dv = fget fm ''mem_delivery''; dw = fget fm ''mem_decline_when'' in
      if mc = [] then []
      else (if mc \<notin> set CLASSES then [BadClass addr] else [])
        @ (if dv \<noteq> [] \<and> dv \<notin> set DELIVERIES \<and> \<not> startswith dv ''route:'' then [BadDelivery addr] else [])
        @ (if mc = ''private-secret'' \<and> dv \<noteq> ''attr-gate-strict'' then [LeakySecret addr] else [])
        @ (if mc = ''private-secret'' \<and> \<not> contains dw ''zero-inference'' then [SecretInfers addr] else [])
        @ map (BadDecline addr) (filter (\<lambda>w. w \<notin> set DECLINES) (decline_words dw)))"

definition verify_full :: "(string \<Rightarrow> string) \<Rightarrow> string \<times> string \<Rightarrow> okf_error list" where
  "verify_full digest f =
     (let addr = fst f; (fm, body) = parse_fm (as_read (snd f));
          mv = fget fm ''mem_verified''; ml = fget fm ''mem_lifecycle''
      in (if fm_get fm ''mem_addr'' \<noteq> Some addr then [AddrDiffers addr] else [])
       @ (if mv \<noteq> [] \<and> mv \<notin> set MEM_VERIFIED then [BadVerified addr] else [])
       @ (if ml \<noteq> [] \<and> ml \<notin> set MEM_LIFECYCLE then [BadLifecycle addr] else [])
       @ (if ml = ''superseded'' \<and> fget fm ''mem_superseded_by'' = [] then [NoSupersededBy addr] else [])
       @ (if mv = ''contradicted'' \<and> fget fm ''mem_contradicted_by'' = [] then [NoContradictedBy addr] else [])
       @ (if fm_get fm ''mem_kind'' = Some ''agent'' \<and> addr_of digest body \<noteq> addr then [Tampered addr] else [])
       @ verify_policy addr fm)"

definition verify_sum :: "string set \<Rightarrow> string \<times> string \<Rightarrow> okf_error list" where
  "verify_sum fulls f =
     (case fm_get (fst (parse_fm (as_read (snd f)))) ''mem_full'' of
        Some a \<Rightarrow> if a \<in> fulls then [] else [SumUnresolved (fst f)]
      | None \<Rightarrow> [SumUnresolved (fst f)])"

definition verify_row :: "string set \<Rightarrow> string set \<Rightarrow> string list \<Rightarrow> okf_error list" where
  "verify_row fulls summaries r =
     (if hd r \<notin> fulls then [NoFull (hd r)] else [])
     @ (if hd r \<notin> summaries then [NoSum (hd r)] else [])
     @ (if r ! 2 = [] \<or> r ! 3 = [] then [EmptyCells (hd r)] else [])"

definition cmd_verify :: "(string \<Rightarrow> string) \<Rightarrow> okf \<Rightarrow> okf_error list option" where
  "cmd_verify digest s =
     (case o_lut s of None \<Rightarrow> None | Some _ \<Rightarrow> Some (let fulls = fst ` set (o_full s); summaries = fst ` set (o_sum s)
      in concat (map (verify_full digest) (o_full s)) @ concat (map (verify_sum fulls) (o_sum s))
       @ concat (map (verify_row fulls summaries) (lut_rows (lut_of s)))))"

section \<open>Is it a rebuild?\<close>

definition STOP_OKF :: "string set" where
  "STOP_OKF = set (py_split ''the a an of to in on and or is are be as it its for with by from that this than then so we our you your i at not no can will would could into over under out up if but which when where who what how all any each per via use used using'')"

definition okf_toks :: "string \<Rightarrow> string set" where
  "okf_toks t =
     set (filter (\<lambda>w. 3 \<le> length w \<and> w \<notin> STOP_OKF) (runs (\<lambda>c. is_lower c \<or> is_digit c) (lower t)))"

definition entry_tokens :: "okf \<Rightarrow> (string \<times> string set) list" where
  "entry_tokens s = map (\<lambda>(a, t). (a, okf_toks (snd (parse_fm (as_read t))))) (o_full s)"

datatype okf_verdict = Unknown | Retrieval | Derivation | Discovery

definition SP_TYPES :: "string list" where
  "SP_TYPES = [''research-paper'', ''paper-bite'', ''paper-provenance'', ''contract'', ''gate-receipt'',
     ''roadmap'', ''project-state'', ''session-handoff'', ''abi'', ''design'', ''runbook'', ''lesson'',
     ''convention'', ''foundation'', ''reference'', ''findings-ledger'', ''memory'', ''index'', ''log'']"

definition share :: "'a set \<Rightarrow> 'a set \<Rightarrow> rat" where
  "share a b = of_nat (card (a \<inter> b)) / of_nat (card a)"

text \<open>The tuples are sorted by coverage, overlap and address, greatest first.\<close>

definition coverages :: "string set \<Rightarrow> (string \<times> string set) list \<Rightarrow> (rat \<times> rat \<times> string \<times> string set) list" where
  "coverages cand ents =
     rev (sort_key (\<lambda>(c, j, a, t). (c, j, a))
       (map (\<lambda>(a, t). (share cand t, of_nat (card (cand \<inter> t)) / of_nat (card (cand \<union> t)), a, t)) ents))"

definition classify_body :: "(string \<Rightarrow> string) \<Rightarrow> nat \<Rightarrow> string option \<Rightarrow> string \<Rightarrow> okf \<Rightarrow> okf_verdict" where
  "classify_body digest topk declared raw s =
     (let (fm, body) = parse_fm raw; cand = okf_toks body;
          dtype = (case declared of Some d \<Rightarrow> d | None \<Rightarrow> fget fm ''type'')
      in if cand = {} then Unknown
         else let ents = entry_tokens s;
                  exact = (addr_of digest raw \<in> fst ` set ents \<or> addr_of digest body \<in> fst ` set ents);
                  sc = coverages cand ents;
                  best = (case sc of [] \<Rightarrow> 0 | (c, _) # _ \<Rightarrow> c);
                  residual = 1 - share cand (\<Union> (set (map (\<lambda>(c, j, a, t). t) (take topk sc))));
                  v = (if exact \<or> 55 / 100 \<le> best then Retrieval
                       else if 1 / 2 \<le> residual then Discovery else Derivation)
              in if dtype \<noteq> [] \<and> dtype \<notin> set SP_TYPES \<and> v \<noteq> Retrieval then Discovery else v)"

section \<open>Blocks in a shared file\<close>

definition marker_key :: "string \<Rightarrow> string" where
  "marker_key k =
     map (\<lambda>c. if is_wordc c \<or> c = CHR ''.'' \<or> c = CHR ''-'' then c else CHR ''_'') k"

definition start_mark :: "string \<Rightarrow> string" where
  "start_mark k = ''<!-- SP_GENERATED:'' @ marker_key k @ '':START -->''"

definition end_mark :: "string \<Rightarrow> string" where
  "end_mark k = ''<!-- SP_GENERATED:'' @ marker_key k @ '':END -->''"

definition block_of :: "string \<Rightarrow> string \<Rightarrow> string" where
  "block_of k content =
     start_mark k @ nl @ rev (dropWhile (\<lambda>c. c = CHR 0x0A) (rev content)) @ nl @ end_mark k"

definition appended :: "string \<Rightarrow> string \<Rightarrow> string \<Rightarrow> string" where
  "appended k content t =
     (if t = [] then block_of k content @ nl
      else t @ (if endswith t (nl @ nl) then [] else if endswith t nl then nl else nl @ nl)
             @ block_of k content @ nl)"

definition upsert_block :: "string \<Rightarrow> string \<Rightarrow> string \<Rightarrow> string" where
  "upsert_block k content t =
     (case (find_from (start_mark k) 0 t, find_from (end_mark k) 0 t) of
        (Some i, Some j) \<Rightarrow>
          if i < j then take i t @ block_of k content @ drop (j + length (end_mark k)) t
          else appended k content t
      | _ \<Rightarrow> appended k content t)"

text \<open>The commands over it; a file that is absent counts as empty.\<close>

definition cmd_upsert :: "string \<Rightarrow> string \<Rightarrow> string option \<Rightarrow> string" where
  "cmd_upsert k content file = upsert_block k content (case file of None \<Rightarrow> [] | Some t \<Rightarrow> as_read t)"

definition cmd_transition :: "string \<Rightarrow> string \<Rightarrow> exit_code" where
  "cmd_transition a b = Exit (if legal_transition a b then 0 else 1)"

definition cmd_classify ::
  "(string \<Rightarrow> string) \<Rightarrow> nat \<Rightarrow> string option \<Rightarrow> bool \<Rightarrow> string option \<Rightarrow> okf \<Rightarrow> exit_code \<times> okf_verdict option" where
  "cmd_classify digest topk declared strict input s =
     (case input of
        None \<Rightarrow> (Exit 2, None)
      | Some raw \<Rightarrow>
          let v = classify_body digest topk declared (as_read raw) s
          in (Exit (if strict \<and> v = Retrieval then 1 else 0), Some v))"

end
