(* ===== verification/PersonaLaws.thy ===== *)
theory PersonaLaws imports Persona begin

text \<open>
  The personality file reads back as it was written: the line splitter undoes the joining of clean
  lines, an entry line parses to its entry, and the prose above the block survives a write.
\<close>

section \<open>Lines\<close>

abbreviation clean_text :: "string \<Rightarrow> bool" where
  "clean_text l \<equiv> \<forall>c \<in> set l. \<not> is_break c"

definition unlines :: "string list \<Rightarrow> string" where
  "unlines ls = concat (map (\<lambda>l. l @ nl) ls)"

lemma unlines_simps [simp]:
  "unlines [] = []" "unlines (l # ls) = l @ nl @ unlines ls" "unlines (a @ b) = unlines a @ unlines b"
  by (simp_all add: unlines_def)

lemma join_unlines: "ls \<noteq> [] \<Longrightarrow> join nl ls @ nl = unlines ls"
proof (induction ls)
  case (Cons l ls)
  then show ?case by (cases ls) (auto simp: join_def)
qed simp

lemma break_space: "is_break c \<Longrightarrow> is_space c"
  by (auto simp: is_break_def is_space_def)

lemma line_of_clean: "clean_text l \<Longrightarrow> line_of (l @ nl @ s) = (l, s)"
  by (induction l) (auto simp: nl_def is_break_def code_def)

lemma line_of_last: "clean_text l \<Longrightarrow> line_of l = (l, [])"
  by (induction l) (auto simp: is_break_def)

lemma line_of_fst_clean: "clean_text (fst (line_of s))"
proof (induction s)
  case (Cons c s)
  then show ?case by (cases "line_of s") auto
qed simp

lemma splitlines_line:
  assumes "clean_text l"
  shows "splitlines (l @ nl @ s) = l # splitlines s"
proof -
  obtain c t where ct: "l @ nl @ s = c # t" by (cases "l @ nl @ s") (auto simp: nl_def)
  then have "splitlines (l @ nl @ s) = fst (line_of (l @ nl @ s)) # splitlines (snd (line_of (l @ nl @ s)))"
    by (simp del: line_of.simps)
  then show ?thesis by (simp only: line_of_clean [OF assms] fst_conv snd_conv)
qed

lemma splitlines_unlines: "\<forall>l \<in> set ls. clean_text l \<Longrightarrow> splitlines (unlines ls) = ls"
  by (induction ls) (simp_all add: splitlines_line)

lemma splitlines_clean: "l \<in> set (splitlines s) \<Longrightarrow> clean_text l"
proof (induction s rule: splitlines.induct)
  case (2 c s)
  then show ?case using line_of_fst_clean [of "c # s"] by (auto simp del: line_of.simps)
qed simp

section \<open>Entries\<close>

definition key_ok :: "string \<Rightarrow> bool" where
  "key_ok k \<longleftrightarrow> k \<noteq> [] \<and> strip k = k \<and> lower k = k \<and> CHR '':'' \<notin> set k \<and> hd k \<noteq> CHR ''-''
     \<and> \<not> startswith k ''## '' \<and> list_all (\<lambda>c. \<not> is_break c) k"

definition val_ok :: "string \<Rightarrow> bool" where
  "val_ok v \<longleftrightarrow> v \<noteq> [] \<and> strip v = v \<and> list_all (\<lambda>c. \<not> is_break c) v"

definition pstate_ok :: "pstate \<Rightarrow> bool" where
  "pstate_ok st \<longleftrightarrow> distinct (map fst st) \<and> list_all (\<lambda>(k, v). key_ok k \<and> val_ok v) st"

lemma strip_hd: "strip k = k \<Longrightarrow> k \<noteq> [] \<Longrightarrow> \<not> is_space (hd k)"
proof -
  assume s: "strip k = k" "k \<noteq> []"
  then obtain c t where k: "k = c # t" by (cases k) auto
  have "lstrip k = lstrip (strip k)" by (simp add: s)
  also have "\<dots> = strip k" unfolding strip_def by (rule lstrip_rstrip_id) (simp add: lstrip_def dropWhile_idem)
  finally have "lstrip k = k" by (simp add: s)
  then show ?thesis using lstrip_first [of k c t] by (simp add: k)
qed

lemma strip_rstrip: "strip k = k \<Longrightarrow> rstrip k = k"
  by (metis dropWhile_idem rev_rev_ident rstrip_def strip_def)

lemma strip_last: "strip k = k \<Longrightarrow> k \<noteq> [] \<Longrightarrow> \<not> is_space (last k)"
  using rstrip_last [of k "butlast k" "last k"] strip_rstrip [of k] by simp

lemma strip_fix: "s \<noteq> [] \<Longrightarrow> \<not> is_space (hd s) \<Longrightarrow> \<not> is_space (last s) \<Longrightarrow> strip s = s"
proof -
  assume s: "s \<noteq> []" "\<not> is_space (hd s)" "\<not> is_space (last s)"
  have "lstrip s = s" using s(1,2) by (cases s) (simp_all add: lstrip_def)
  moreover have "rstrip s = s" using s(1,3) by (cases s rule: rev_cases) (simp_all add: rstrip_def)
  ultimately show ?thesis by (simp add: strip_def)
qed

lemma strip_blank: "\<not> is_space (hd v) \<Longrightarrow> v \<noteq> [] \<Longrightarrow> strip ('' '' @ v) = strip v"
  by (cases v) (simp_all add: strip_def lstrip_def is_space_def code_def)

lemma split_at:
  assumes "c \<notin> set k"
  shows "takeWhile (\<lambda>x. x \<noteq> c) (k @ c # s) = k" "dropWhile (\<lambda>x. x \<noteq> c) (k @ c # s) = c # s"
  using assms by (induction k) auto

lemma entry_back:
  assumes "key_ok k" "val_ok v"
  shows "entry_of (k @ '': '' @ v) = Some (k, v)" and "\<not> is_heading (k @ '': '' @ v)"
    and "clean_text (k @ '': '' @ v)"
proof -
  let ?l = "k @ '': '' @ v"
  have k: "k \<noteq> []" "strip k = k" "lower k = k" "CHR '':'' \<notin> set k" "hd k \<noteq> CHR ''-''" "\<not> startswith k ''## ''"
    and v: "v \<noteq> []" "strip v = v" using assms by (simp_all add: key_ok_def val_ok_def)
  have h: "hd ?l = hd k" "last ?l = last v" using k(1) v(1) by simp_all
  have sl: "strip ?l = ?l"
    by (rule strip_fix) (use h strip_hd [OF k(2,1)] strip_last [OF v(2,1)] in simp_all)
  have d: "dropWhile (\<lambda>c. c = CHR ''-'') ?l = ?l" using k(1,5) by (cases k) simp_all
  have tk: "takeWhile (\<lambda>c. c \<noteq> CHR '':'') ?l = k" using split_at(1) [OF k(4)] by simp
  have dw: "drop 1 (dropWhile (\<lambda>c. c \<noteq> CHR '':'') ?l) = '' '' @ v" using split_at(2) [OF k(4)] by simp
  have sv: "strip ('' '' @ v) = v" using strip_blank [OF strip_hd [OF v(2,1)] v(1)] v(2) by simp
  have m: "CHR '':'' \<in> set ?l" by simp
  show "entry_of ?l = Some (k, v)"
    unfolding entry_of_def Let_def sl d
    unfolding sl tk dw sv k(2,3) using m k(1) v(1) by (simp only: if_True simp_thms if_P)
  have ls: "lstrip ?l = ?l" using k(1) strip_hd [OF k(2,1)] by (cases k) (simp_all add: lstrip_def)
  have "\<not> startswith ?l ''## ''"
  proof
    assume "startswith ?l ''## ''"
    then obtain t where t: "?l = ''## '' @ t" by (auto simp: startswith_iff)
    show False using k(6) t unfolding startswith_iff
      by (auto simp: append_eq_append_conv2 append_eq_Cons_conv Cons_eq_append_conv)
  qed
  then show "\<not> is_heading ?l" unfolding is_heading_def ls .
  show "clean_text ?l" using assms by (auto simp: key_ok_def val_ok_def list_all_iff is_break_def code_def)
qed

definition written :: "pstate \<Rightarrow> (string \<times> string) list" where
  "written st = map (\<lambda>k. (k, get_of k st)) (filter (\<lambda>k. get_of k st \<noteq> []) KNOWN)
     @ filter (\<lambda>(k, v). k \<notin> set KNOWN \<and> v \<noteq> []) st"

lemma state_lines_written: "state_lines st = map (\<lambda>(k, v). k @ '': '' @ v) (written st)"
  by (simp add: state_lines_def written_def comp_def)

lemma get_of_mem: "get_of k st \<noteq> [] \<Longrightarrow> (k, get_of k st) \<in> set st"
  by (auto simp: get_of_def split: option.splits dest: map_of_SomeD)

lemma written_ok: "pstate_ok st \<Longrightarrow> (k, v) \<in> set (written st) \<Longrightarrow> key_ok k \<and> val_ok v"
  by (auto simp: written_def pstate_ok_def list_all_iff dest: get_of_mem)

lemma written_keys: "pstate_ok st \<Longrightarrow> distinct (map fst (written st))"
proof -
  assume "pstate_ok st"
  then have d: "distinct (map fst (filter (\<lambda>(k, v). k \<notin> set KNOWN \<and> v \<noteq> []) st))"
    by (simp add: pstate_ok_def distinct_map_filter)
  have "distinct KNOWN" by code_simp
  then show ?thesis using d by (auto simp: written_def comp_def)
qed

lemma fold_update_map:
  "distinct (map fst es) \<Longrightarrow>
     map_of (fold (\<lambda>(k, v). AList.update k v) es m) = map_of m ++ map_of es"
proof (induction es arbitrary: m)
  case (Cons e es)
  obtain k v where e: "e = (k, v)" by (cases e)
  have "map_of es k = None" using Cons.prems by (simp add: e map_of_eq_None_iff)
  then show ?case using Cons by (auto simp: e update_conv' map_add_def fun_eq_iff split: option.split)
qed simp

lemma map_of_written: "pstate_ok st \<Longrightarrow> map_of (written st) k = map_of st k"
proof -
  assume ok: "pstate_ok st"
  have ne: "v \<noteq> []" if "(k, v) \<in> set st" for k v using that ok by (auto simp: pstate_ok_def list_all_iff val_ok_def)
  have d: "distinct (map fst st)" using ok by (simp add: pstate_ok_def)
  have "(k, v) \<in> set (written st) \<longleftrightarrow> (k, v) \<in> set st" for v
  proof
    assume "(k, v) \<in> set (written st)"
    then show "(k, v) \<in> set st" by (auto simp: written_def dest: get_of_mem)
  next
    assume m: "(k, v) \<in> set st"
    then have "get_of k st = v" using d by (simp add: get_of_def)
    then show "(k, v) \<in> set (written st)" using m ne [OF m] by (auto simp: written_def)
  qed
  then show ?thesis using map_of_eq_Some_iff [OF d] map_of_eq_Some_iff [OF written_keys [OF ok]]
    by (metis not_Some_eq)
qed

section \<open>The prose survives\<close>

definition header_free :: "string list \<Rightarrow> bool" where
  "header_free ls \<longleftrightarrow> (\<forall>l \<in> set ls. \<not> is_header l)"

lemma header_cong: "strip a = strip b \<Longrightarrow> is_header a = is_header b"
  by (simp add: is_header_def)

lemma header_free_lstrip: "header_free (nl_lines s) \<Longrightarrow> header_free (nl_lines (lstrip s))"
proof (induction s)
  case (Cons c s)
  obtain l ls where p: "nl_lines s = l # ls" by (cases "nl_lines s") auto
  show ?case
  proof (cases "is_space c")
    case True
    then have "header_free (nl_lines s)"
      using Cons.prems header_cong [OF strip_space_Cons [OF True, of l]]
      by (auto simp: nl_lines_Cons p header_free_def split: if_split_asm)
    then show ?thesis using Cons.IH True by (simp add: lstrip_def)
  qed (use Cons.prems in \<open>simp add: lstrip_def\<close>)
qed (simp add: lstrip_def)

lemma header_free_rstrip: "header_free (nl_lines s) \<Longrightarrow> header_free (nl_lines (rstrip s))"
proof (induction s rule: rev_induct)
  case (snoc c s)
  show ?case
  proof (cases "is_space c")
    case True
    have "is_header (last (nl_lines s) @ [c]) = is_header (last (nl_lines s))"
      by (rule header_cong [OF strip_space_snoc [OF True]])
    moreover have "set (nl_lines s) = insert (last (nl_lines s)) (set (butlast (nl_lines s)))"
      by (metis append_butlast_last_id list.simps(15) nl_lines_Nil(2) rotate1.simps(2) set_rotate1)
    ultimately have "header_free (nl_lines s)"
      using snoc.prems by (auto simp: nl_lines_snoc header_free_def split: if_split_asm)
    then show ?thesis using snoc.IH True by (simp add: rstrip_def)
  qed (use snoc.prems in \<open>simp add: rstrip_def\<close>)
qed (simp add: rstrip_def)

lemma parse_prose_ok:
  "header_free (fst (parse_lines inside ls)) \<and> set (fst (parse_lines inside ls)) \<subseteq> set ls"
proof (induction ls arbitrary: inside)
  case (Cons l ls)
  obtain p1 e1 where t: "parse_lines True ls = (p1, e1)" by fastforce
  obtain p2 e2 where f: "parse_lines False ls = (p2, e2)" by fastforce
  show ?case using Cons.IH [of True] Cons.IH [of False] by (auto simp: t f header_free_def)
qed (simp add: header_free_def)

lemma prose_chars: "c \<in> set (strip s) \<Longrightarrow> c \<in> set s"
  by (auto simp: strip_def rstrip_def lstrip_def dest!: set_dropWhileD)

lemma parsed_prose:
  assumes "fst (parse_persona t) = p"
  shows "strip p = p" and "header_free (nl_lines p)" and "\<forall>l \<in> set (nl_lines p). clean_text l"
proof -
  obtain ls es where pl: "parse_lines False (splitlines t) = (ls, es)" by fastforce
  then have p: "p = strip (join nl ls)" using assms by (simp add: parse_persona_def)
  show "strip p = p" by (simp add: p)
  have sub: "set ls \<subseteq> set (splitlines t)" "header_free ls" using parse_prose_ok [of False "splitlines t"] pl by simp_all
  have cl: "\<forall>l \<in> set ls. clean_text l" using sub splitlines_clean by blast
  have "CHR 0x0A \<notin> set l" if "l \<in> set ls" for l using cl that by (force simp: is_break_def code_def)
  then have "header_free (nl_lines (join nl ls))"
    using prose_join [of ls] sub(2) by (cases ls) (auto simp: join_def header_free_def is_header_def STATE_SECTION_def lower_def)
  then show "header_free (nl_lines p)" unfolding p strip_def by (intro header_free_rstrip header_free_lstrip)
  have "set (join nl ls) \<subseteq> insert (CHR 0x0A) (\<Union> (set ` set ls))" by (cases ls) (auto simp: join_def nl_def)
  then have brk: "c \<in> set (join nl ls) \<Longrightarrow> is_break c \<Longrightarrow> c = CHR 0x0A" for c
    using cl by blast
  show "\<forall>l \<in> set (nl_lines p). clean_text l"
  proof (intro ballI notI)
    fix l c assume l: "l \<in> set (nl_lines p)" "c \<in> set l" "is_break c"
    then have "c \<in> set p \<and> c \<noteq> CHR 0x0A" unfolding nl_lines_def by (blast dest: split_on_chars)
    then show False using brk l(3) prose_chars by (auto simp: p)
  qed
qed

section \<open>Write, then read\<close>

lemma parse_lines_prose:
  "header_free ls \<Longrightarrow> parse_lines False (ls @ more) = (ls @ fst (parse_lines False more), snd (parse_lines False more))"
  by (induction ls) (auto simp: header_free_def split: prod.splits)

lemma parse_lines_entries:
  "\<forall>(k, v) \<in> set es. key_ok k \<and> val_ok v \<Longrightarrow> parse_lines True (map (\<lambda>(k, v). k @ '': '' @ v) es) = ([], es)"
  by (induction es) (auto simp: entry_back simp del: append_Cons append_Nil split: prod.splits)

lemma write_read:
  assumes "pstate_ok st" "p = fst (parse_persona (case file of None \<Rightarrow> [] | Some t \<Rightarrow> t))"
  shows "parse_persona (write_state st file) = (p, fold (\<lambda>(k, v). AList.update k v) (written st) [])"
proof -
  note pp = parsed_prose [OF assms(2) [symmetric]]
  let ?es = "map (\<lambda>(k, v). k @ '': '' @ v) (written st)"
  have r: "rstrip p = p" by (rule strip_rstrip [OF pp(1)])
  have w: "write_state st file = unlines (nl_lines p @ [[]] @ STATE_SECTION # ?es)"
  proof -
    have "write_state st file = (join nl (nl_lines p) @ nl) @ nl @ join nl (STATE_SECTION # ?es) @ nl"
      by (simp add: write_state_def Let_def r assms(2) [symmetric] join_prose state_lines_written)
    then show ?thesis by (simp add: join_unlines)
  qed
  have es: "\<forall>(k, v) \<in> set (written st). key_ok k \<and> val_ok v" using written_ok [OF assms(1)] by blast
  have "\<forall>l \<in> set ?es. clean_text l" using es entry_back(3) by fastforce
  moreover have "clean_text STATE_SECTION" by (simp add: STATE_SECTION_def is_break_def code_def)
  ultimately have sp: "splitlines (write_state st file) = nl_lines p @ [[]] @ STATE_SECTION # ?es"
    unfolding w by (intro splitlines_unlines) (use pp(3) in auto)
  have h: "is_header STATE_SECTION" "\<not> is_header []" by code_simp+
  have pl: "parse_lines False (nl_lines p @ [[]] @ STATE_SECTION # ?es) = (nl_lines p @ [[]], written st)"
    using parse_lines_prose [OF pp(2)] parse_lines_entries [OF es] h by simp
  have "join nl (nl_lines p @ [[]]) = p @ nl"
    using join_prose [of p] by (cases "nl_lines p") (auto simp: join_def)
  moreover have "strip (p @ nl) = p" using strip_space_snoc [of "CHR 0x0A" p] pp(1) by (simp add: nl_def is_space_def code_def)
  ultimately show ?thesis unfolding parse_persona_def sp pl by simp
qed

lemma write_read_get:
  assumes "pstate_ok st"
  shows "get_of k (snd (parse_persona (write_state st file))) = get_of k st"
    and "fst (parse_persona (write_state st file)) = fst (parse_persona (case file of None \<Rightarrow> [] | Some t \<Rightarrow> t))"
  using write_read [OF assms refl] fold_update_map [OF written_keys [OF assms], of "[]"] map_of_written [OF assms, of k]
  by (simp_all add: get_of_def)

end
