(* ===== verification/OkfLaws.thy ===== *)
theory OkfLaws imports OkfMem PersonaLaws begin

text \<open>
  What \<open>add\<close> writes reads back: the front matter field by field, the body, and the rows of the LUT.
  From this: a store built by well-formed additions verifies, a stored body is never classified as
  new, and the block update is idempotent.
\<close>

section \<open>Text\<close>

lemma split_on_snoc: "P x \<Longrightarrow> split_on P (xs @ x # ys) = split_on P xs @ split_on P ys"
  by (induction xs) (auto split: list.splits)

lemma lines_append: "nl_lines (xs @ nl @ ys) = nl_lines xs @ nl_lines ys"
  by (simp add: nl_lines_def nl_def split_on_snoc)

lemma lines_one: "CHR 0x0A \<notin> set l \<Longrightarrow> nl_lines l = [l]"
  by (auto simp: nl_lines_def intro: split_on_none)

lemma unix_lines_id: "CHR 0x0D \<notin> set s \<Longrightarrow> unix_lines s = s"
  by (induction s rule: unix_lines.induct) auto

lemma as_read_id: "CHR 0x0D \<notin> set s \<Longrightarrow> as_read s = s"
  by (auto simp: as_read_def unix_lines_id intro!: map_idI)

lemma set_unix_lines: "set (unix_lines s) \<subseteq> insert (CHR 0x0A) (set s)"
  by (induction s rule: unix_lines.induct) auto

lemma as_read_no_cr [simp]: "CHR 0x0D \<notin> set (as_read s)"
  by (auto simp: as_read_def)

lemma set_strip: "set (strip s) \<subseteq> set s"
  by (auto dest: prose_chars)

lemma norm_body_idem: "CHR 0x0D \<notin> set b \<Longrightarrow> norm_body (nl @ norm_body b) = norm_body b"
proof -
  assume c: "CHR 0x0D \<notin> set b"
  have sp: "is_space (CHR 0x0A)" by (simp add: is_space_def code_def)
  have "CHR 0x0D \<notin> set (strip b)" using c set_strip by blast
  then have "unix_lines (nl @ strip b @ nl) = nl @ strip b @ nl" by (intro unix_lines_id) (auto simp: nl_def)
  moreover have "strip (nl @ strip b @ nl) = strip b"
    using strip_space_Cons [OF sp, of "strip b @ nl"] strip_space_snoc [OF sp, of "strip b"] by (simp add: nl_def)
  ultimately show ?thesis using c by (simp add: norm_body_def unix_lines_id)
qed

lemma find_first:
  "i \<le> length s \<Longrightarrow> startswith (drop i s) p \<Longrightarrow> \<forall>j < i. \<not> startswith (drop j s) p \<Longrightarrow> find_from p 0 s = Some i"
proof -
  assume a: "i \<le> length s" "startswith (drop i s) p" "\<forall>j < i. \<not> startswith (drop j s) p"
  show ?thesis
  proof (cases "find_from p 0 s")
    case None
    then show ?thesis using find_from_None [of p 0 s i] a by simp
  next
    case (Some k)
    have k: "startswith (drop k s) p" using Some find_at_Some [of p 0 s k] by (simp add: find_from_def)
    have "\<forall>j < k. \<not> startswith (drop j s) p" using find_from_Some [OF Some] by simp
    then have "k = i" using a k by (metis linorder_neqE_nat)
    then show ?thesis using Some by simp
  qed
qed

section \<open>Front matter\<close>

definition fm_line_ok :: "string \<Rightarrow> bool" where
  "fm_line_ok l \<longleftrightarrow> l \<noteq> [] \<and> hd l \<noteq> CHR ''-'' \<and> CHR 0x0A \<notin> set l"

lemma find_skip: "CHR 0x0A \<notin> set l \<Longrightarrow> find_at (nl @ q) i (l @ s) = find_at (nl @ q) (i + length l) s"
proof (induction l arbitrary: i)
  case (Cons c l)
  then have "\<not> startswith (c # l @ s) (nl @ q)" by (auto simp: startswith_def nl_def)
  then show ?case using Cons by simp
qed simp

lemma find_rule:
  "\<forall>l \<in> set (l # ls). fm_line_ok l \<Longrightarrow>
   find_at (nl @ RULE) i (join nl (l # ls) @ nl @ RULE @ t) = Some (i + length (join nl (l # ls)))"
proof (induction ls arbitrary: l i)
  case Nil
  have "startswith (nl @ RULE @ t) (nl @ RULE)" by (simp add: startswith_def)
  then have "find_at (nl @ RULE) k (nl @ RULE @ t) = Some k" for k by (simp add: nl_def)
  then show ?case using Nil find_skip [of l RULE i "nl @ RULE @ t"] by (simp add: join_def fm_line_ok_def)
next
  case (Cons m ms)
  have j: "join nl (l # m # ms) = l @ nl @ join nl (m # ms)" by (simp add: join_def)
  obtain c u where m: "m = c # u" "c \<noteq> CHR ''-''" using Cons.prems by (cases m) (auto simp: fm_line_ok_def)
  obtain v where v: "join nl (m # ms) = c # v" by (auto simp: join_def m)
  have "\<not> startswith (nl @ (c # v) @ x) (nl @ RULE)" for x
    using m(2) by (simp add: startswith_def nl_def RULE_def)
  then have "\<not> startswith (nl @ join nl (m # ms) @ nl @ RULE @ t) (nl @ RULE)" by (simp only: v not_False_eq_True)
  then have "find_at (nl @ RULE) k (nl @ join nl (m # ms) @ nl @ RULE @ t)
      = find_at (nl @ RULE) (Suc k) (join nl (m # ms) @ nl @ RULE @ t)" for k
    by (simp add: nl_def)
  moreover have "find_at (nl @ RULE) i (join nl (l # m # ms) @ nl @ RULE @ t)
      = find_at (nl @ RULE) (i + length l) (nl @ join nl (m # ms) @ nl @ RULE @ t)"
    unfolding j append_assoc using Cons.prems by (intro find_skip) (simp add: fm_line_ok_def)
  moreover have "find_at (nl @ RULE) (Suc (i + length l)) (join nl (m # ms) @ nl @ RULE @ t)
      = Some (Suc (i + length l) + length (join nl (m # ms)))"
    using Cons.IH [of m] Cons.prems by simp
  moreover have "length (join nl (l # m # ms)) = length l + 1 + length (join nl (m # ms))"
    using arg_cong [OF j, of length] by (simp add: nl_def)
  ultimately show ?case by simp
qed

lemma parse_fm_block:
  assumes "d \<noteq> []" and "\<forall>kv \<in> set d. fm_line_ok (fm_line kv)"
  shows "parse_fm (fm_block d @ t) = (fm_entries (map fm_line d), t)"
proof -
  obtain l ls where ls: "map fm_line d = l # ls" using assms(1) by (cases d) auto
  have ok: "\<forall>l \<in> set (l # ls). fm_line_ok l" using assms(2) unfolding ls [symmetric] by simp
  have blk: "fm_block d = RULE @ nl @ join nl (l # ls) @ nl @ RULE @ nl"
    by (simp add: fm_block_def join_def ls)
  have lines: "nl_lines (join nl (l # ls)) = l # ls"
    using ok by (intro prose_join) (auto simp: fm_line_ok_def)
  define body where "body = join nl (l # ls)"
  have st: "startswith (RULE @ nl @ x) (RULE @ nl)" for x by (simp add: startswith_def)
  have dr: "drop 4 (RULE @ nl @ x) = x" for x by (simp add: RULE_def nl_def)
  have fd: "find_from (nl @ RULE) 0 (body @ nl @ RULE @ nl @ t) = Some (length body)"
    using find_rule [OF ok, of 0 "nl @ t"] by (simp add: find_from_def body_def)
  have d4: "drop (length body + 4) (body @ nl @ RULE @ nl @ t) = nl @ t" by (simp add: RULE_def nl_def)
  have sn: "startswith (nl @ t) nl" "drop 1 (nl @ t) = t" by (simp_all add: startswith_def nl_def)
  have tb: "take (length body) (body @ nl @ RULE @ nl @ t) = body" by simp
  have ft: "fm_block d @ t = RULE @ nl @ body @ nl @ RULE @ nl @ t" by (simp add: blk body_def)
  show ?thesis
    unfolding parse_fm_def ft if_P [OF st] Let_def dr fd option.case d4 tb if_P [OF sn(1)] sn(2)
    by (simp add: body_def lines ls)
qed


text \<open>Keys: no colon, no outer blanks. A value comes back without its outer blanks.\<close>

definition fm_key :: "string \<Rightarrow> bool" where
  "fm_key k \<longleftrightarrow> strip k = k \<and> CHR '':'' \<notin> set k"

lemma fm_entry_line:
  "fm_key k \<Longrightarrow> fm_entry (k @ '': '' @ v) = Some (k, strip v)"
proof -
  assume k: "fm_key k"
  have "takeWhile (\<lambda>c. c \<noteq> CHR '':'') (k @ '': '' @ v) = k" "dropWhile (\<lambda>c. c \<noteq> CHR '':'') (k @ '': '' @ v) = '': '' @ v"
    using k by (auto simp: fm_key_def takeWhile_append dropWhile_append)
  moreover have "strip (CHR '' '' # v) = strip v" by (rule strip_space_Cons) (simp add: is_space_def code_def)
  ultimately show ?thesis using k by (simp add: fm_entry_def fm_key_def)
qed

definition fm_text :: "fmval \<Rightarrow> string" where
  "fm_text v = (case v of Txt t \<Rightarrow> t | Tags ts \<Rightarrow> ''['' @ join '', '' ts @ '']'')"

lemma fm_entries_map:
  "\<forall>kv \<in> set d. fm_key (fst kv) \<Longrightarrow>
     fm_entries (map fm_line d) = rev (map (\<lambda>(k, v). (k, strip (fm_text v))) d)"
proof -
  assume k: "\<forall>kv \<in> set d. fm_key (fst kv)"
  have "(case fm_entry (fm_line kv) of None \<Rightarrow> [] | Some e \<Rightarrow> [e]) = [(\<lambda>(k, v). (k, strip (fm_text v))) kv]"
    if "kv \<in> set d" for kv
    using fm_entry_line [of "fst kv" "fm_text (snd kv)"] k that
    by (cases kv) (auto simp: fm_line_def fm_text_def)
  then have "concat (map (\<lambda>l. case fm_entry l of None \<Rightarrow> [] | Some e \<Rightarrow> [e]) (map fm_line d))
      = map (\<lambda>(k, v). (k, strip (fm_text v))) d"
    by (induction d) auto
  then show ?thesis by (simp add: fm_entries_def)
qed

lemma map_of_rev: "distinct (map fst m) \<Longrightarrow> map_of (rev m) = map_of m"
  by (intro map_of_inject_set [THEN iffD2]) (simp_all add: rev_map [symmetric])

lemma fm_get_back:
  assumes "\<forall>kv \<in> set d. fm_key (fst kv)" and "distinct (map fst d)"
  shows "fm_get (fm_entries (map fm_line d)) k = map_option (\<lambda>v. strip (fm_text v)) (map_of d k)"
proof -
  let ?m = "map (\<lambda>(k, v). (k, strip (fm_text v))) d"
  have "map fst ?m = map fst d" by (induction d) auto
  then have "distinct (map fst ?m)" by (simp only: assms(2))
  then have "map_of (rev ?m) = map_of ?m" by (rule map_of_rev)
  moreover have "map_of ?m k = map_option (\<lambda>v. strip (fm_text v)) (map_of d k)"
    by (induction d) auto
  ultimately show ?thesis by (simp add: fm_get_def fm_entries_map [OF assms(1)])
qed


section \<open>The LUT\<close>

definition cell_text :: "string \<Rightarrow> bool" where
  "cell_text c \<longleftrightarrow> strip c = c \<and> CHR ''|'' \<notin> set c \<and> CHR 0x0A \<notin> set c \<and> CHR 0x0D \<notin> set c"

definition lut_row_ok :: "string list \<Rightarrow> bool" where
  "lut_row_ok r \<longleftrightarrow> length r = 6 \<and> (\<forall>c \<in> set r. cell_text c) \<and> \<not> startswith (hd r) ''addr''"

definition bare_line :: "string list \<Rightarrow> string" where
  "bare_line r = ''| '' @ join '' | '' r @ '' |''"

lemma row_line_bare: "row_line r = bare_line r @ nl"
  by (simp add: row_line_def bare_line_def)

lemma set_join: "set (join sep ws) \<subseteq> set sep \<union> \<Union> (set ` set ws)"
  by (auto simp: join_def split: list.splits)

lemma join_Cons: "ws \<noteq> [] \<Longrightarrow> join sep (w # ws) = w @ sep @ join sep ws"
  by (cases ws) (simp_all add: join_def)

lemma split_bars:
  "r \<noteq> [] \<Longrightarrow> \<forall>c \<in> set r. CHR ''|'' \<notin> set c \<Longrightarrow>
   split_on (\<lambda>c. c = CHR ''|'') ('' '' @ join '' | '' r @ '' '') = map (\<lambda>c. '' '' @ c @ '' '') r"
proof (induction r)
  case (Cons c r)
  show ?case
  proof (cases "r = []")
    case True
    have "split_on (\<lambda>c. c = CHR ''|'') ('' '' @ c @ '' '') = ['' '' @ c @ '' '']"
      by (rule split_on_none) (use Cons.prems in auto)
    then show ?thesis by (simp add: True join_def)
  next
    case False
    let ?P = "\<lambda>c. c = CHR ''|''"
    have a: "'' '' @ join '' | '' (c # r) @ '' '' = ('' '' @ c @ '' '') @ CHR ''|'' # ('' '' @ join '' | '' r @ '' '')"
      by (simp add: join_Cons [OF False])
    have b: "split_on ?P ('' '' @ c @ '' '') = ['' '' @ c @ '' '']"
      by (rule split_on_none) (use Cons.prems in auto)
    have "split_on ?P (('' '' @ c @ '' '') @ CHR ''|'' # ('' '' @ join '' | '' r @ '' ''))
        = split_on ?P ('' '' @ c @ '' '') @ split_on ?P ('' '' @ join '' | '' r @ '' '')"
      by (rule split_on_snoc) simp
    moreover have "split_on ?P ('' '' @ join '' | '' r @ '' '') = map (\<lambda>c. '' '' @ c @ '' '') r"
      using Cons.IH [OF False] Cons.prems(2) by simp
    ultimately show ?thesis unfolding a b by simp
  qed
qed simp

lemma strip_bare: "strip (bare_line r) = bare_line r"
  by (intro strip_ends_id) (simp_all add: bare_line_def is_space_def code_def)

lemma strip_bars_bare: "strip_bars (bare_line r) = '' '' @ join '' | '' r @ '' ''"
proof -
  have "rev (bare_line r) = CHR ''|'' # CHR '' '' # rev ('' '' @ join '' | '' r) @ [CHR ''|'']"
    by (simp add: bare_line_def)
  then show ?thesis by (simp add: strip_bars_def bare_line_def Let_def)
qed

lemma lut_cells_bare:
  "r \<noteq> [] \<Longrightarrow> \<forall>c \<in> set r. cell_text c \<Longrightarrow> lut_cells (bare_line r) = r"
proof -
  assume r: "r \<noteq> []" "\<forall>c \<in> set r. cell_text c"
  have sp: "is_space (CHR '' '')" by (simp add: is_space_def code_def)
  have "strip ('' '' @ c @ '' '') = c" if "c \<in> set r" for c
    using strip_space_Cons [OF sp, of "c @ '' ''"] strip_space_snoc [OF sp, of c] r(2) that
    by (simp add: cell_text_def)
  then show ?thesis
    using split_bars [OF r(1)] r(2)
    by (simp add: lut_cells_def strip_bare strip_bars_bare cell_text_def map_idI del: append_Cons append_Nil)
qed

lemma startswith_blank: "CHR '' '' \<notin> set w \<Longrightarrow> startswith (x @ CHR '' '' # y) w \<Longrightarrow> startswith x w"
proof -
  assume w: "CHR '' '' \<notin> set w" "startswith (x @ CHR '' '' # y) w"
  then have t: "take (length w) (x @ CHR '' '' # y) = w" by (simp add: startswith_def)
  have "length w \<le> length x"
  proof (rule ccontr)
    assume "\<not> length w \<le> length x"
    then have "length w - length x = Suc (length w - length x - 1)" by simp
    then have "CHR '' '' \<in> set (take (length w - length x) (CHR '' '' # y))" by (metis list.set_intros(1) take_Suc_Cons)
    then have "CHR '' '' \<in> set w" using t by (metis Un_iff set_append take_append)
    with w(1) show False by simp
  qed
  with t show ?thesis by (simp add: startswith_def)
qed

lemma lut_line_bare: "lut_row_ok r \<Longrightarrow> lut_line (bare_line r)"
proof -
  assume ok: "lut_row_ok r"
  then obtain c rs where r: "r = c # rs" "rs \<noteq> []" by (cases r; cases "tl r") (auto simp: lut_row_ok_def)
  have "bare_line r = CHR ''|'' # CHR '' '' # c @ CHR '' '' # (CHR ''|'' # CHR '' '' # join '' | '' rs @ '' |'')"
    by (simp add: bare_line_def r join_Cons)
  moreover have "\<not> startswith (c @ CHR '' '' # y) ''addr''" for y
    using startswith_blank [of "''addr''" c y] ok r(1) by (auto simp: lut_row_ok_def)
  ultimately show ?thesis by (simp add: lut_line_def startswith_def)
qed

lemma bare_no_nl: "lut_row_ok r \<Longrightarrow> CHR 0x0A \<notin> set (bare_line r) \<and> CHR 0x0D \<notin> set (bare_line r)"
  using set_join [of "'' | ''" r] by (auto simp: bare_line_def lut_row_ok_def cell_text_def)

lemma lines_rows:
  "\<forall>r \<in> set rows. lut_row_ok r \<Longrightarrow> nl_lines (concat (map row_line rows)) = map bare_line rows @ [[]]"
proof (induction rows)
  case (Cons r rows)
  have "nl_lines (bare_line r @ nl @ concat (map row_line rows)) = nl_lines (bare_line r) @ nl_lines (concat (map row_line rows))"
    by (rule lines_append)
  moreover have "nl_lines (bare_line r) = [bare_line r]" using Cons.prems bare_no_nl by (intro lines_one) simp
  ultimately show ?case using Cons by (simp add: row_line_bare [of r])
qed simp

definition lut_text :: "string \<Rightarrow> string list list \<Rightarrow> string" where
  "lut_text head rows = head @ LUT_HEADER @ concat (map row_line rows)"

definition head_ok :: "string \<Rightarrow> bool" where
  "head_ok h \<longleftrightarrow> CHR ''|'' \<notin> set h \<and> (h = [] \<or> last h = CHR 0x0A)"

lemma lut_rows_text:
  assumes "head_ok h" and "\<forall>r \<in> set rows. lut_row_ok r"
  shows "lut_rows (lut_text h rows) = rows"
proof -
  define A where "A = ''| addr | kind | keys | summary | status | sum |''"
  define B where "B = ''|---|---|---|---|---|---|''"
  have "CHR 0x0A \<notin> set A" "CHR 0x0A \<notin> set B" by (simp_all add: A_def B_def)
  then have one: "nl_lines A = [A]" "nl_lines B = [B]" by (simp_all add: lines_one)
  have hd: "LUT_HEADER @ X = A @ nl @ B @ nl @ X" for X by (simp add: LUT_HEADER_def A_def B_def)
  have "nl_lines (LUT_HEADER @ concat (map row_line rows)) = A # B # map bare_line rows @ [[]]"
    unfolding hd lines_append one lines_rows [OF assms(2)] by simp
  moreover have "filter lut_line (map bare_line rows) = map bare_line rows"
    using assms(2) lut_line_bare by (simp add: filter_id_conv)
  moreover have "\<not> lut_line A" "\<not> lut_line B" "\<not> lut_line []"
    by (simp_all add: lut_line_def startswith_def A_def B_def)
  ultimately have body: "filter lut_line (nl_lines (LUT_HEADER @ concat (map row_line rows))) = map bare_line rows"
    by simp
  have nobar: "filter lut_line (nl_lines g) = []" if "CHR ''|'' \<notin> set g" for g
  proof -
    have nb: "CHR ''|'' \<notin> set l" if "l \<in> set (nl_lines g)" for l
      using that \<open>CHR ''|'' \<notin> set g\<close> unfolding nl_lines_def by (auto dest: split_on_chars)
    then have "\<not> lut_line l" if "l \<in> set (nl_lines g)" for l
      using nb [OF that] by (cases l) (auto simp: lut_line_def startswith_def)
    then show ?thesis by (simp add: filter_empty_conv)
  qed
  have all: "filter lut_line (nl_lines (lut_text h rows)) = map bare_line rows"
  proof (cases "h = []")
    case False
    then have "h = butlast h @ nl" using assms(1) by (metis append_butlast_last_id head_ok_def nl_def)
    then have "lut_text h rows = butlast h @ nl @ LUT_HEADER @ concat (map row_line rows)"
      unfolding lut_text_def by (metis append_assoc)
    then have "nl_lines (lut_text h rows) = nl_lines (butlast h) @ nl_lines (LUT_HEADER @ concat (map row_line rows))"
      by (simp only: lines_append)
    moreover have "CHR ''|'' \<notin> set (butlast h)" using assms(1) by (auto simp: head_ok_def dest: in_set_butlastD)
    ultimately show ?thesis using body nobar by simp
  qed (use body in \<open>simp add: lut_text_def\<close>)
  have "map (lut_cells \<circ> bare_line) rows = rows"
    using assms(2) by (intro map_idI) (auto simp: lut_row_ok_def intro!: lut_cells_bare)
  then show ?thesis using assms(2) by (simp add: lut_rows_def all lut_row_ok_def filter_id_conv)
qed

lemma before_header:
  assumes "CHR ''|'' \<notin> set h"
  shows "up_to LUT_HEADER (h @ LUT_HEADER @ X) = h"
proof -
  have "find_from LUT_HEADER 0 (h @ LUT_HEADER @ X) = Some (length h)"
  proof (rule find_first)
    show "\<forall>j < length h. \<not> startswith (drop j (h @ LUT_HEADER @ X)) LUT_HEADER"
    proof (intro allI impI)
      fix j assume "j < length h"
      then obtain c u where "drop j h = c # u" "c \<in> set h" by (metis Cons_nth_drop_Suc nth_mem)
      then show "\<not> startswith (drop j (h @ LUT_HEADER @ X)) LUT_HEADER"
        using assms \<open>j < length h\<close> by (auto simp: startswith_def LUT_HEADER_def)
    qed
  qed simp_all
  then show ?thesis by (simp add: up_to_def)
qed

lemma write_lut_text: "head_ok h \<Longrightarrow> write_lut (lut_text h rows) rows2 = lut_text h rows2"
  using before_header [of h] by (simp add: write_lut_def lut_text_def head_ok_def)


section \<open>A well-formed command line\<close>

definition flat :: "string \<Rightarrow> bool" where
  "flat t \<longleftrightarrow> CHR 0x0A \<notin> set t \<and> CHR 0x0D \<notin> set t"

definition addr_ok :: "string \<Rightarrow> bool" where
  "addr_ok x \<longleftrightarrow> cell_text x \<and> x \<noteq> [] \<and> \<not> startswith x ''addr''"

definition policy_ok :: "policy \<Rightarrow> bool" where
  "policy_ok p \<longleftrightarrow>
     (\<forall>t \<in> {pl_authority p, pl_retrieval p, pl_decline p, pl_message p}. flat t)
     \<and> (case pl_confidence p of None \<Rightarrow> True | Some c \<Rightarrow> flat c)
     \<and> (pl_class p = [] \<or> pl_class p \<in> set CLASSES)
     \<and> cell_text (pl_delivery p)
     \<and> (pl_delivery p = [] \<or> pl_delivery p \<in> set DELIVERIES \<or> startswith (pl_delivery p) ''route:'')
     \<and> strip (pl_decline p) = pl_decline p \<and> set (decline_words (pl_decline p)) \<subseteq> set DECLINES
     \<and> (pl_class p = ''private-secret'' \<longrightarrow> pl_delivery p \<in> {[], ''attr-gate-strict''}
          \<and> (pl_decline p = [] \<or> contains (pl_decline p) ''zero-inference''))"

definition has_link :: "add_args \<Rightarrow> string \<Rightarrow> bool" where
  "has_link a k \<longleftrightarrow> (case map_of (aa_links a) k of None \<Rightarrow> False | Some v \<Rightarrow> strip v \<noteq> [])"

definition add_ok :: "add_args \<Rightarrow> bool" where
  "add_ok a \<longleftrightarrow>
     (case aa_policy a of None \<Rightarrow> False | Some p \<Rightarrow> policy_ok p)
     \<and> (case aa_source a of NoBody \<Rightarrow> False | BlobRef b \<Rightarrow> flat b | _ \<Rightarrow> True)
     \<and> (\<forall>t \<in> {aa_keys a, aa_summary a, aa_title a, aa_gate a, aa_commit a, aa_repro a}. flat t)
     \<and> (\<forall>t \<in> snd ` set (aa_links a). flat t)
     \<and> aa_kind a \<in> {''agent'', ''episode''} \<and> cell_text (aa_status a)
     \<and> strip (aa_keys a) \<noteq> [] \<and> strip (aa_summary a) \<noteq> []
     \<and> (aa_addr a = [] \<or> aa_kind a = ''episode'' \<and> addr_ok (aa_addr a))
     \<and> aa_verified a \<in> {[], ''unverified'', ''contradicted'', ''rolled_back''}
     \<and> (aa_verified a = ''contradicted'' \<longrightarrow> has_link a ''mem_contradicted_by'')
     \<and> aa_lifecycle a \<in> {[], ''active'', ''superseded''}
     \<and> (aa_lifecycle a = ''superseded'' \<longrightarrow> has_link a ''mem_superseded_by'')"

definition FIELDS :: "string list" where
  "FIELDS = [''type'', ''title'', ''description'', ''timestamp'', ''resource'', ''sp_status'', ''sp_gate'', ''sp_commit'',
     ''sp_repro'', ''mem_kind'', ''mem_addr'', ''mem_class'', ''mem_delivery'', ''mem_authority'', ''mem_retrieval_key'',
     ''mem_decline_when'', ''mem_decline_message'', ''mem_confidence'', ''mem_verified'', ''mem_lifecycle'',
     ''mem_supersedes'', ''mem_superseded_by'', ''mem_contradicted_by'', ''mem_revises'', ''tags'', ''mem_tier'', ''mem_full'']"

lemma FIELDS_ok: "\<forall>k \<in> set FIELDS. fm_key k \<and> k \<noteq> [] \<and> hd k \<noteq> CHR ''-'' \<and> flat k" "distinct FIELDS"
proof -
  have "list_all (\<lambda>k. strip k = k \<and> CHR '':'' \<notin> set k \<and> k \<noteq> [] \<and> hd k \<noteq> CHR ''-'' \<and> CHR 0x0A \<notin> set k
      \<and> CHR 0x0D \<notin> set k) FIELDS"
    by code_simp
  then show "\<forall>k \<in> set FIELDS. fm_key k \<and> k \<noteq> [] \<and> hd k \<noteq> CHR ''-'' \<and> flat k"
    by (simp add: list_all_iff fm_key_def flat_def)
  show "distinct FIELDS" by code_simp
qed

lemma link_fields_keys: "subseq (map fst (link_fields a)) LINKS"
proof -
  have "subseq (map fst (concat (map (\<lambda>k. case map_of (aa_links a) k of None \<Rightarrow> []
      | Some v \<Rightarrow> if v = [] then [] else [(k, Txt v)]) ks))) ks" for ks
    by (induction ks) (auto split: option.splits)
  then show ?thesis by (simp add: link_fields_def)
qed

lemma policy_fields_keys:
  "subseq (map fst (policy_fields p)) [''mem_class'', ''mem_delivery'', ''mem_authority'', ''mem_retrieval_key'',
     ''mem_decline_when'', ''mem_decline_message'', ''mem_confidence'']"
  by (simp add: policy_fields_def split: option.splits)

lemma common_fields_keys:
  "subseq (map fst (common_fields now addr p a @ [(''tags'', u), (''mem_tier'', v)])) FIELDS"
  "subseq (map fst (common_fields now addr p a @ [(''tags'', u), (''mem_tier'', v), (''mem_full'', w)])) FIELDS"
proof -
  have F: "FIELDS = [''type'', ''title'', ''description'', ''timestamp'', ''resource'', ''sp_status'', ''sp_gate'', ''sp_commit'',
     ''sp_repro'', ''mem_kind'', ''mem_addr''] @ [''mem_class'', ''mem_delivery'', ''mem_authority'', ''mem_retrieval_key'',
     ''mem_decline_when'', ''mem_decline_message'', ''mem_confidence''] @ [''mem_verified'', ''mem_lifecycle''] @ LINKS
     @ [''tags'', ''mem_tier'', ''mem_full'']"
    by (simp add: FIELDS_def LINKS_def)
  show "subseq (map fst (common_fields now addr p a @ [(''tags'', u), (''mem_tier'', v)])) FIELDS"
    "subseq (map fst (common_fields now addr p a @ [(''tags'', u), (''mem_tier'', v), (''mem_full'', w)])) FIELDS"
    unfolding F common_fields_def map_append append_assoc
    by (intro list_emb_append_mono policy_fields_keys link_fields_keys; simp add: own_fields_def axis_fields_def)+
qed

lemma flat_join: "flat sep \<Longrightarrow> \<forall>w \<in> set ws. flat w \<Longrightarrow> flat (join sep ws)"
  using set_join [of sep ws] by (fastforce simp: flat_def)

lemma flat_simps [simp]: "flat (a @ b) \<longleftrightarrow> flat a \<and> flat b" "flat []" "flat (c # t) \<longleftrightarrow> c \<noteq> CHR 0x0A \<and> c \<noteq> CHR 0x0D \<and> flat t"
  by (auto simp: flat_def)

lemma flat_either: "flat a \<Longrightarrow> flat b \<Longrightarrow> flat (either a b)"
  by (simp add: either_def)

lemma flat_take: "flat t \<Longrightarrow> flat (take n t)"
  by (auto simp: flat_def dest: in_set_takeD)

lemma flat_keys_tags: "flat (aa_keys a) \<Longrightarrow> flat (aa_kind a) \<Longrightarrow> flat tier \<Longrightarrow> flat (fm_text (keys_tags a tier))"
proof -
  assume f: "flat (aa_keys a)" "flat (aa_kind a)" "flat tier"
  have "flat w" if "w \<in> set (split_on (\<lambda>c. c = CHR '','') (aa_keys a))" for w
    using that f(1) by (auto simp: flat_def dest: split_on_chars)
  then have "flat (join '', '' (split_on (\<lambda>c. c = CHR '','') (aa_keys a) @ [aa_kind a, tier]))"
    using f by (intro flat_join) auto
  then show ?thesis by (simp add: keys_tags_def fm_text_def)
qed


lemma flat_cell: "cell_text c \<Longrightarrow> flat c"
  by (simp add: cell_text_def flat_def)

lemma flat_registry: "flat (case map_of REGISTRY c of Some d \<Rightarrow> d | None \<Rightarrow> ''recite'')"
proof -
  have "list_all (\<lambda>d. CHR 0x0A \<notin> set d \<and> CHR 0x0D \<notin> set d) (map snd REGISTRY)" by code_simp
  then have "flat d" if "map_of REGISTRY c = Some d" for d
    using map_of_SomeD [OF that] by (force simp: flat_def list_all_iff)
  then show ?thesis by (auto split: option.split)
qed

lemma flat_class: "pl_class p = [] \<or> pl_class p \<in> set CLASSES \<Longrightarrow> flat (pl_class p)"
proof -
  have "list_all (\<lambda>d. CHR 0x0A \<notin> set d \<and> CHR 0x0D \<notin> set d) CLASSES" by code_simp
  then show "pl_class p = [] \<or> pl_class p \<in> set CLASSES \<Longrightarrow> flat (pl_class p)"
    by (auto simp: flat_def list_all_iff)
qed

lemma flat_policy:
  assumes "policy_ok p" and "kv \<in> set (policy_fields p)"
  shows "flat (fm_text (snd kv))"
proof -
  have f: "flat (pl_authority p)" "flat (pl_retrieval p)" "flat (pl_decline p)" "flat (pl_message p)" "flat (pl_delivery p)"
    "flat (pl_class p)" "\<forall>c. pl_confidence p = Some c \<longrightarrow> flat c"
    using assms(1) flat_class [of p] by (auto simp: policy_ok_def flat_cell split: option.splits)
  have "flat (delivery_of p)" using f flat_registry by (simp add: delivery_of_def flat_either)
  moreover have "flat (authority_of p)" using f by (auto simp: authority_of_def intro!: flat_either)
  moreover have "flat (retrieval_of p)" using f by (simp add: retrieval_of_def)
  moreover have "flat (decline_of p)" using f by (auto simp: decline_of_def intro!: flat_either)
  moreover have "flat (either (pl_message p)
      ''I have a record for that entity, but it does not include that specific detail.'')"
    using f by (intro flat_either) simp_all
  ultimately show ?thesis
    using assms(2) f by (auto simp: policy_fields_def fm_text_def split: if_splits option.splits)
qed

lemma flat_links:
  assumes "\<forall>t \<in> snd ` set (aa_links a). flat t" and "kv \<in> set (link_fields a)"
  shows "flat (fm_text (snd kv))"
proof -
  obtain k v where "map_of (aa_links a) k = Some v" "kv = (k, Txt v)"
    using assms(2) by (auto simp: link_fields_def split: option.splits if_splits)
  then show ?thesis using assms(1) by (force simp: fm_text_def dest: map_of_SomeD)
qed

lemma flat_fields:
  assumes "add_ok a" and "aa_policy a = Some p" and "flat addr" and "flat now"
    and "kv \<in> set (common_fields now addr p a)"
  shows "flat (fm_text (snd kv))"
proof -
  have f: "flat (aa_keys a)" "flat (aa_summary a)" "flat (aa_title a)" "flat (aa_gate a)" "flat (aa_commit a)"
    "flat (aa_repro a)" "flat (aa_status a)" "\<forall>t \<in> snd ` set (aa_links a). flat t" "policy_ok p"
    using assms(1,2) unfolding add_ok_def by (simp_all add: flat_cell)
  have k: "flat (aa_kind a)" "flat (aa_verified a)" "flat (aa_lifecycle a)"
  proof -
    have "aa_kind a \<in> {''agent'', ''episode''}" using assms(1) unfolding add_ok_def by (elim conjE)
    then show "flat (aa_kind a)" by auto
    have "aa_verified a \<in> {[], ''unverified'', ''contradicted'', ''rolled_back''}"
      using assms(1) unfolding add_ok_def by (elim conjE)
    then show "flat (aa_verified a)" by auto
    have "aa_lifecycle a \<in> {[], ''active'', ''superseded''}" using assms(1) unfolding add_ok_def by (elim conjE)
    then show "flat (aa_lifecycle a)" by auto
  qed
  have e: "flat (either (aa_title a) (take 60 (aa_summary a)))" "flat (either (aa_commit a) ''TBD'')"
    "flat (either (aa_repro a) ''none'')" "flat (either (aa_verified a) ''unverified'')"
    "flat (either (aa_lifecycle a) ''active'')"
    using f k(2,3) by (simp_all add: flat_either flat_take)
  have own: "\<forall>u \<in> set (own_fields now addr a). flat (fm_text (snd u))"
    using e f k(1) assms(3,4) by (simp add: own_fields_def fm_text_def)
  have axis: "\<forall>u \<in> set (axis_fields a). flat (fm_text (snd u))" using e by (simp add: axis_fields_def fm_text_def)
  consider (own) "kv \<in> set (own_fields now addr a)" | (pol) "kv \<in> set (policy_fields p)"
    | (axis) "kv \<in> set (axis_fields a)" | (lnk) "kv \<in> set (link_fields a)"
    using assms(5) by (simp only: common_fields_def set_append Un_iff) blast
  then show ?thesis
  proof cases
    case pol
    then show ?thesis using flat_policy f(9) by blast
  next
    case lnk
    then show ?thesis using flat_links f(8) by blast
  qed (use own axis in blast)+
qed

section \<open>What add writes reads back\<close>

lemma unix_lines_append: "CHR 0x0D \<notin> set x \<Longrightarrow> unix_lines (x @ y) = x @ unix_lines y"
proof (induction x)
  case (Cons a x)
  then show ?case by (cases "x @ y") auto
qed simp

lemma as_read_append: "CHR 0x0D \<notin> set x \<Longrightarrow> as_read (x @ y) = x @ as_read y"
  by (auto simp: as_read_def unix_lines_append intro!: map_idI)

lemma subseq_sub: "subseq xs ys \<Longrightarrow> set xs \<subseteq> set ys \<and> (distinct ys \<longrightarrow> distinct xs)"
  by (induction rule: list_emb.induct) auto

lemma line_ok:
  assumes "fst kv \<in> set FIELDS" and "flat (fm_text (snd kv))"
  shows "fm_line_ok (fm_line kv) \<and> flat (fm_line kv)"
proof -
  have k: "fst kv \<noteq> []" "hd (fst kv) \<noteq> CHR ''-''" "flat (fst kv)" using FIELDS_ok(1) assms(1) by blast+
  have l: "fm_line kv = fst kv @ '': '' @ fm_text (snd kv)" by (simp add: fm_line_def fm_text_def)
  show ?thesis using k assms(2) by (cases "fst kv") (auto simp: l fm_line_ok_def flat_def)
qed

lemma read_block:
  assumes "d \<noteq> []" and "subseq (map fst d) FIELDS" and "\<forall>kv \<in> set d. flat (fm_text (snd kv))"
  shows "parse_fm (as_read (fm_block d @ t)) = (fm_entries (map fm_line d), as_read t)"
    "fm_get (fm_entries (map fm_line d)) k = map_option (\<lambda>v. strip (fm_text v)) (map_of d k)"
proof -
  have in_f: "\<forall>kv \<in> set d. fst kv \<in> set FIELDS"
    using subseq_sub [OF assms(2)] by auto
  have ok: "\<forall>kv \<in> set d. fm_line_ok (fm_line kv) \<and> flat (fm_line kv)" using line_ok in_f assms(3) by blast
  have cr: "CHR 0x0D \<notin> set (fm_block d)"
  proof -
    have "set (fm_block d) \<subseteq> set nl \<union> \<Union> (set ` set (RULE # map fm_line d @ [RULE]))"
      using set_join [of nl "RULE # map fm_line d @ [RULE]"] by (auto simp: fm_block_def nl_def)
    moreover have "CHR 0x0D \<notin> set l" if "l \<in> set (RULE # map fm_line d @ [RULE])" for l
      using that ok by (auto simp: RULE_def flat_def)
    moreover have "CHR 0x0D \<notin> set nl" by (simp add: nl_def)
    ultimately show ?thesis by blast
  qed
  show "parse_fm (as_read (fm_block d @ t)) = (fm_entries (map fm_line d), as_read t)"
    using parse_fm_block [OF assms(1)] ok by (simp add: as_read_append [OF cr])
  have "distinct (map fst d)" using subseq_sub [OF assms(2)] FIELDS_ok(2) by simp
  moreover have "\<forall>kv \<in> set d. fm_key (fst kv)" using in_f FIELDS_ok(1) by blast
  ultimately show "fm_get (fm_entries (map fm_line d)) k = map_option (\<lambda>v. strip (fm_text v)) (map_of d k)"
    by (intro fm_get_back)
qed


section \<open>A new entry verifies\<close>

lemma map_of_keys: "subseq (map fst d) ks \<Longrightarrow> k \<notin> set ks \<Longrightarrow> map_of d k = None"
  using subseq_sub [of "map fst d" ks] by (auto simp: map_of_eq_None_iff)

lemma links_none: "k \<notin> set LINKS \<Longrightarrow> map_of (link_fields a) k = None"
  using map_of_keys [OF link_fields_keys] .

lemma links_some:
  assumes "has_link a k" and "k \<in> set LINKS"
  shows "\<exists>v. map_of (link_fields a) k = Some (Txt v) \<and> strip v \<noteq> []"
proof -
  obtain v where v: "map_of (aa_links a) k = Some v" "strip v \<noteq> []" using assms(1) by (auto simp: has_link_def split: option.splits)
  let ?f = "\<lambda>k. case map_of (aa_links a) k of None \<Rightarrow> [] | Some v \<Rightarrow> if v = [] then [] else [(k, Txt v)]"
  have "v \<noteq> []" using v(2) by auto
  then have "map_of (concat (map ?f ks)) k = Some (Txt v)" if "k \<in> set ks" for ks
    using that v(1) by (induction ks) (auto split: option.splits)
  then show ?thesis using v(2) assms(2) by (auto simp: link_fields_def)
qed

lemma policy_none:
  "k \<notin> {''mem_class'', ''mem_delivery'', ''mem_authority'', ''mem_retrieval_key'', ''mem_decline_when'',
     ''mem_decline_message'', ''mem_confidence''} \<Longrightarrow> map_of (policy_fields p) k = None"
  by (rule map_of_keys [OF policy_fields_keys]) simp

definition entry_fields :: "string \<Rightarrow> string \<Rightarrow> policy \<Rightarrow> add_args \<Rightarrow> (string \<times> fmval) list" where
  "entry_fields now addr p a =
     common_fields now addr p a @ [(''tags'', keys_tags a ''tier-2''), (''mem_tier'', Txt ''full'')]"

definition first_of :: "'a option \<Rightarrow> 'a option \<Rightarrow> 'a option" where
  "first_of x y = (case x of Some v \<Rightarrow> Some v | None \<Rightarrow> y)"

lemma first_of_simps [simp]: "first_of None y = y" "first_of (Some v) y = Some v" "first_of x None = x"
  by (simp_all add: first_of_def split: option.split)

lemma map_of_first: "map_of (xs @ ys) k = first_of (map_of xs k) (map_of ys k)"
  by (simp add: map_add_def first_of_def)

lemma own_none:
  "k \<notin> set [''type'', ''title'', ''description'', ''timestamp'', ''resource'', ''sp_status'', ''sp_gate'', ''sp_commit'',
     ''sp_repro'', ''mem_kind'', ''mem_addr''] \<Longrightarrow> map_of (own_fields now addr a) k = None"
  by (simp add: map_of_eq_None_iff own_fields_def)

lemma axis_none: "k \<notin> set [''mem_verified'', ''mem_lifecycle''] \<Longrightarrow> map_of (axis_fields a) k = None"
  by (simp add: map_of_eq_None_iff axis_fields_def)

lemma entry_map:
  "map_of (entry_fields now addr p a) k = first_of (map_of (own_fields now addr a) k)
     (first_of (map_of (policy_fields p) k) (first_of (map_of (axis_fields a) k)
        (first_of (map_of (link_fields a) k) (map_of [(''tags'', keys_tags a ''tier-2''), (''mem_tier'', Txt ''full'')] k))))"
  unfolding entry_fields_def common_fields_def append_assoc map_of_first ..

lemma own_get:
  "map_of (own_fields now addr a) ''mem_addr'' = Some (Txt addr)"
  "map_of (own_fields now addr a) ''mem_kind'' = Some (Txt (aa_kind a))"
  by (simp_all add: own_fields_def)

lemma entry_get:
  "map_of (entry_fields now addr p a) ''mem_addr'' = Some (Txt addr)"
  "map_of (entry_fields now addr p a) ''mem_kind'' = Some (Txt (aa_kind a))"
  by (simp_all add: entry_map own_get)

lemma entry_axis:
  "map_of (entry_fields now addr p a) ''mem_verified'' = Some (Txt (either (aa_verified a) ''unverified''))"
  "map_of (entry_fields now addr p a) ''mem_lifecycle'' = Some (Txt (either (aa_lifecycle a) ''active''))"
proof -
  have "map_of (axis_fields a) ''mem_verified'' = Some (Txt (either (aa_verified a) ''unverified''))"
    "map_of (axis_fields a) ''mem_lifecycle'' = Some (Txt (either (aa_lifecycle a) ''active''))"
    by (simp_all add: axis_fields_def)
  then show "map_of (entry_fields now addr p a) ''mem_verified'' = Some (Txt (either (aa_verified a) ''unverified''))"
    "map_of (entry_fields now addr p a) ''mem_lifecycle'' = Some (Txt (either (aa_lifecycle a) ''active''))"
    by (simp_all add: entry_map own_none policy_none)
qed

lemma entry_link:
  assumes "k \<in> {''mem_superseded_by'', ''mem_contradicted_by''}"
  shows "map_of (entry_fields now addr p a) k = map_of (link_fields a) k"
proof -
  have "map_of (own_fields now addr a) k = None" by (rule own_none) (use assms in auto)
  moreover have "map_of (policy_fields p) k = None" by (rule policy_none) (use assms in auto)
  moreover have "map_of (axis_fields a) k = None" by (rule axis_none) (use assms in auto)
  moreover have "map_of [(''tags'', keys_tags a ''tier-2''), (''mem_tier'', Txt ''full'')] k = None" using assms by auto
  ultimately show ?thesis by (simp add: entry_map del: map_of.simps)
qed

lemma entry_policy:
  assumes "k \<in> {''mem_class'', ''mem_delivery'', ''mem_decline_when''}"
  shows "map_of (entry_fields now addr p a) k = map_of (policy_fields p) k"
proof -
  have "map_of (own_fields now addr a) k = None" by (rule own_none) (use assms in auto)
  moreover have "map_of (link_fields a) k = None" by (rule links_none) (use assms in \<open>auto simp: LINKS_def\<close>)
  moreover have "map_of (axis_fields a) k = None" by (rule axis_none) (use assms in auto)
  moreover have "map_of [(''tags'', keys_tags a ''tier-2''), (''mem_tier'', Txt ''full'')] k = None" using assms by auto
  ultimately show ?thesis by (simp add: entry_map del: map_of.simps)
qed

lemma policy_get:
  "pl_class p \<noteq> [] \<Longrightarrow> map_of (policy_fields p) ''mem_class'' = Some (Txt (pl_class p))"
  "pl_class p \<noteq> [] \<Longrightarrow> map_of (policy_fields p) ''mem_delivery'' = Some (Txt (delivery_of p))"
  "pl_class p \<noteq> [] \<Longrightarrow> map_of (policy_fields p) ''mem_decline_when'' =
     (if decline_of p = [] then None else Some (Txt (decline_of p)))"
  "pl_class p = [] \<Longrightarrow> map_of (policy_fields p) k = None"
  by (auto simp: policy_fields_def split: option.splits)

lemma registry_stripped:
  "c \<in> set CLASSES \<Longrightarrow> strip c = c"
  "map_of REGISTRY c = Some d \<Longrightarrow> strip d = d \<and> d \<in> set DELIVERIES"
proof -
  have "list_all (\<lambda>c. strip c = c) CLASSES" "list_all (\<lambda>(c, d). strip d = d \<and> d \<in> set DELIVERIES) REGISTRY"
    by code_simp+
  then show "c \<in> set CLASSES \<Longrightarrow> strip c = c" "map_of REGISTRY c = Some d \<Longrightarrow> strip d = d \<and> d \<in> set DELIVERIES"
    by (auto simp: list_all_iff dest: map_of_SomeD)
qed

lemma delivery_ok:
  assumes "policy_ok p" and "pl_class p \<noteq> []"
  shows "strip (delivery_of p) = delivery_of p"
    "delivery_of p \<in> set DELIVERIES \<or> startswith (delivery_of p) ''route:''"
    "pl_class p = ''private-secret'' \<Longrightarrow> delivery_of p = ''attr-gate-strict''"
proof -
  have c: "pl_class p \<in> set CLASSES" "cell_text (pl_delivery p)"
    "pl_delivery p = [] \<or> pl_delivery p \<in> set DELIVERIES \<or> startswith (pl_delivery p) ''route:''"
    using assms by (auto simp: policy_ok_def)
  then obtain d where d: "map_of REGISTRY (pl_class p) = Some d"
    by (metis CLASSES_def image_set map_of_eq_None_iff not_Some_eq)
  have e: "delivery_of p = either (pl_delivery p) d" by (simp add: delivery_of_def d)
  show "strip (delivery_of p) = delivery_of p" "delivery_of p \<in> set DELIVERIES \<or> startswith (delivery_of p) ''route:''"
    using registry_stripped(2) [OF d] c(2,3) by (auto simp: e either_def cell_text_def)
  show "delivery_of p = ''attr-gate-strict''" if "pl_class p = ''private-secret''"
  proof -
    have "map_of REGISTRY ''private-secret'' = Some ''attr-gate-strict''" by code_simp
    then have "d = ''attr-gate-strict''" using d that by simp
    moreover have "pl_delivery p \<in> {[], ''attr-gate-strict''}" using assms(1) that by (simp add: policy_ok_def)
    ultimately show ?thesis by (auto simp: e either_def)
  qed
qed

lemma decline_ok:
  assumes "policy_ok p"
  shows "strip (decline_of p) = decline_of p" "set (decline_words (decline_of p)) \<subseteq> set DECLINES"
    "pl_class p = ''private-secret'' \<Longrightarrow> decline_of p \<noteq> [] \<and> contains (decline_of p) ''zero-inference''"
proof -
  let ?d = "''zero-inference,attribute-absent''"
  have k: "strip ?d = ?d" "list_all (\<lambda>w. w \<in> set DECLINES) (decline_words ?d)" "decline_words [] = []"
    "contains ?d ''zero-inference''" by code_simp+
  have p: "strip (pl_decline p) = pl_decline p" "set (decline_words (pl_decline p)) \<subseteq> set DECLINES"
    using assms by (simp_all add: policy_ok_def)
  show "strip (decline_of p) = decline_of p" using k(1) p(1) by (simp add: decline_of_def either_def)
  show "set (decline_words (decline_of p)) \<subseteq> set DECLINES"
    using k(2,3) p(2) by (auto simp: decline_of_def either_def list_all_iff)
  show "decline_of p \<noteq> [] \<and> contains (decline_of p) ''zero-inference''" if "pl_class p = ''private-secret''"
    using that assms k(4) by (auto simp: decline_of_def either_def policy_ok_def)
qed


text \<open>The digest gives 64 hexadecimal digits.\<close>

definition hexadecimal :: "string \<Rightarrow> bool" where
  "hexadecimal t \<longleftrightarrow> length t = 64 \<and> (\<forall>c \<in> set t. is_digit c \<or> (97 \<le> code c \<and> code c \<le> 102))"

definition addr_for :: "(string \<Rightarrow> string) \<Rightarrow> add_args \<Rightarrow> string \<Rightarrow> string" where
  "addr_for digest a body = either (aa_addr a) (addr_of digest body)"

lemma hex_addr:
  assumes "hexadecimal (digest (norm_body body))"
  shows "addr_ok (addr_of digest body)"
proof -
  let ?t = "addr_of digest body"
  have l: "length ?t = 16" using assms by (simp add: addr_of_def hexadecimal_def)
  have c: "is_digit x \<or> (97 \<le> code x \<and> code x \<le> 102)" if "x \<in> set ?t" for x
    using that assms by (auto simp: addr_of_def hexadecimal_def dest: in_set_takeD)
  have n: "?t \<noteq> []" using l by auto
  have "\<not> is_space x" if "x \<in> set ?t" for x using c [OF that] by (auto simp: is_digit_def is_space_def)
  then have "strip ?t = ?t" using n by (intro strip_fix) (simp_all add: hd_in_set last_in_set)
  moreover have "CHR ''|'' \<notin> set ?t" "CHR 0x0A \<notin> set ?t" "CHR 0x0D \<notin> set ?t"
    using c by (force simp: is_digit_def code_def)+
  moreover have "\<not> startswith ?t ''addr''"
  proof
    assume "startswith ?t ''addr''"
    then obtain u where "?t = ''addr'' @ u" by (auto simp: startswith_iff)
    then have "CHR ''r'' \<in> set ?t" by simp
    from c [OF this] show False by (simp add: is_digit_def code_def)
  qed
  ultimately show ?thesis using n by (simp add: addr_ok_def cell_text_def)
qed

lemma body_no_cr: "add_ok a \<Longrightarrow> body_of a = Some body \<Longrightarrow> CHR 0x0D \<notin> set body"
proof -
  assume a: "add_ok a" and b: "body_of a = Some body"
  have src: "case aa_source a of NoBody \<Rightarrow> False | BlobRef b \<Rightarrow> flat b | _ \<Rightarrow> True"
    using a unfolding add_ok_def by (elim conjE)
  have "aa_kind a \<in> {''agent'', ''episode''}" using a unfolding add_ok_def by (elim conjE)
  then have k: "flat (aa_kind a)" by auto
  show ?thesis
  proof (cases "aa_source a")
    case (BlobRef blob)
    then have r: "CHR 0x0D \<notin> set blob" "CHR 0x0D \<notin> set (aa_kind a)" using src k by (simp_all add: flat_def)
    have "body = (''BLOB POINTER (Tier-2 = external payload)'' @ nl @ nl @ ''blob: '') @ blob @ (nl @ ''kind: '') @ aa_kind a @ (nl
            @ ''Full context is the latent/binary payload at the blob path (Ring-2 / Optane). Address = C2 LSH signature / provided id.'' @ nl)"
      using b by (simp add: body_of_def BlobRef)
    then show ?thesis using r by (simp add: nl_def)
  next
    case (FullFile t)
    then have "body = as_read t" using b by (simp add: body_of_def)
    then show ?thesis by simp
  next
    case (Piped t)
    then have "body = as_read t" using b by (simp add: body_of_def)
    then show ?thesis by simp
  qed (use b in \<open>simp add: body_of_def\<close>)
qed

lemma norm_body_no_cr: "CHR 0x0D \<notin> set b \<Longrightarrow> CHR 0x0D \<notin> set (norm_body b)"
proof -
  assume "CHR 0x0D \<notin> set b"
  then have "CHR 0x0D \<notin> set (strip b)" using set_strip by blast
  then show ?thesis using \<open>CHR 0x0D \<notin> set b\<close> by (simp add: norm_body_def unix_lines_id nl_def)
qed

lemma entry_read:
  assumes "add_ok a" and "aa_policy a = Some p" and "flat addr" and "flat now"
  shows "parse_fm (as_read (full_text now addr p a body)) =
      (fm_entries (map fm_line (entry_fields now addr p a)), as_read (nl @ norm_body body))"
    "fm_get (fm_entries (map fm_line (entry_fields now addr p a))) k =
      map_option (\<lambda>v. strip (fm_text v)) (map_of (entry_fields now addr p a) k)"
    "fm_get (fst (parse_fm (as_read (sum_text now addr p a)))) ''mem_full'' = Some (strip addr)"
proof -
  have f: "flat (aa_keys a)" using assms(1) unfolding add_ok_def by simp
  have "aa_kind a \<in> {''agent'', ''episode''}" using assms(1) unfolding add_ok_def by (elim conjE)
  then have g: "flat (aa_kind a)" by auto
  have t: "flat (fm_text (keys_tags a ''tier-2''))" "flat (fm_text (keys_tags a ''tier-1''))"
    using f g by (simp_all add: flat_keys_tags)
  let ?d = "entry_fields now addr p a"
  let ?s = "common_fields now addr p a @ [(''tags'', keys_tags a ''tier-1''), (''mem_tier'', Txt ''summary''), (''mem_full'', Txt addr)]"
  have ne: "?d \<noteq> []" "?s \<noteq> []" by (simp_all add: entry_fields_def)
  have kd: "subseq (map fst ?d) FIELDS" unfolding entry_fields_def by (rule common_fields_keys)
  have fl: "\<forall>kv \<in> set ?d. flat (fm_text (snd kv))"
    using flat_fields [OF assms] t(1) by (auto simp: entry_fields_def) (simp_all add: fm_text_def)
  have fs: "\<forall>kv \<in> set ?s. flat (fm_text (snd kv))"
    using flat_fields [OF assms] t(2) assms(3) by (auto simp: fm_text_def [of "Txt _"])
  have ft: "full_text now addr p a body = fm_block ?d @ nl @ norm_body body"
    by (simp add: full_text_def entry_fields_def)
  show "parse_fm (as_read (full_text now addr p a body)) = (fm_entries (map fm_line ?d), as_read (nl @ norm_body body))"
    unfolding ft by (rule read_block(1) [OF ne(1) kd fl])
  show "fm_get (fm_entries (map fm_line ?d)) k = map_option (\<lambda>v. strip (fm_text v)) (map_of ?d k)"
    by (rule read_block(2) [OF ne(1) kd fl])
  have last: "map_of ?s ''mem_full'' = Some (Txt addr)"
    unfolding common_fields_def append_assoc map_of_first
    by (simp add: own_none policy_none axis_none links_none LINKS_def)
  have "\<exists>t. sum_text now addr p a = fm_block ?s @ t" by (simp add: sum_text_def)
  then show "fm_get (fst (parse_fm (as_read (sum_text now addr p a)))) ''mem_full'' = Some (strip addr)"
  proof
    fix t assume "sum_text now addr p a = fm_block ?s @ t"
    then show ?thesis
      by (simp only: read_block [OF ne(2) common_fields_keys(2) fs] last fst_conv option.map fm_text_def fmval.case)
  qed
qed

lemma add_okD:
  assumes "add_ok a"
  shows "aa_addr a = [] \<or> aa_kind a = ''episode'' \<and> addr_ok (aa_addr a)"
    "aa_verified a \<in> {[], ''unverified'', ''contradicted'', ''rolled_back''}"
    "aa_verified a = ''contradicted'' \<longrightarrow> has_link a ''mem_contradicted_by''"
    "aa_lifecycle a \<in> {[], ''active'', ''superseded''}"
    "aa_lifecycle a = ''superseded'' \<longrightarrow> has_link a ''mem_superseded_by''"
    "aa_kind a \<in> {''agent'', ''episode''}"
  subgoal using assms unfolding add_ok_def by (elim conjE)
  subgoal using assms unfolding add_ok_def by (elim conjE)
  subgoal using assms unfolding add_ok_def by (elim conjE)
  subgoal using assms unfolding add_ok_def by (elim conjE)
  subgoal using assms unfolding add_ok_def by (elim conjE)
  subgoal using assms unfolding add_ok_def by (elim conjE)
  done

lemma entry_verifies:
  assumes "add_ok a" and "aa_policy a = Some p" and "flat now" and "body_of a = Some body"
    and "hexadecimal (digest (norm_body body))"
  defines "addr \<equiv> addr_for digest a body"
  shows "addr_ok addr" "verify_full digest (addr, full_text now addr p a body) = []"
    "fm_get (fst (parse_fm (as_read (sum_text now addr p a)))) ''mem_full'' = Some addr"
    "norm_body (snd (parse_fm (as_read (full_text now addr p a body)))) = norm_body body"
proof -
  note adr = add_okD(1) [OF assms(1)] and vf = add_okD(2) [OF assms(1)] and vl = add_okD(3) [OF assms(1)]
    and lf = add_okD(4) [OF assms(1)] and ll = add_okD(5) [OF assms(1)] and kd = add_okD(6) [OF assms(1)]
  have pol: "policy_ok p" using assms(1,2) unfolding add_ok_def by simp
  show ao: "addr_ok addr" using adr hex_addr [of digest body, OF assms(5)] by (auto simp: addr_def addr_for_def either_def)
  then have fa: "flat addr" "strip addr = addr" "addr \<noteq> []" by (auto simp: addr_ok_def flat_cell cell_text_def)
  note rd = entry_read [OF assms(1,2) fa(1) assms(3)]
  let ?fm = "fm_entries (map fm_line (entry_fields now addr p a))"
  have bd: "snd (parse_fm (as_read (full_text now addr p a body))) = nl @ norm_body body"
  proof -
    have "CHR 0x0D \<notin> set (nl @ norm_body body)"
      using norm_body_no_cr [OF body_no_cr [OF assms(1,4)]] by (simp add: nl_def)
    then show ?thesis by (simp add: rd(1) as_read_id)
  qed
  show nb: "norm_body (snd (parse_fm (as_read (full_text now addr p a body)))) = norm_body body"
    unfolding bd by (rule norm_body_idem [OF body_no_cr [OF assms(1,4)]])
  show "fm_get (fst (parse_fm (as_read (sum_text now addr p a)))) ''mem_full'' = Some addr"
    using rd(3) fa(2) by simp
  have strips: "list_all (\<lambda>t. strip t = t) [''unverified'', ''contradicted'', ''rolled_back'', ''active'', ''superseded'',
      ''agent'', ''episode'']" by code_simp
  have g1: "fm_get ?fm ''mem_addr'' = Some addr" by (simp add: rd(2) entry_get fm_text_def fa(2))
  have g2: "fm_get ?fm ''mem_kind'' = Some (aa_kind a)" using kd strips by (auto simp: rd(2) entry_get fm_text_def)
  have g3: "fget ?fm ''mem_verified'' = either (aa_verified a) ''unverified''"
    using vf strips by (auto simp: fget_def rd(2) entry_axis fm_text_def either_def)
  have g4: "fget ?fm ''mem_lifecycle'' = either (aa_lifecycle a) ''active''"
    using lf strips by (auto simp: fget_def rd(2) entry_axis fm_text_def either_def)
  have g5: "fget ?fm k \<noteq> []" if "has_link a k" "k \<in> {''mem_superseded_by'', ''mem_contradicted_by''}" for k
  proof -
    have "k \<in> set LINKS" using that(2) by (auto simp: LINKS_def)
    from links_some [OF that(1) this] obtain v where "map_of (link_fields a) k = Some (Txt v)" "strip v \<noteq> []" by blast
    then show ?thesis using entry_link [OF that(2)] by (simp add: fget_def rd(2) fm_text_def)
  qed
  have vp: "verify_policy addr ?fm = []"
  proof (cases "pl_class p = []")
    case True
    then show ?thesis by (simp add: verify_policy_def fget_def rd(2) entry_policy policy_get(4) Let_def)
  next
    case False
    then have cl: "pl_class p \<in> set CLASSES" using pol by (simp add: policy_ok_def)
    have c: "fget ?fm ''mem_class'' = pl_class p"
      using registry_stripped(1) [OF cl] by (simp add: fget_def rd(2) entry_policy policy_get(1) False fm_text_def)
    have d: "fget ?fm ''mem_delivery'' = delivery_of p"
      using delivery_ok(1) [OF pol False] by (simp add: fget_def rd(2) entry_policy policy_get(2) False fm_text_def)
    have w: "fget ?fm ''mem_decline_when'' = decline_of p"
      using decline_ok(1) [OF pol] by (simp add: fget_def rd(2) entry_policy policy_get(3) False fm_text_def)
    have "filter (\<lambda>w. w \<notin> set DECLINES) (decline_words (decline_of p)) = []"
      using decline_ok(2) [OF pol] by (auto simp: filter_empty_conv)
    then show ?thesis
      using delivery_ok(2,3) [OF pol False] decline_ok(3) [OF pol] cl by (auto simp: verify_policy_def c d w Let_def)
  qed
  have tam: "fm_get ?fm ''mem_kind'' = Some ''agent'' \<longrightarrow> addr_of digest (nl @ norm_body body) = addr"
  proof
    assume "fm_get ?fm ''mem_kind'' = Some ''agent''"
    then have "addr = addr_of digest body" using g2 adr by (auto simp: addr_def addr_for_def either_def)
    then show "addr_of digest (nl @ norm_body body) = addr" using nb [unfolded bd] by (simp add: addr_of_def)
  qed
  have v1: "either (aa_verified a) ''unverified'' \<in> set MEM_VERIFIED" using vf by (auto simp: either_def MEM_VERIFIED_def)
  have l1: "either (aa_lifecycle a) ''active'' \<in> set MEM_LIFECYCLE" using lf by (auto simp: either_def MEM_LIFECYCLE_def)
  have v2: "either (aa_verified a) ''unverified'' = ''contradicted'' \<longrightarrow> fget ?fm ''mem_contradicted_by'' \<noteq> []"
    using vl g5 [of "''mem_contradicted_by''"] by (auto simp: either_def split: if_splits)
  have l2: "either (aa_lifecycle a) ''active'' = ''superseded'' \<longrightarrow> fget ?fm ''mem_superseded_by'' \<noteq> []"
    using ll g5 [of "''mem_superseded_by''"] by (auto simp: either_def split: if_splits)
  have pr: "parse_fm (as_read (full_text now addr p a body)) = (?fm, nl @ norm_body body)"
    using bd rd(1) by (metis fst_conv prod.collapse)
  show "verify_full digest (addr, full_text now addr p a body) = []"
    using v1 v2 l1 l2 vp tam by (simp add: verify_full_def pr g1 g3 g4)
qed


section \<open>A store built by additions\<close>

definition listed :: "files \<Rightarrow> string set" where
  "listed fs = fst ` set fs"

definition okf_ok :: "(string \<Rightarrow> string) \<Rightarrow> okf \<Rightarrow> bool" where
  "okf_ok digest s \<longleftrightarrow>
     (case o_lut s of
        None \<Rightarrow> o_full s = [] \<and> o_sum s = []
      | Some t \<Rightarrow> \<exists>h rows. t = lut_text h rows \<and> head_ok h \<and> CHR 0x0D \<notin> set h
          \<and> (\<forall>r \<in> set rows. lut_row_ok r \<and> r ! 2 \<noteq> [] \<and> r ! 3 \<noteq> []) \<and> distinct (map hd rows)
          \<and> hd ` set rows = listed (o_full s) \<and> listed (o_sum s) = listed (o_full s))
     \<and> (\<forall>f \<in> set (o_full s). verify_full digest f = [])
     \<and> (\<forall>f \<in> set (o_sum s). verify_sum (listed (o_full s)) f = [])"

definition empty_store :: okf where
  "empty_store = \<lparr>o_lut = None, o_full = [], o_sum = []\<rparr>"

lemma put_file_set: "set (put_file k v fs) \<subseteq> insert (k, v) (set fs)"
  by (induction fs) (auto split: if_splits)

lemma put_file_listed: "listed (put_file k v fs) = insert k (listed fs)"
proof (induction fs)
  case (Cons f fs)
  then show ?case by (cases f) (auto simp only: listed_def put_file.simps list.set image_insert fst_conv split: if_splits)
qed (simp add: listed_def)

lemma put_file_get: "map_of (put_file k v fs) k = Some v"
  by (induction fs) auto

lemma lut_text_no_cr:
  "CHR 0x0D \<notin> set h \<Longrightarrow> \<forall>r \<in> set rows. lut_row_ok r \<Longrightarrow> CHR 0x0D \<notin> set (lut_text h rows)"
proof -
  assume h: "CHR 0x0D \<notin> set h" and r: "\<forall>r \<in> set rows. lut_row_ok r"
  have "CHR 0x0D \<notin> set LUT_HEADER" by (simp add: LUT_HEADER_def nl_def)
  moreover have "CHR 0x0D \<notin> set (row_line x)" if "x \<in> set rows" for x
    using bare_no_nl [of x] r that by (simp add: row_line_bare nl_def)
  ultimately show ?thesis using h by (auto simp: lut_text_def)
qed

lemma fresh_head:
  assumes "cell_text now"
  shows "head_ok (LUT_HEAD now)" "CHR 0x0D \<notin> set (LUT_HEAD now)"
proof -
  have n: "CHR ''|'' \<notin> set now" "CHR 0x0D \<notin> set now" using assms by (simp_all add: cell_text_def)
  have "CHR ''|'' \<notin> set (LUT_HEAD now)" "CHR 0x0D \<notin> set (LUT_HEAD now)"
    using n by (simp_all add: LUT_HEAD_def fm_block_def fm_line_def join_def RULE_def nl_def)
  moreover have "last (LUT_HEAD now) = CHR 0x0A" by (simp add: LUT_HEAD_def nl_def)
  ultimately show "head_ok (LUT_HEAD now)" "CHR 0x0D \<notin> set (LUT_HEAD now)" by (simp_all add: head_ok_def)
qed

lemma ensured:
  assumes "okf_ok digest s" and "cell_text now"
  obtains h rows where "lut_of (ensure_root now s) = lut_text h rows" "head_ok h" "CHR 0x0D \<notin> set h"
    "\<forall>r \<in> set rows. lut_row_ok r \<and> r ! 2 \<noteq> [] \<and> r ! 3 \<noteq> []" "distinct (map hd rows)"
    "hd ` set rows = listed (o_full s)" "listed (o_sum s) = listed (o_full s)"
    "o_full (ensure_root now s) = o_full s" "o_sum (ensure_root now s) = o_sum s"
proof (cases "o_lut s")
  case None
  have e: "lut_text (LUT_HEAD now) [] = LUT_HEAD now @ LUT_HEADER" by (simp add: lut_text_def)
  have "CHR 0x0D \<notin> set (LUT_HEAD now @ LUT_HEADER)"
    using lut_text_no_cr [of "LUT_HEAD now" "[]"] fresh_head(2) [OF assms(2)] unfolding e by simp
  then have "lut_of (ensure_root now s) = lut_text (LUT_HEAD now) []"
    using None by (simp add: lut_of_def ensure_root_def as_read_id e)
  then show thesis using None assms(1) fresh_head [OF assms(2)]
    by (intro that [of "LUT_HEAD now" "[]"]) (simp_all add: okf_ok_def ensure_root_def listed_def)
next
  case (Some t)
  then obtain h rows where r: "t = lut_text h rows" "head_ok h" "CHR 0x0D \<notin> set h"
      "\<forall>r \<in> set rows. lut_row_ok r \<and> r ! 2 \<noteq> [] \<and> r ! 3 \<noteq> []" "distinct (map hd rows)"
      "hd ` set rows = listed (o_full s)" "listed (o_sum s) = listed (o_full s)"
    using assms(1) by (auto simp: okf_ok_def)
  have "lut_of (ensure_root now s) = lut_text h rows"
    using Some r(3,4) lut_text_no_cr [of h rows] by (simp add: lut_of_def ensure_root_def r(1) as_read_id)
  then show thesis using Some r by (intro that [of h rows]) (simp_all add: ensure_root_def)
qed

lemma no_bars_cell: "flat t \<Longrightarrow> cell_text (no_bars t)"
proof -
  assume f: "flat t"
  let ?m = "map (\<lambda>c. if c = CHR ''|'' then CHR ''/'' else c) t"
  have "CHR ''|'' \<notin> set ?m" "CHR 0x0A \<notin> set ?m" "CHR 0x0D \<notin> set ?m" using f by (auto simp: flat_def)
  then show ?thesis using set_strip [of ?m] by (auto simp: no_bars_def cell_text_def)
qed

lemma no_bars_ne: "strip t \<noteq> [] \<Longrightarrow> no_bars t \<noteq> []"
proof -
  assume n: "strip t \<noteq> []"
  have "\<exists>c \<in> set t. \<not> is_space c"
  proof (rule ccontr)
    assume "\<not> ?thesis"
    then have "lstrip t = []" by (simp add: lstrip_def dropWhile_eq_Nil_conv)
    with n show False by (simp add: strip_def rstrip_def)
  qed
  then obtain c where c: "c \<in> set t" "\<not> is_space c" by blast
  let ?f = "\<lambda>c. if c = CHR ''|'' then CHR ''/'' else c"
  have "\<not> is_space (?f c)" using c(2) by (simp add: is_space_def code_def)
  then have "\<exists>d \<in> set (map ?f t). \<not> is_space d" using c(1) by (intro bexI [of _ "?f c"]) auto
  then have "lstrip (map ?f t) \<noteq> []" by (auto simp: lstrip_def dropWhile_eq_Nil_conv)
  moreover obtain x where x: "hd (lstrip (map ?f t)) = x" "\<not> is_space x"
    using calculation lstrip_first by (metis list.collapse)
  ultimately have "\<exists>d \<in> set (lstrip (map ?f t)). \<not> is_space d" by (metis hd_in_set)
  then show ?thesis by (auto simp: no_bars_def strip_def rstrip_def dropWhile_eq_Nil_conv)
qed

lemma lut_row_new:
  assumes "add_ok a" and "aa_policy a = Some p" and "addr_ok addr"
  shows "lut_row_ok (lut_row addr p a) \<and> lut_row addr p a ! 2 \<noteq> [] \<and> lut_row addr p a ! 3 \<noteq> []"
proof -
  have f: "flat (aa_keys a)" "flat (aa_summary a)" "cell_text (aa_status a)" "strip (aa_keys a) \<noteq> []"
    "strip (aa_summary a) \<noteq> []" "policy_ok p"
    using assms(1,2) unfolding add_ok_def by simp_all
  have kd: "cell_text (aa_kind a)"
  proof -
    have "strip ''agent'' = ''agent''" "strip ''episode'' = ''episode''" by code_simp+
    then show ?thesis using add_okD(6) [OF assms(1)] by (auto simp: cell_text_def)
  qed
  have ad: "cell_text addr" "\<not> startswith addr ''addr''" using assms(3) by (simp_all add: addr_ok_def)
  have sa: "cell_text (''sum/'' @ addr @ ''.md'')"
  proof -
    have "strip (''sum/'' @ addr @ ''.md'') = ''sum/'' @ addr @ ''.md''"
      by (intro strip_fix) (simp_all add: is_space_def code_def)
    then show ?thesis using ad(1) by (simp add: cell_text_def)
  qed
  have s1: "cell_text (no_bars (aa_summary a))" "no_bars (aa_summary a) \<noteq> []" "cell_text (no_bars (aa_keys a))"
    "no_bars (aa_keys a) \<noteq> []"
    using f no_bars_cell no_bars_ne by blast+
  have s2: "cell_text (''['' @ pl_class p @ ''/'' @ delivery_of p @ ''] '' @ no_bars (aa_summary a))" if "pl_class p \<noteq> []"
  proof -
    have c: "pl_class p \<in> set CLASSES" "cell_text (pl_delivery p)" using f(6) that by (auto simp: policy_ok_def)
    have k: "list_all (\<lambda>c. CHR ''|'' \<notin> set c \<and> CHR 0x0A \<notin> set c \<and> CHR 0x0D \<notin> set c) CLASSES"
      "list_all (\<lambda>(c, d). CHR ''|'' \<notin> set d \<and> CHR 0x0A \<notin> set d \<and> CHR 0x0D \<notin> set d) REGISTRY" by code_simp+
    obtain d where d: "map_of REGISTRY (pl_class p) = Some d"
      using c(1) by (metis CLASSES_def image_set map_of_eq_None_iff not_Some_eq)
    have dd: "CHR ''|'' \<notin> set d \<and> CHR 0x0A \<notin> set d \<and> CHR 0x0D \<notin> set d"
      using k(2) map_of_SomeD [OF d] by (auto simp: list_all_iff)
    then have dv: "CHR ''|'' \<notin> set (delivery_of p) \<and> CHR 0x0A \<notin> set (delivery_of p) \<and> CHR 0x0D \<notin> set (delivery_of p)"
      using c(2) by (simp add: delivery_of_def d either_def cell_text_def)
    have "\<not> is_space (last (no_bars (aa_summary a)))" using s1(1,2) strip_last by (simp add: cell_text_def)
    then have "strip (''['' @ pl_class p @ ''/'' @ delivery_of p @ ''] '' @ no_bars (aa_summary a))
        = ''['' @ pl_class p @ ''/'' @ delivery_of p @ ''] '' @ no_bars (aa_summary a)"
      using s1(2) by (intro strip_fix) (simp_all add: is_space_def code_def)
    then show ?thesis using dv k(1) c(1) s1(1) by (auto simp: cell_text_def list_all_iff)
  qed
  show ?thesis using s1 s2 sa kd ad f(3) by (auto simp: lut_row_def lut_row_ok_def)
qed


lemma verify_sum_mono: "verify_sum F f = [] \<Longrightarrow> F \<subseteq> G \<Longrightarrow> verify_sum G f = []"
  by (auto simp: verify_sum_def split: option.splits if_splits)

lemma okf_ok_verifies: "okf_ok digest s \<Longrightarrow> o_lut s = Some t \<Longrightarrow> cmd_verify digest s = Some []"
proof -
  assume Some: "o_lut s = Some t"
  assume "okf_ok digest s"
  then obtain h rows where r: "t = lut_text h rows" "head_ok h" "CHR 0x0D \<notin> set h"
      "\<forall>r \<in> set rows. lut_row_ok r \<and> r ! 2 \<noteq> [] \<and> r ! 3 \<noteq> []" "hd ` set rows = listed (o_full s)"
      "listed (o_sum s) = listed (o_full s)" "\<forall>f \<in> set (o_full s). verify_full digest f = []"
      "\<forall>f \<in> set (o_sum s). verify_sum (listed (o_full s)) f = []"
    using Some by (auto simp: okf_ok_def)
  have "lut_rows (lut_of s) = rows"
    using r(3,4) lut_text_no_cr [of h rows] lut_rows_text [OF r(2), of rows]
    by (simp add: lut_of_def Some r(1) as_read_id)
  moreover have "verify_row (listed (o_full s)) (listed (o_sum s)) x = []" if "x \<in> set rows" for x
    using r(4,5,6) that by (auto simp: verify_row_def)
  ultimately show ?thesis using r(7,8) by (simp add: cmd_verify_def listed_def Let_def Some)
qed

lemma add_keeps_ok:
  assumes "okf_ok digest s" and "add_ok a" and "cell_text now" and "\<forall>b. hexadecimal (digest b)"
    and "cmd_add digest now a s = (e, s')"
  shows "e = Exit 0" "okf_ok digest s'"
    "\<exists>body addr t row. body_of a = Some body \<and> addr = addr_for digest a body \<and> map_of (o_full s') addr = Some t
       \<and> norm_body (snd (parse_fm (as_read t))) = norm_body body
       \<and> filter (\<lambda>r. hd r = addr) (lut_rows (lut_of s')) = [row] \<and> row ! 2 = no_bars (aa_keys a)"
proof -
  obtain p where p: "aa_policy a = Some p" using assms(2) unfolding add_ok_def by (elim conjE) (auto split: option.splits)
  obtain body where b: "body_of a = Some body"
    using assms(2) unfolding add_ok_def by (elim conjE) (auto simp: body_of_def split: source.splits)
  have v: "aa_verified a \<noteq> ''verified''" using add_okD(2) [OF assms(2)] by auto
  have now: "flat now" using assms(3) by (rule flat_cell)
  define addr where "addr = addr_for digest a body"
  obtain h rows where r: "lut_of (ensure_root now s) = lut_text h rows" "head_ok h" "CHR 0x0D \<notin> set h"
      "\<forall>r \<in> set rows. lut_row_ok r \<and> r ! 2 \<noteq> [] \<and> r ! 3 \<noteq> []" "distinct (map hd rows)"
      "hd ` set rows = listed (o_full s)" "listed (o_sum s) = listed (o_full s)"
      "o_full (ensure_root now s) = o_full s" "o_sum (ensure_root now s) = o_sum s"
    by (rule ensured [OF assms(1,3)])
  have rows: "lut_rows (lut_text h rows) = rows" using lut_rows_text [OF r(2), of rows] r(4) by simp
  define rows2 where "rows2 = filter (\<lambda>r. hd r \<noteq> addr) rows @ [lut_row addr p a]"
  have run: "(e, s') = (Exit 0, (ensure_root now s)\<lparr>o_full := put_file addr (full_text now addr p a body) (o_full s),
      o_sum := put_file addr (sum_text now addr p a) (o_sum s), o_lut := Some (lut_text h rows2)\<rparr>)"
    using assms(5) v r(8,9) write_lut_text [OF r(2), of rows rows2]
    by (simp add: cmd_add_def Let_def b p rows addr_def addr_for_def rows2_def r(1) eq_commute [of s'])
  then show "e = Exit 0" by simp
  note ev = entry_verifies [OF assms(2) p now b, of digest, folded addr_def]
  have hex: "hexadecimal (digest (norm_body body))" using assms(4) by simp
  have ao: "addr_ok addr" by (rule ev(1) [OF hex])
  have new: "lut_row_ok (lut_row addr p a) \<and> lut_row addr p a ! 2 \<noteq> [] \<and> lut_row addr p a ! 3 \<noteq> []"
    by (rule lut_row_new [OF assms(2) p ao])
  have hdn: "hd (lut_row addr p a) = addr" by (simp add: lut_row_def)
  have r2: "\<forall>r \<in> set rows2. lut_row_ok r \<and> r ! 2 \<noteq> [] \<and> r ! 3 \<noteq> []" using r(4) new by (auto simp: rows2_def)
  have d2: "distinct (map hd rows2)"
    using r(5) by (auto simp: rows2_def hdn distinct_map intro: inj_on_subset)
  have h2: "hd ` set rows2 = insert addr (listed (o_full s))" using r(6) by (auto simp: rows2_def hdn)
  have o: "o_full s' = put_file addr (full_text now addr p a body) (o_full s)"
    "o_sum s' = put_file addr (sum_text now addr p a) (o_sum s)" "o_lut s' = Some (lut_text h rows2)"
    using run by simp_all
  have f2: "verify_full digest f = []" if "f \<in> set (o_full s')" for f
    using that put_file_set [of addr _ "o_full s"] ev(2) [OF hex] assms(1) by (auto simp: o okf_ok_def)
  have s2: "verify_sum (listed (o_full s')) f = []" if "f \<in> set (o_sum s')" for f
  proof -
    have "f = (addr, sum_text now addr p a) \<or> f \<in> set (o_sum s)"
      using that put_file_set [of addr "sum_text now addr p a" "o_sum s"] by (auto simp: o)
    then show ?thesis
    proof
      assume "f \<in> set (o_sum s)"
      then have "verify_sum (listed (o_full s)) f = []" using assms(1) by (simp add: okf_ok_def)
      then show ?thesis by (rule verify_sum_mono) (auto simp: o put_file_listed)
    next
      assume "f = (addr, sum_text now addr p a)"
      then show ?thesis using ev(3) [OF hex] by (simp add: verify_sum_def o put_file_listed)
    qed
  qed
  show "okf_ok digest s'"
    unfolding okf_ok_def o(3) option.case
  proof (intro conjI exI)
    show "lut_text h rows2 = lut_text h rows2" ..
    show "hd ` set rows2 = listed (o_full s')" by (simp add: h2 o put_file_listed)
    show "listed (o_sum s') = listed (o_full s')" by (simp add: o put_file_listed r(7))
  qed (use r(2,3) r2 d2 f2 s2 in blast)+
  have "lut_rows (lut_of s') = rows2"
    using lut_text_no_cr [OF r(3), of rows2] lut_rows_text [OF r(2), of rows2] r2 by (simp add: lut_of_def o as_read_id)
  then have "filter (\<lambda>r. hd r = addr) (lut_rows (lut_of s')) = [lut_row addr p a]"
    by (simp add: rows2_def hdn)
  moreover have "lut_row addr p a ! 2 = no_bars (aa_keys a)" by (simp add: lut_row_def)
  moreover have "map_of (o_full s') addr = Some (full_text now addr p a body)" by (simp add: o put_file_get)
  ultimately show "\<exists>body addr t row. body_of a = Some body \<and> addr = addr_for digest a body \<and> map_of (o_full s') addr = Some t
       \<and> norm_body (snd (parse_fm (as_read t))) = norm_body body
       \<and> filter (\<lambda>r. hd r = addr) (lut_rows (lut_of s')) = [row] \<and> row ! 2 = no_bars (aa_keys a)"
    using b ev(4) [OF hex] addr_def by blast
qed

end
