(* ===== verification/OkfBlocks.thy ===== *)
theory OkfBlocks imports OkfLaws begin

text \<open>
  The generated blocks of \<open>upsert_block\<close>: what a second update finds, and what a stray marker costs.
\<close>

section \<open>Markers\<close>

lemma contains_drop: "contains s p \<longleftrightarrow> (\<exists>i. i \<le> length s \<and> startswith (drop i s) p)"
  by (auto simp: contains_iff)

lemma find_None_iff: "find_from p 0 s = None \<longleftrightarrow> \<not> contains s p"
proof
  show "find_from p 0 s = None \<Longrightarrow> \<not> contains s p" using find_from_None [of p 0 s] by (auto simp: contains_drop)
  show "\<not> contains s p \<Longrightarrow> find_from p 0 s = None"
  proof (rule ccontr)
    assume n: "\<not> contains s p" "find_from p 0 s \<noteq> None"
    then obtain k where "find_from p 0 s = Some k" by blast
    then have "startswith (drop k s) p" "k \<le> length s"
      using find_at_Some [of p 0 s k] by (simp_all add: find_from_def)
    with n(1) show False by (auto simp: contains_drop)
  qed
qed

lemma find_SomeD:
  assumes "find_from p 0 s = Some i"
  shows "i \<le> length s" "startswith (drop i s) p" "\<not> contains (take i s) p \<or> p = []"
proof -
  show "i \<le> length s" "startswith (drop i s) p"
    using assms find_at_Some [of p 0 s i] by (simp_all add: find_from_def)
  have none: "\<forall>j < i. \<not> startswith (drop j s) p" using find_from_Some [OF assms] by simp
  show "\<not> contains (take i s) p \<or> p = []"
  proof (intro disjCI notI)
    assume "p \<noteq> []" "contains (take i s) p"
    then obtain j where j: "startswith (drop j (take i s)) p" "j \<le> length (take i s)" by (auto simp: contains_drop)
    then obtain u where u: "drop j (take i s) = p @ u" by (auto simp: startswith_iff)
    then have "drop j (take i s) \<noteq> []" using \<open>p \<noteq> []\<close> by simp
    then have "j < i" by simp
    moreover have "drop i s = drop (i - j) (drop j s)" using \<open>j < i\<close> by simp
    then have "drop j s = drop j (take i s) @ drop i s" by (metis append_take_drop_id drop_take)
    then have "startswith (drop j s) p" by (simp add: u startswith_iff)
    ultimately show False using none by blast
  qed
qed

text \<open>A marker: it opens with the only angle of its kind and holds no line break.\<close>

definition marker :: "string \<Rightarrow> bool" where
  "marker m \<longleftrightarrow> m \<noteq> [] \<and> hd m = CHR ''<'' \<and> CHR ''<'' \<notin> set (tl m) \<and> CHR 0x0A \<notin> set m"

lemma key_chars: "c \<in> set (marker_key k) \<Longrightarrow> c \<noteq> CHR ''<'' \<and> c \<noteq> CHR 0x0A"
proof -
  have "\<not> is_wordc (CHR ''<'')" "\<not> is_wordc (CHR 0x0A)" by code_simp+
  then show "c \<in> set (marker_key k) \<Longrightarrow> ?thesis" by (auto simp: marker_key_def)
qed

lemma marks: "marker (start_mark k)" "marker (end_mark k)" "\<not> startswith (start_mark k @ x) (end_mark k)"
proof -
  show "marker (start_mark k)" "marker (end_mark k)"
    using key_chars [of _ k] by (auto simp: marker_def start_mark_def end_mark_def)
  have a: "start_mark k @ x = (''<!-- SP_GENERATED:'' @ marker_key k) @ '':START -->'' @ x"
    "end_mark k = (''<!-- SP_GENERATED:'' @ marker_key k) @ '':END -->''"
    by (simp_all add: start_mark_def end_mark_def)
  have same: "startswith (p @ u) (p @ v) \<longleftrightarrow> startswith u v" for p u v by (simp add: startswith_def)
  show "\<not> startswith (start_mark k @ x) (end_mark k)" unfolding a same by (simp add: startswith_def)
qed

lemma no_straddle:
  assumes "marker m" and "startswith (drop p (x @ y)) m" and "p < length x"
    and "y = [] \<or> hd y \<notin> set (tl m)"
  shows "startswith (drop p x) m"
proof -
  obtain u where u: "drop p x @ y = m @ u" using assms(2,3) by (auto simp: startswith_iff)
  then obtain w where "drop p x = m @ w \<or> m = drop p x @ w \<and> y = w @ u" by (auto simp: append_eq_append_conv2)
  then consider (inside) v where "drop p x = m @ v" | (over) v where "m = drop p x @ v" "v \<noteq> []" "y = v @ u"
    by (cases "w = []") auto
  then show ?thesis
  proof cases
    case inside
    then show ?thesis by (simp add: startswith_iff)
  next
    case over
    have "drop p x \<noteq> []" using assms(3) by simp
    then have "hd v \<in> set (tl m)" using over(1,2) by (cases "drop p x") auto
    moreover have "hd y = hd v" "y \<noteq> []" using over(2,3) by simp_all
    ultimately show ?thesis using assms(4) by simp
  qed
qed

lemma marker_hd: "marker m \<Longrightarrow> startswith s m \<Longrightarrow> s \<noteq> [] \<and> hd s = CHR ''<''"
  by (cases m) (auto simp: marker_def startswith_iff)

lemma find_left:
  assumes "marker m" and "find_from m 0 x = Some i" and "y = [] \<or> hd y \<notin> set (tl m)"
  shows "find_from m 0 (x @ y) = Some i"
proof (rule find_first)
  note d = find_SomeD [OF assms(2)]
  have lt: "i < length x" using d(1,2) marker_hd [OF assms(1) d(2)] by (simp add: le_neq_implies_less)
  show "i \<le> length (x @ y)" "startswith (drop i (x @ y)) m"
    using d(1,2) by (auto simp: startswith_iff)
  show "\<forall>j < i. \<not> startswith (drop j (x @ y)) m"
  proof (intro allI impI notI)
    fix j assume j: "j < i" "startswith (drop j (x @ y)) m"
    then have "startswith (drop j x) m" using no_straddle [OF assms(1) j(2)] lt assms(3) by simp
    then show False using find_from_Some [OF assms(2)] j(1) by simp
  qed
qed

lemma find_right:
  assumes "marker m" and "\<not> contains x m" and "find_from m 0 y = Some i" and "hd y \<notin> set (tl m)"
  shows "find_from m 0 (x @ y) = Some (length x + i)"
proof (rule find_first)
  note d = find_SomeD [OF assms(3)]
  show "length x + i \<le> length (x @ y)" "startswith (drop (length x + i) (x @ y)) m" using d(1,2) by simp_all
  show "\<forall>j < length x + i. \<not> startswith (drop j (x @ y)) m"
  proof (intro allI impI notI)
    fix j assume j: "j < length x + i" "startswith (drop j (x @ y)) m"
    show False
    proof (cases "j < length x")
      case True
      then have "startswith (drop j x) m" using no_straddle [OF assms(1) j(2)] assms(4) by simp
      then show False using assms(2) True by (auto simp: contains_drop)
    next
      case False
      then have "startswith (drop (j - length x) y) m" using j(2) by simp
      then show False using find_from_Some [OF assms(3)] j(1) False by auto
    qed
  qed
qed

section \<open>A block is found again\<close>

definition inner :: "string \<Rightarrow> string" where
  "inner content = rev (dropWhile (\<lambda>c. c = CHR 0x0A) (rev content))"

lemma inner_prefix: "\<exists>u. content = inner content @ u"
  by (metis append.assoc inner_def rev_append rev_rev_ident takeWhile_dropWhile_id)

lemma inner_contains: "\<not> contains content p \<Longrightarrow> \<not> contains (inner content) p"
proof
  assume n: "\<not> contains content p" and "contains (inner content) p"
  then obtain i where i: "i \<le> length (inner content)" "startswith (drop i (inner content)) p" by (auto simp: contains_drop)
  obtain u where u: "content = inner content @ u" using inner_prefix by blast
  then have "startswith (drop i content) p" using i by (metis append.assoc drop_append diff_is_0_eq drop0 startswith_iff)
  moreover have "i \<le> length content" using i(1) u by (metis le_add1 le_trans length_append)
  ultimately show False using n by (auto simp: contains_drop)
qed

lemma block_marks:
  assumes "\<not> contains content (end_mark k)"
  shows "find_from (start_mark k) 0 (block_of k content @ rest) = Some 0"
    "find_from (end_mark k) 0 (block_of k content @ rest) = Some (length (block_of k content) - length (end_mark k))"
proof -
  let ?S = "start_mark k" and ?E = "end_mark k" and ?b = "inner content"
  have blk: "block_of k content = ?S @ nl @ ?b @ nl @ ?E" by (simp add: block_of_def inner_def)
  show "find_from ?S 0 (block_of k content @ rest) = Some 0"
    by (rule find_first) (simp_all add: blk)
  have "\<not> contains (?S @ nl @ ?b) ?E"
  proof
    assume "contains (?S @ nl @ ?b) ?E"
    then obtain p where p: "startswith (drop p (?S @ nl @ ?b)) ?E" "p \<le> length (?S @ nl @ ?b)" by (auto simp: contains_drop)
    note h = marker_hd [OF marks(2) p(1)]
    consider (first) "p = 0" | (mid) "0 < p" "p < length ?S" | (line) "p = length ?S"
      | (body) q where "p = length ?S + 1 + q" by (metis add.commute less_imp_add_positive linorder_cases not_gr_zero add.assoc Suc_eq_plus1 less_iff_Suc_add)
    then show False
    proof cases
      case first
      then show False using p(1) marks(3) by simp
    next
      case mid
      have "hd (drop p (?S @ nl @ ?b)) = ?S ! p" using mid(2) by (simp add: hd_drop_conv_nth nth_append)
      moreover have "?S ! p \<in> set (tl ?S)" using mid by (simp add: in_set_conv_nth nth_tl) (metis Suc_pred nth_tl length_tl less_diff_conv diff_Suc_1 Suc_eq_plus1 diff_less_mono Suc_leI)
      ultimately show False using h marks(1) by (simp add: marker_def)
    next
      case line
      then show False using h by (simp add: nl_def)
    next
      case body
      then have "drop p (?S @ nl @ ?b) = drop q ?b" by (simp add: nl_def)
      then have "startswith (drop q ?b) ?E" "q \<le> length ?b" using p body by (auto simp: nl_def)
      then show False using inner_contains [OF assms] by (auto simp: contains_drop)
    qed
  qed
  moreover have "find_from ?E 0 (nl @ ?E @ rest) = Some 1"
  proof (rule find_first)
    show "\<forall>j<1. \<not> startswith (drop j (nl @ ?E @ rest)) ?E"
      using marker_hd [OF marks(2), of "nl @ ?E @ rest" k] by (auto simp: nl_def)
  qed (simp_all add: nl_def)
  moreover have "hd (nl @ ?E @ rest) \<notin> set (tl ?E)"
    using marks(2) [of k] by (cases ?E) (auto simp: marker_def nl_def)
  ultimately have "find_from ?E 0 ((?S @ nl @ ?b) @ nl @ ?E @ rest) = Some (length (?S @ nl @ ?b) + 1)"
    using find_right [OF marks(2)] by blast
  then show "find_from ?E 0 (block_of k content @ rest) = Some (length (block_of k content) - length ?E)"
    by (simp add: blk nl_def)
qed

lemma block_hd: "marker m \<Longrightarrow> hd (block_of k content @ rest) \<notin> set (tl m)"
proof -
  have "hd (block_of k content @ rest) = CHR ''<''" by (simp add: block_of_def start_mark_def)
  then show "marker m \<Longrightarrow> ?thesis" by (simp add: marker_def)
qed

lemma upsert_again:
  assumes "\<not> contains content (end_mark k)" and "\<not> contains pre (start_mark k)" and "\<not> contains pre (end_mark k)"
  shows "upsert_block k c2 (pre @ block_of k content @ rest) = pre @ block_of k c2 @ rest"
proof -
  note b = block_marks [OF assms(1), of rest]
  have s: "find_from (start_mark k) 0 (pre @ block_of k content @ rest) = Some (length pre)"
    using find_right [OF marks(1) assms(2) b(1) block_hd [OF marks(1)]] by simp
  have e: "find_from (end_mark k) 0 (pre @ block_of k content @ rest)
      = Some (length pre + (length (block_of k content) - length (end_mark k)))"
    using find_right [OF marks(2) assms(3) b(2) block_hd [OF marks(2)]] .
  have l: "length (end_mark k) < length (block_of k content)" by (simp add: block_of_def nl_def)
  define n where "n = length (block_of k content) - length (end_mark k)"
  have n: "0 < n" "n + length (end_mark k) = length (block_of k content)" using l by (simp_all add: n_def)
  have d: "drop (length pre + n + length (end_mark k)) (pre @ block_of k content @ rest) = rest"
    using n(2) by (simp add: add.assoc)
  show ?thesis using n(1) d by (simp add: upsert_block_def s e [folded n_def])
qed


section \<open>Updating twice\<close>

definition well_marked :: "string \<Rightarrow> string \<Rightarrow> bool" where
  "well_marked k t \<longleftrightarrow>
     (case (find_from (start_mark k) 0 t, find_from (end_mark k) 0 t) of
        (Some i, Some j) \<Rightarrow> i < j | (None, None) \<Rightarrow> True | _ \<Rightarrow> False)"

definition pad_of :: "string \<Rightarrow> string" where
  "pad_of t = (if t = [] \<or> endswith t (nl @ nl) then [] else if endswith t nl then nl else nl @ nl)"

lemma appended_pad: "appended k content t = t @ pad_of t @ block_of k content @ nl"
  by (simp add: appended_def pad_of_def)

lemma pad_absent:
  assumes "\<not> contains t m" and "marker m"
  shows "\<not> contains (t @ pad_of t) m"
proof
  assume "contains (t @ pad_of t) m"
  then obtain p where p: "p \<le> length (t @ pad_of t)" "startswith (drop p (t @ pad_of t)) m" by (auto simp: contains_drop)
  have nls: "set (pad_of t) \<subseteq> {CHR 0x0A}" by (simp add: pad_of_def nl_def)
  have nm: "CHR 0x0A \<notin> set (tl m)" using assms(2) by (cases m) (auto simp: marker_def)
  show False
  proof (cases "p < length t")
    case True
    have "pad_of t = [] \<or> hd (pad_of t) \<notin> set (tl m)" using nls nm by (cases "pad_of t") auto
    from no_straddle [OF assms(2) p(2) True this] show False using assms(1) True by (auto simp: contains_drop)
  next
    case False
    then have "startswith (drop (p - length t) (pad_of t)) m" using p(2) by simp
    from marker_hd [OF assms(2) this] have "CHR ''<'' \<in> set (pad_of t)" by (metis hd_in_set in_set_dropD)
    with nls show False by auto
  qed
qed

lemma take_absent: "find_from m 0 t = Some j \<Longrightarrow> i \<le> j \<Longrightarrow> m \<noteq> [] \<Longrightarrow> \<not> contains (take i t) m"
proof
  assume j: "find_from m 0 t = Some j" "i \<le> j" "m \<noteq> []" and "contains (take i t) m"
  then obtain p where p: "startswith (drop p (take i t)) m" by (auto simp: contains_drop)
  have n: "\<not> contains (take j t) m" using find_SomeD(3) [OF j(1)] j(3) by simp
  obtain u where u: "drop p (take i t) = m @ u" using p by (auto simp: startswith_iff)
  then have "drop p (take i t) \<noteq> []" using j(3) by simp
  then have lt: "p < length (take i t)" by (simp only: drop_eq_Nil linorder_not_le)
  have "take j t = take i t @ drop i (take j t)" using j(2) by (metis append_take_drop_id min_absorb1 take_take)
  moreover have "drop p (take i t @ r) = drop p (take i t) @ r" for r using lt by simp
  ultimately have d: "drop p (take j t) = m @ u @ drop i (take j t)" by (metis append.assoc u)
  then have "startswith (drop p (take j t)) m" by (simp only: startswith_append)
  moreover have "p \<le> length (take j t)" using lt j(2) by simp
  ultimately have "startswith (drop p (take j t)) m" "p \<le> length (take j t)" by simp_all
  with n show False by (auto simp: contains_drop)
qed


text \<open>
  A stray start marker costs the file: when a file holds the start marker of a key and no end
  marker, the first update appends a block and the second one replaces everything from the stray
  marker to the end of that block, so all that was written after the marker is gone.
\<close>

theorem stray_start_eats:
  assumes "find_from (start_mark k) 0 t = Some i" and "\<not> contains t (end_mark k)" and "\<not> contains c1 (end_mark k)"
  shows "upsert_block k c2 (upsert_block k c1 t) = take i t @ block_of k c2 @ nl"
proof -
  have e: "find_from (end_mark k) 0 t = None" using assms(2) by (simp add: find_None_iff)
  have u: "upsert_block k c1 t = (t @ pad_of t) @ block_of k c1 @ nl"
    by (simp add: upsert_block_def assms(1) e appended_pad)
  have h: "hd ((pad_of t @ block_of k c1 @ nl)) \<notin> set (tl (start_mark k))"
    using marks(1) [of k] by (cases "start_mark k") (auto simp: marker_def pad_of_def nl_def block_of_def)
  have s: "find_from (start_mark k) 0 (upsert_block k c1 t) = Some i"
    using find_left [OF marks(1) assms(1), of "pad_of t @ block_of k c1 @ nl"] h by (simp add: u)
  let ?x = "t @ pad_of t" and ?n = "length (block_of k c1) - length (end_mark k)"
  have f: "find_from (end_mark k) 0 (upsert_block k c1 t) = Some (length ?x + ?n)"
    unfolding u by (rule find_right [OF marks(2) pad_absent [OF assms(2) marks(2)] block_marks(2) [OF assms(3)]
      block_hd [OF marks(2)]])
  have l: "length (end_mark k) < length (block_of k c1)" by (simp add: block_of_def nl_def)
  define n where "n = ?n"
  have n: "0 < n" "n + length (end_mark k) = length (block_of k c1)" using l by (simp_all add: n_def)
  have i: "i \<le> length t" using find_SomeD(1) [OF assms(1)] .
  have d: "drop (length ?x + n + length (end_mark k)) (upsert_block k c1 t) = nl"
    unfolding u using n(2) by (simp add: add.assoc)
  have tk: "take i (upsert_block k c1 t) = take i t" unfolding u using i by simp
  have lt: "i < length ?x + n" using i n(1) by simp
  show ?thesis
    unfolding upsert_block_def [of k c2] s f [folded n_def] prod.case option.case if_P [OF lt] tk d ..
qed


theorem stray_start_eats_witness:
  "upsert_block ''k'' ''two'' (upsert_block ''k'' ''one'' (start_mark ''k'' @ nl @ ''his words'')) = block_of ''k'' ''two'' @ nl"
proof -
  have "find_from (start_mark ''k'') 0 (start_mark ''k'' @ nl @ ''his words'') = Some 0"
    "\<not> contains (start_mark ''k'' @ nl @ ''his words'') (end_mark ''k'')" "\<not> contains ''one'' (end_mark ''k'')" by code_simp+
  from stray_start_eats [OF this, of "''two''"] show ?thesis by simp
qed

end
