(* ===== verification/Telemetry.thy ===== *)
theory Telemetry imports Prelude Contracts begin

text \<open>
  The telemetry sink of \<open>harness/telemetry/sink.py\<close>: one file per distinct record, addressed by a
  digest of its text, and one index line for each. The digest, the JSON reader, \<open>str\<close> of a JSON value
  and the clock are arguments. Reading an attribute of a value that is no object is the error of the
  source: \<open>None\<close> as the result of \<open>sink\<close>.
\<close>

datatype json = JNull | JBool bool | JNum real | JStr string | JList "json list" | JObj "(string \<times> json) list"

record sink_env =
  se_digest :: "string \<Rightarrow> string"
  se_loads :: "string \<Rightarrow> json option"
  se_str :: "json \<Rightarrow> string"
  se_now :: int

record index_line =
  il_addr :: string
  il_kind :: string
  il_class :: string
  il_redacted :: bool
  il_ts :: json
  il_ingest :: int

datatype tline = TLine index_line | TJunk

record sink_state =
  tk_records :: "(string \<times> string) list"
  tk_log :: "tline list option"
  tk_seen :: nat
  tk_new :: nat

definition empty_sink :: sink_state where
  "empty_sink = \<lparr>tk_records = [], tk_log = None, tk_seen = 0, tk_new = 0\<rparr>"

section \<open>Reading a record\<close>

definition get_or :: "json \<Rightarrow> string \<Rightarrow> (string \<times> json) list \<Rightarrow> json" where
  "get_or d k fs = (case map_of fs k of None \<Rightarrow> d | Some v \<Rightarrow> v)"

fun truthy :: "json \<Rightarrow> bool" where
  "truthy JNull = False"
| "truthy (JBool b) = b"
| "truthy (JNum x) = (x \<noteq> 0)"
| "truthy (JStr s) = (s \<noteq> [])"
| "truthy (JList xs) = (xs \<noteq> [])"
| "truthy (JObj fs) = (fs \<noteq> [])"

fun class_of :: "(json \<Rightarrow> string) \<Rightarrow> json \<Rightarrow> string option" where
  "class_of pystr (JObj fs) = Some (pystr (get_or (JStr ''-'') ''class'' fs))"
| "class_of pystr v = None"

definition kind_and_class :: "(json \<Rightarrow> string) \<Rightarrow> (string \<times> json) list \<Rightarrow> (string \<times> string) option" where
  "kind_and_class pystr fs =
     (if map_of fs ''kind'' = Some (JStr ''turn'')
      then map_option (Pair ''turn'') (class_of pystr (get_or (JObj []) ''turn'' fs))
      else if map_of fs ''kind'' = Some (JStr ''spine'') then Some (''spine'', ''-'')
      else if map_of fs ''recall'' \<noteq> None
      then map_option (Pair ''decision'') (class_of pystr (get_or (JObj []) ''recall'' fs))
      else Some (''?'', ''-''))"

definition index_of :: "sink_env \<Rightarrow> string \<Rightarrow> string \<times> string \<Rightarrow> (string \<times> json) list \<Rightarrow> index_line" where
  "index_of v addr kc fs =
     \<lparr>il_addr = addr, il_kind = fst kc, il_class = snd kc, il_redacted = truthy (get_or (JBool False) ''redacted'' fs),
      il_ts = get_or JNull ''ts'' fs, il_ingest = se_now v\<rparr>"

section \<open>The sink\<close>

definition store_record :: "string \<Rightarrow> string \<Rightarrow> index_line \<Rightarrow> sink_state \<Rightarrow> sink_state" where
  "store_record addr body x s =
     s\<lparr>tk_records := tk_records s @ [(addr, body)],
       tk_log := Some ((case tk_log s of None \<Rightarrow> [] | Some ls \<Rightarrow> ls) @ [TLine x]), tk_new := tk_new s + 1\<rparr>"

definition sink :: "sink_env \<Rightarrow> string \<Rightarrow> sink_state \<Rightarrow> (string \<times> bool) option \<times> sink_state" where
  "sink v record_json s =
     (let s1 = s\<lparr>tk_seen := tk_seen s + 1\<rparr>;
          body = strip record_json;
          addr = se_digest v body in
      if map_of (tk_records s1) addr \<noteq> None then (Some (addr, False), s1)
      else case se_loads v body of
             None \<Rightarrow> (Some (addr, False), s1)
           | Some (JObj fs) \<Rightarrow>
               (case kind_and_class (se_str v) fs of
                  None \<Rightarrow> (None, s1)
                | Some kc \<Rightarrow> (Some (addr, True), store_record addr body (index_of v addr kc fs) s1))
           | Some other \<Rightarrow> (None, s1))"

fun index_lines :: "tline list \<Rightarrow> index_line list" where
  "index_lines [] = []"
| "index_lines (TLine x # ls) = x # index_lines ls"
| "index_lines (TJunk # ls) = index_lines ls"

definition indexed_lines :: "sink_state \<Rightarrow> index_line list" where
  "indexed_lines s = (case tk_log s of None \<Rightarrow> [] | Some ls \<Rightarrow> index_lines ls)"

record sink_stats =
  q_records :: nat
  q_redacted :: nat
  q_kinds :: "(string \<times> nat) list"

definition sink_stats_of :: "sink_state \<Rightarrow> sink_stats" where
  "sink_stats_of s =
     (let xs = indexed_lines s; kinds = rev (remdups (rev (map il_kind xs)));
          by_kind = map (\<lambda>k. (k, count_list (map il_kind xs) k)) kinds in
      \<lparr>q_records = sum_list (map snd by_kind), q_redacted = length (filter il_redacted xs), q_kinds = by_kind\<rparr>)"

definition sink_many :: "sink_env \<Rightarrow> string list \<Rightarrow> sink_state \<Rightarrow> sink_state" where
  "sink_many v rs s = fold (\<lambda>r s. snd (sink v r s)) rs s"

section \<open>The contract of a sink\<close>

definition holds :: "sink_env \<Rightarrow> string \<Rightarrow> sink_state \<Rightarrow> bool" where
  "holds v r s \<longleftrightarrow> map_of (tk_records s) (se_digest v (strip r)) \<noteq> None"

definition is_new :: "(string \<times> bool) option \<Rightarrow> bool" where
  "is_new out \<longleftrightarrow> (case out of None \<Rightarrow> False | Some (a, n) \<Rightarrow> n)"

lemma sink_cases:
  "(tk_records (snd (sink v r s)) = tk_records s \<and> tk_log (snd (sink v r s)) = tk_log s \<and> tk_new (snd (sink v r s)) = tk_new s
      \<and> \<not> is_new (fst (sink v r s)))
   \<or> (\<exists>x. \<not> holds v r s \<and> is_new (fst (sink v r s)) \<and> il_addr x = se_digest v (strip r)
        \<and> snd (sink v r s) = store_record (il_addr x) (strip r) x (s\<lparr>tk_seen := tk_seen s + 1\<rparr>))"
proof (cases "holds v r s")
  case True
  then show ?thesis by (auto simp: sink_def Let_def holds_def is_new_def)
next
  case False
  show ?thesis
  proof (cases "\<exists>fs kc. se_loads v (strip r) = Some (JObj fs) \<and> kind_and_class (se_str v) fs = Some kc")
    case True
    then obtain fs kc where fs: "se_loads v (strip r) = Some (JObj fs)" "kind_and_class (se_str v) fs = Some kc" by blast
    have "snd (sink v r s) = store_record (se_digest v (strip r)) (strip r)
        (index_of v (se_digest v (strip r)) kc fs) (s\<lparr>tk_seen := tk_seen s + 1\<rparr>)"
      and "is_new (fst (sink v r s))"
      using False by (simp_all add: sink_def Let_def holds_def is_new_def fs)
    then show ?thesis using False
      by (intro disjI2 exI [of _ "index_of v (se_digest v (strip r)) kc fs"]) (simp add: index_of_def)
  next
    case f: False
    then show ?thesis using False
      by (auto simp: sink_def Let_def holds_def is_new_def split: option.split json.split)
  qed
qed

interpretation telemetry: content_sink "\<lambda>r s. (is_new (fst (sink v r s)), snd (sink v r s))" "holds v" for v
proof unfold_locales
  fix r q s
  show "fst (is_new (fst (sink v r s)), snd (sink v r s)) \<Longrightarrow> holds v r (snd (is_new (fst (sink v r s)), snd (sink v r s)))"
    using sink_cases [of v r s] by (auto simp: holds_def store_record_def map_add_def split: option.split)
  show "holds v q s \<Longrightarrow> holds v q (snd (is_new (fst (sink v r s)), snd (sink v r s)))"
    using sink_cases [of v r s] by (auto simp: holds_def store_record_def map_add_def split: option.split)
  show "holds v r s \<Longrightarrow> (is_new (fst (sink v r s)), snd (sink v r s)) =
      (False, snd (is_new (fst (sink v r s)), snd (sink v r s)))"
    using sink_cases [of v r s] by auto
  show "holds v r s \<Longrightarrow> holds v q (snd (is_new (fst (sink v r s)), snd (sink v r s))) \<longleftrightarrow> holds v q s"
    using sink_cases [of v r s] by (auto simp: holds_def)
qed

section \<open>The index tells the records\<close>

definition sink_ok :: "sink_state \<Rightarrow> bool" where
  "sink_ok s \<longleftrightarrow> map il_addr (indexed_lines s) = map fst (tk_records s) \<and> distinct (map fst (tk_records s))
     \<and> tk_new s = length (tk_records s)"

lemma index_lines_append [simp]: "index_lines (a @ b) = index_lines a @ index_lines b"
  by (induction a rule: index_lines.induct) simp_all

lemma indexed_store [simp]: "indexed_lines (store_record addr body x s) = indexed_lines s @ [x]"
  by (simp add: indexed_lines_def store_record_def split: option.split)

lemma sink_ok_step: "sink_ok s \<Longrightarrow> sink_ok (snd (sink v r s))"
  using sink_cases [of v r s]
proof
  assume "sink_ok s" and "tk_records (snd (sink v r s)) = tk_records s \<and> tk_log (snd (sink v r s)) = tk_log s
    \<and> tk_new (snd (sink v r s)) = tk_new s \<and> \<not> is_new (fst (sink v r s))"
  then show ?thesis by (simp add: sink_ok_def indexed_lines_def)
next
  assume s: "sink_ok s" and "\<exists>x. \<not> holds v r s \<and> is_new (fst (sink v r s)) \<and> il_addr x = se_digest v (strip r)
        \<and> snd (sink v r s) = store_record (il_addr x) (strip r) x (s\<lparr>tk_seen := tk_seen s + 1\<rparr>)"
  then obtain x where x: "\<not> holds v r s" "il_addr x = se_digest v (strip r)"
    "snd (sink v r s) = store_record (il_addr x) (strip r) x (s\<lparr>tk_seen := tk_seen s + 1\<rparr>)" by blast
  have i: "indexed_lines (s\<lparr>tk_seen := n\<rparr>) = indexed_lines s" for n by (simp add: indexed_lines_def)
  have "il_addr x \<notin> fst ` set (tk_records s)" using x(1,2) by (simp add: holds_def map_of_eq_None_iff)
  then show ?thesis using s by (simp add: x(3) sink_ok_def i) (simp add: store_record_def)
qed

lemma sink_many_ok: "sink_ok s \<Longrightarrow> sink_ok (sink_many v rs s)"
  unfolding sink_many_def by (induction rs arbitrary: s) (simp_all add: sink_ok_step)

lemma sink_many_seen: "tk_seen (sink_many v rs s) = tk_seen s + length rs"
proof -
  have "tk_seen (snd (sink v r s)) = tk_seen s + 1" for r s
    using sink_cases [of v r s]
    by (auto simp: sink_def Let_def store_record_def split: option.split json.split)
  then show ?thesis unfolding sink_many_def by (induction rs arbitrary: s) simp_all
qed

lemma sum_counts: "distinct ks \<Longrightarrow> set xs \<subseteq> set ks \<Longrightarrow> sum_list (map (count_list xs) ks) = length xs"
proof -
  assume d: "distinct ks" and s: "set xs \<subseteq> set ks"
  have "sum_list (map (count_list xs) ks) = sum (count_list xs) (set ks)" by (rule sum_list_distinct_conv_sum_set [OF d])
  also have "\<dots> = sum (count_list xs) (set xs)"
    by (rule sum.mono_neutral_right) (use s in \<open>auto simp: count_list_0_iff\<close>)
  finally show ?thesis by (simp add: sum_count_set)
qed

lemma stats_records: "q_records (sink_stats_of s) = length (indexed_lines s)"
proof -
  let ?k = "map il_kind (indexed_lines s)"
  have "sum_list (map (count_list ?k) (rev (remdups (rev ?k)))) = length ?k" by (rule sum_counts) auto
  then show ?thesis by (simp add: sink_stats_of_def Let_def comp_def)
qed

section \<open>Sinking again\<close>

definition storable :: "sink_env \<Rightarrow> string \<Rightarrow> bool" where
  "storable v r \<longleftrightarrow> (\<exists>fs kc. se_loads v (strip r) = Some (JObj fs) \<and> kind_and_class (se_str v) fs = Some kc)"

lemma sink_storable: "storable v r \<Longrightarrow> holds v r (snd (sink v r s))"
  by (auto simp: storable_def sink_def Let_def holds_def store_record_def map_add_def split: option.split json.split)

lemma sink_same:
  assumes "storable v r \<longrightarrow> holds v r s"
  shows "snd (sink v r s) = s\<lparr>tk_seen := tk_seen s + 1\<rparr>"
  using assms by (auto simp: storable_def sink_def Let_def holds_def split: option.split json.split)

lemma sink_many_holds: "holds v q s \<Longrightarrow> holds v q (sink_many v rs s)"
  unfolding sink_many_def
proof (induction rs arbitrary: s)
  case (Cons r rs)
  then show ?case using telemetry.put_keeps [of v q s r] by simp
qed simp

lemma sink_many_storable: "r \<in> set rs \<Longrightarrow> storable v r \<Longrightarrow> holds v r (sink_many v rs s)"
proof (induction rs arbitrary: s)
  case (Cons q rs)
  show ?case
  proof (cases "r = q")
    case True
    then have "holds v r (snd (sink v q s))" using sink_storable [OF Cons.prems(2)] by simp
    then show ?thesis using sink_many_holds by (simp add: sink_many_def)
  next
    case False
    then show ?thesis using Cons by (simp add: sink_many_def)
  qed
qed simp

lemma holds_seen [simp]: "holds v r (s\<lparr>tk_seen := n\<rparr>) = holds v r s"
  by (simp add: holds_def)

lemma sink_many_same:
  "\<forall>r \<in> set rs. storable v r \<longrightarrow> holds v r s \<Longrightarrow> sink_many v rs s = s\<lparr>tk_seen := tk_seen s + length rs\<rparr>"
proof (induction rs arbitrary: s)
  case (Cons r rs)
  then show ?case using sink_same [of v r s] by (simp add: sink_many_def)
qed (simp add: sink_many_def)

section \<open>Properties\<close>



end
