(* ===== verification/Spine.thy ===== *)
theory Spine imports Recall Hygiene Persona Telemetry begin

text \<open>
  The spine of \<open>harness/control/spine.py\<close>: deciders in priority order, executors, verifiers, receipts,
  the receipt ring and its flush into the telemetry sink, the lane policy, and the stock deciders
  over the registry and persona.md. A stage that raises is \<open>Inl\<close> of its message or \<open>None\<close>. Durations
  are not modelled.
\<close>

datatype payload =
    PReply string | PReport "reg_stats option" | PFacts "string list" | PMessage string | PTier string | PNone

record view =
  w_phase :: string
  w_user :: string
  w_reply :: string

record decision =
  d_kind :: string
  d_payload :: payload
  d_decider :: string
  d_priority :: int

record receipt =
  rc_kind :: string
  rc_decider :: string
  rc_ok :: bool
  rc_verified :: "bool option"
  rc_result :: string

record 's decider =
  de_name :: string
  de_priority :: int
  de_decide :: "'s \<Rightarrow> view \<Rightarrow> string + decision list"

type_synonym 's executors = "(string \<times> (decision \<Rightarrow> 's \<Rightarrow> (string + string) \<times> 's)) list"
type_synonym 's verifiers = "(string \<times> (decision \<Rightarrow> string \<Rightarrow> 's \<Rightarrow> string + bool)) list"

section \<open>The fold\<close>

definition tagged :: "'s decider \<Rightarrow> decision \<Rightarrow> decision" where
  "tagged d dec = dec\<lparr>d_decider := (if d_decider dec \<noteq> [] then d_decider dec else de_name d),
                     d_priority := de_priority d\<rparr>"

definition decider_error :: "'s decider \<Rightarrow> string \<Rightarrow> receipt" where
  "decider_error d e = \<lparr>rc_kind = ''(decide)'', rc_decider = de_name d, rc_ok = False, rc_verified = None,
     rc_result = ''decider error: '' @ e\<rparr>"

fun decide_all :: "view \<Rightarrow> 's \<Rightarrow> 's decider list \<Rightarrow> receipt list \<times> decision list" where
  "decide_all v s [] = ([], [])"
| "decide_all v s (d # ds) =
     (case decide_all v s ds of
        (rs, decs) \<Rightarrow>
          (case de_decide d s v of
             Inl e \<Rightarrow> (decider_error d e # rs, decs)
           | Inr out \<Rightarrow> (rs, map (tagged d) out @ decs)))"

definition execute ::
  "'s executors \<Rightarrow> 's verifiers \<Rightarrow> decision \<Rightarrow> 's \<Rightarrow> receipt \<times> 's" where
  "execute exs vfs dec s =
     (case map_of exs (d_kind dec) of
        None \<Rightarrow> (\<lparr>rc_kind = d_kind dec, rc_decider = d_decider dec, rc_ok = False, rc_verified = None,
                  rc_result = ''no executor''\<rparr>, s)
      | Some ex \<Rightarrow>
          (case ex dec s of
             (Inl e, s1) \<Rightarrow>
               (\<lparr>rc_kind = d_kind dec, rc_decider = d_decider dec, rc_ok = False, rc_verified = None,
                 rc_result = take 400 (''executor error: '' @ e)\<rparr>, s1)
           | (Inr result, s1) \<Rightarrow>
               (case map_of vfs (d_kind dec) of
                  None \<Rightarrow> (\<lparr>rc_kind = d_kind dec, rc_decider = d_decider dec, rc_ok = True, rc_verified = None,
                            rc_result = take 400 result\<rparr>, s1)
                | Some vf \<Rightarrow>
                    (case vf dec result s1 of
                       Inl e \<Rightarrow> (\<lparr>rc_kind = d_kind dec, rc_decider = d_decider dec, rc_ok = True,
                          rc_verified = Some False,
                          rc_result = take 400 (result @ '' [verifier error: '' @ e @ '']'')\<rparr>, s1)
                     | Inr b \<Rightarrow> (\<lparr>rc_kind = d_kind dec, rc_decider = d_decider dec, rc_ok = True,
                          rc_verified = Some b, rc_result = take 400 result\<rparr>, s1)))))"

fun execute_all :: "'s executors \<Rightarrow> 's verifiers \<Rightarrow> decision list \<Rightarrow> 's \<Rightarrow> receipt list \<times> 's" where
  "execute_all exs vfs [] s = ([], s)"
| "execute_all exs vfs (dec # decs) s =
     (case execute exs vfs dec s of
        (r, s1) \<Rightarrow> (case execute_all exs vfs decs s1 of (rs, s2) \<Rightarrow> (r # rs, s2)))"

definition by_priority :: "'s decider list \<Rightarrow> 's decider list" where
  "by_priority ds = sort_key de_priority ds"

definition run_spine ::
  "view \<Rightarrow> 's decider list \<Rightarrow> 's executors \<Rightarrow> 's verifiers \<Rightarrow> 's \<Rightarrow> receipt list \<times> 's" where
  "run_spine v deciders exs vfs s =
     (case decide_all v s (by_priority deciders) of
        (failed, decs) \<Rightarrow> (case execute_all exs vfs decs s of (outcomes, s1) \<Rightarrow> (failed @ outcomes, s1)))"

section \<open>The receipt ring\<close>

record ring =
  ri_items :: "(nat \<times> int \<times> receipt) list"
  ri_seq :: nat
  ri_persisted :: nat

definition RING_MAX :: nat where
  "RING_MAX = 200"

definition push_receipt :: "int \<Rightarrow> receipt \<Rightarrow> ring \<Rightarrow> ring" where
  "push_receipt now r g =
     (let items = ri_items g @ [(ri_seq g + 1, now, r)] in
      g\<lparr>ri_items := drop (length items - RING_MAX) items, ri_seq := ri_seq g + 1\<rparr>)"

definition log_receipts :: "int \<Rightarrow> receipt list \<Rightarrow> ring \<Rightarrow> ring" where
  "log_receipts now rs g = fold (push_receipt now) rs g"

definition get_recent_receipts :: "nat \<Rightarrow> ring \<Rightarrow> (int \<times> receipt) list" where
  "get_recent_receipts k g =
     (let items = ri_items g in map snd (if k = 0 then items else drop (length items - k) items))"

text \<open>\<open>dump\<close> is \<open>json.dumps\<close> of the record of a receipt.\<close>

fun persist_loop ::
  "sink_env \<Rightarrow> (int \<Rightarrow> receipt \<Rightarrow> string) \<Rightarrow> nat \<Rightarrow> (nat \<times> int \<times> receipt) list \<Rightarrow> nat \<Rightarrow> sink_state
     \<Rightarrow> (nat \<times> nat \<times> sink_state) option" where
  "persist_loop v dump mark [] hi k = Some (0, hi, k)"
| "persist_loop v dump mark ((i, ts, r) # items) hi k =
     (if i \<le> mark then persist_loop v dump mark items hi k
      else case sink v (dump ts r) k of
             (None, k1) \<Rightarrow> None
           | (Some (addr, fresh), k1) \<Rightarrow>
               (case persist_loop v dump mark items (max hi i) k1 of
                  None \<Rightarrow> None
                | Some (n, hi', k2) \<Rightarrow> Some ((if fresh then n + 1 else n), hi', k2)))"

definition persist_receipts ::
  "sink_env \<Rightarrow> (int \<Rightarrow> receipt \<Rightarrow> string) \<Rightarrow> ring \<Rightarrow> sink_state \<Rightarrow> (nat \<times> ring \<times> sink_state) option" where
  "persist_receipts v dump g k =
     (case persist_loop v dump (ri_persisted g) (ri_items g) (ri_persisted g) k of
        None \<Rightarrow> None
      | Some (n, hi, k1) \<Rightarrow> Some (n, g\<lparr>ri_persisted := hi\<rparr>, k1))"

section \<open>The policy of the lanes\<close>

datatype lane = Toolset | RecallLane | PersonaTags | HygieneLane

fun PRIORITIES :: "lane \<Rightarrow> int" where
  "PRIORITIES Toolset = 10"
| "PRIORITIES RecallLane = 20"
| "PRIORITIES PersonaTags = 30"
| "PRIORITIES HygieneLane = 40"

text \<open>The lanes are ordered by their committed priorities.\<close>

instantiation lane :: linorder
begin

definition less_eq_lane :: "lane \<Rightarrow> lane \<Rightarrow> bool" where
  "less_eq_lane a b \<longleftrightarrow> PRIORITIES a \<le> PRIORITIES b"

definition less_lane :: "lane \<Rightarrow> lane \<Rightarrow> bool" where
  "less_lane a b \<longleftrightarrow> PRIORITIES a < PRIORITIES b"

instance
proof
  fix x y :: lane
  show "x \<le> y \<Longrightarrow> y \<le> x \<Longrightarrow> x = y"
    by (cases x; cases y) (simp_all add: less_eq_lane_def)
qed (auto simp: less_eq_lane_def less_lane_def)

end

datatype event = SpineEvent | L5Event

definition authority_lane :: "string \<Rightarrow> bool \<Rightarrow> bool \<Rightarrow> bool \<Rightarrow> bool \<times> bool \<times> event option" where
  "authority_lane authority_pref auto_recall want_recall looks_q =
     (let want = (if want_recall \<and> \<not> looks_q then False else want_recall);
          (auto, ev) = (if authority_pref = ''spine'' \<and> auto_recall then (False, Some SpineEvent) else (auto_recall, None))
      in if auto \<and> want then (auto, False, Some L5Event) else (auto, want, ev))"

section \<open>The stock stages\<close>

record world =
  s_mem :: mem
  s_law :: law_stats
  s_persona :: "string option"

definition mk_decision :: "string \<Rightarrow> payload \<Rightarrow> decision" where
  "mk_decision k p = \<lparr>d_kind = k, d_payload = p, d_decider = [], d_priority = 50\<rparr>"

definition stock :: "string \<Rightarrow> lane \<Rightarrow> (world \<Rightarrow> view \<Rightarrow> decision list) \<Rightarrow> world decider" where
  "stock name l f = \<lparr>de_name = name, de_priority = PRIORITIES l, de_decide = (\<lambda>s v. Inr (f s v))\<rparr>"

definition persona_tag_decider :: "world decider" where
  "persona_tag_decider =
     stock ''persona_tags'' PersonaTags
       (\<lambda>s v. if w_phase v \<noteq> ''post'' \<or> \<not> found TAG_RE (w_reply v) then []
              else [mk_decision ''persona_shift'' (PReply (w_reply v))])"

definition hygiene_decider :: "world decider" where
  "hygiene_decider =
     stock ''hygiene'' HygieneLane
       (\<lambda>s v. if w_phase v \<noteq> ''tick'' then []
              else if snd (registry_health (s_mem s)) = NeedsCompaction
              then [mk_decision ''compact_registry'' (PReport (fst (registry_health (s_mem s))))] else [])"

definition DECLINE_MSG :: string where
  "DECLINE_MSG = ''I have a record for that, but it does not include that specific detail.''"

definition COUNTERFACT :: string where
  "COUNTERFACT = ''Fact on record (authoritative for this conversation, overrides prior knowledge): ''"

definition withheld :: "string \<Rightarrow> row \<Rightarrow> bool" where
  "withheld query e \<longleftrightarrow> r_class e = ''private-secret'' \<and> attr_absent query (row_text e)"

definition recall_facts :: "string \<Rightarrow> row list \<Rightarrow> string list" where
  "recall_facts query rows =
     map (\<lambda>e. if r_class e = ''counterfact'' then COUNTERFACT @ row_text e else row_text e)
       (filter (\<lambda>e. \<not> withheld query e) rows)"

definition recall_decision :: "seam \<Rightarrow> real \<Rightarrow> string \<Rightarrow> mem \<Rightarrow> law_stats \<Rightarrow> decision list" where
  "recall_decision sv min_overlap user m st =
     (case map snd (fst (search_memories_ranked_rows sv user 3 min_overlap False m st)) of
        [] \<Rightarrow> []
      | best # rest \<Rightarrow>
          if withheld user best then [mk_decision ''decline_recall'' (PMessage DECLINE_MSG)]
          else let facts = recall_facts user (best # rest) in
               if facts = [] then [] else [mk_decision ''inject_recall'' (PFacts facts)])"

definition recall_decider :: "seam \<Rightarrow> real \<Rightarrow> world decider" where
  "recall_decider sv min_overlap =
     stock ''recall'' RecallLane
       (\<lambda>s v. if w_phase v \<noteq> ''pre'' \<or> w_user v = [] then []
              else recall_decision sv min_overlap (w_user v) (s_mem s) (s_law s))"

definition CODING_KW :: "string list" where
  "CODING_KW = [''code'', ''file'', ''edit'', ''fix'', ''bug'', ''test'', ''pytest'', ''function'', ''script'',
     ''refactor'', ''compile'', ''build'', ''implement'', ''write a'', ''debug'', ''error'', ''diff'']"

definition MEMORY_KW :: "string list" where
  "MEMORY_KW = [''remember'', ''forget'', ''memory'', ''memories'', ''recall'', ''know about me'',
     ''what do you know'', ''where did you learn'', ''provenance'', ''stored'']"

definition tier_of :: "string \<Rightarrow> string" where
  "tier_of user =
     (if \<exists>k \<in> set CODING_KW. contains (lower user) k then ''coding''
      else if \<exists>k \<in> set MEMORY_KW. contains (lower user) k then ''memory'' else ''core'')"

definition toolset_decider :: "world decider" where
  "toolset_decider =
     stock ''toolset'' Toolset
       (\<lambda>s v. if w_phase v \<noteq> ''pre'' \<or> w_user v = [] then []
              else if tier_of (w_user v) = ''core'' then []
              else [mk_decision ''select_toolset'' (PTier (tier_of (w_user v)))])"

definition persona_report :: "pstate \<Rightarrow> string" where
  "persona_report st =
     ''persona state now: '' @ join ''; '' (map (\<lambda>(k, v). k @ ''='' @ v) (filter (\<lambda>(k, v). v \<noteq> []) st))"

definition compact_report :: "(nat \<times> nat) option \<Rightarrow> string" where
  "compact_report out =
     (case out of None \<Rightarrow> ''[no registry configured]''
      | Some (kept, dropped) \<Rightarrow>
          ''compacted: kept '' @ dec_nat kept @ '', dropped '' @ dec_nat dropped)"

definition ex_persona :: "decision \<Rightarrow> world \<Rightarrow> (string + string) \<times> world" where
  "ex_persona dec s =
     (case apply_personality_tags (case d_payload dec of PReply r \<Rightarrow> r | other \<Rightarrow> []) (s_persona s) of
        ((bare, st), file') \<Rightarrow> (Inr (persona_report st), s\<lparr>s_persona := file'\<rparr>))"

definition ex_compact :: "decision \<Rightarrow> world \<Rightarrow> (string + string) \<times> world" where
  "ex_compact dec s =
     (case compact_registry (s_mem s) of (out, m) \<Rightarrow> (Inr (compact_report out), s\<lparr>s_mem := m\<rparr>))"

definition ex_inject :: "decision \<Rightarrow> world \<Rightarrow> (string + string) \<times> world" where
  "ex_inject dec s =
     (Inr (''recall context ready: '' @
        dec_nat (case d_payload dec of PFacts fs \<Rightarrow> length fs | other \<Rightarrow> 0) @ '' fact(s)''), s)"

definition ex_toolset :: "decision \<Rightarrow> world \<Rightarrow> (string + string) \<times> world" where
  "ex_toolset dec s = (Inr (''toolset tier: '' @ (case d_payload dec of PTier t \<Rightarrow> t | other \<Rightarrow> ''core'')), s)"

definition stock_executors :: "world executors" where
  "stock_executors = [(''persona_shift'', ex_persona), (''compact_registry'', ex_compact),
     (''inject_recall'', ex_inject), (''select_toolset'', ex_toolset)]"

definition landed :: "string \<Rightarrow> string \<Rightarrow> string list \<Rightarrow> pstate \<Rightarrow> bool" where
  "landed k name values st \<longleftrightarrow> values = [] \<or> strip (get_of k st) = strip (last values)"

definition vf_persona :: "decision \<Rightarrow> string \<Rightarrow> world \<Rightarrow> string + bool" where
  "vf_persona dec result s =
     (case s_persona s of
        None \<Rightarrow> Inr False
      | Some txt \<Rightarrow>
          (let reply = (case d_payload dec of PReply r \<Rightarrow> r | other \<Rightarrow> []); st = snd (parse_persona txt) in
           Inr (landed ''mood'' ''MOOD'' (tag_values ''MOOD'' reply) st
                \<and> landed ''voice'' ''VOICE'' (tag_values ''VOICE'' reply) st)))"

definition vf_compact :: "decision \<Rightarrow> string \<Rightarrow> world \<Rightarrow> string + bool" where
  "vf_compact dec result s =
     Inr (\<not> (fst (registry_health (s_mem s)) \<noteq> None \<and> snd (registry_health (s_mem s)) \<noteq> Healthy))"

definition stock_verifiers :: "world verifiers" where
  "stock_verifiers = [(''persona_shift'', vf_persona), (''compact_registry'', vf_compact)]"

definition run_tick :: "world \<Rightarrow> receipt list \<times> world" where
  "run_tick s = run_spine \<lparr>w_phase = ''tick'', w_user = [], w_reply = []\<rparr> [hygiene_decider] stock_executors stock_verifiers s"

definition run_post_turn :: "string \<Rightarrow> string \<Rightarrow> world \<Rightarrow> receipt list \<times> world" where
  "run_post_turn user reply s =
     run_spine \<lparr>w_phase = ''post'', w_user = user, w_reply = reply\<rparr> [persona_tag_decider] stock_executors stock_verifiers s"

definition pre_deciders :: "seam \<Rightarrow> bool \<Rightarrow> bool \<Rightarrow> world decider list" where
  "pre_deciders sv want toolset =
     (if toolset then [toolset_decider] else []) @ (if want then [recall_decider sv (34 / 100)] else [])"

definition run_pre_turn ::
  "seam \<Rightarrow> string \<Rightarrow> bool \<Rightarrow> bool \<Rightarrow> world \<Rightarrow> (receipt list \<times> decision list) \<times> world" where
  "run_pre_turn sv user want toolset s =
     (let v = \<lparr>w_phase = ''pre'', w_user = user, w_reply = []\<rparr>; ds = pre_deciders sv want toolset;
          decs = snd (decide_all v s (by_priority ds)) in
      case run_spine v ds stock_executors stock_verifiers s of (rs, s1) \<Rightarrow> ((rs, decs), s1))"

end
