(* ===== verification/SpineLaws.thy ===== *)
theory SpineLaws imports Spine PersonaLaws begin

text \<open>
  What the spine guarantees: one honest receipt for every decision, in priority order; what a
  verified receipt means; one recall authority; no withheld secret; the hygiene tick; the ring.
\<close>

section \<open>The fold\<close>

lemma decide_all_decisions:
  "snd (decide_all v s ds) =
     concat (map (\<lambda>d. case de_decide d s v of Inl e \<Rightarrow> [] | Inr out \<Rightarrow> map (tagged d) out) ds)"
  by (induction ds) (auto split: prod.splits sum.splits)

lemma decide_all_errors:
  "fst (decide_all v s ds) =
     concat (map (\<lambda>d. case de_decide d s v of Inl e \<Rightarrow> [decider_error d e] | Inr out \<Rightarrow> []) ds)"
  by (induction ds) (auto split: prod.splits sum.splits)

lemma sorted_concat:
  "sorted (map k ds) \<Longrightarrow> (\<And>d x. d \<in> set ds \<Longrightarrow> x \<in> set (f d) \<Longrightarrow> p x = k d) \<Longrightarrow> sorted (map p (concat (map f ds)))"
proof (induction ds)
  case (Cons d ds)
  have "sorted (map p xs)" if "\<forall>x \<in> set xs. p x = k d" for xs using that by (induction xs) auto
  then have "sorted (map p (f d))" using Cons.prems(2) by simp
  moreover have "k d \<le> p y" if "y \<in> set (concat (map f ds))" for y
    using that Cons.prems by fastforce
  moreover have "p x = k d" if "x \<in> set (f d)" for x using that Cons.prems(2) by simp
  moreover have "sorted (map p (concat (map f ds)))"
    by (rule Cons.IH) (use Cons.prems in auto)
  ultimately show ?case by (fastforce simp: sorted_append)
qed simp

lemma decisions_in_order: "sorted (map d_priority (snd (decide_all v s (by_priority ds))))"
  unfolding decide_all_decisions
  by (rule sorted_concat [where k = de_priority]) (auto simp: by_priority_def tagged_def split: sum.splits)

lemma execute_names: "rc_kind (fst (execute exs vfs dec s)) = d_kind dec" "rc_decider (fst (execute exs vfs dec s)) = d_decider dec"
  by (auto simp: execute_def split: option.split prod.split sum.split)

lemma execute_all_names:
  "map (\<lambda>r. (rc_kind r, rc_decider r)) (fst (execute_all exs vfs decs s)) = map (\<lambda>d. (d_kind d, d_decider d)) decs"
proof (induction decs arbitrary: s)
  case (Cons dec decs)
  obtain r s1 where e: "execute exs vfs dec s = (r, s1)" by fastforce
  then have "rc_kind r = d_kind dec" "rc_decider r = d_decider dec" using execute_names [of exs vfs dec s] by simp_all
  then show ?case using Cons [of s1] by (auto simp: e split: prod.split)
qed simp

lemma run_spine_receipts:
  "fst (run_spine v ds exs vfs s) =
     fst (decide_all v s (by_priority ds)) @ fst (execute_all exs vfs (snd (decide_all v s (by_priority ds))) s)"
  "snd (run_spine v ds exs vfs s) = snd (execute_all exs vfs (snd (decide_all v s (by_priority ds))) s)"
  by (simp_all add: run_spine_def split: prod.split)

text \<open>A receipt is honest: what it says was done by an executor and checked on the state it left.\<close>

lemma execute_honest:
  assumes "execute exs vfs dec s = (r, s1)"
  shows "(rc_ok r \<longleftrightarrow> (\<exists>ex out. map_of exs (d_kind dec) = Some ex \<and> ex dec s = (Inr out, s1)))"
    and "rc_verified r = Some b \<Longrightarrow> \<exists>ex out vf. map_of exs (d_kind dec) = Some ex \<and> ex dec s = (Inr out, s1)
          \<and> map_of vfs (d_kind dec) = Some vf \<and> (vf dec out s1 = Inr b \<or> \<not> b \<and> (\<exists>e. vf dec out s1 = Inl e))"
    and "map_of exs (d_kind dec) = None \<Longrightarrow> s1 = s"
  using assms by (auto simp: execute_def split: option.splits prod.splits sum.splits)

lemma execute_all_member:
  "r \<in> set (fst (execute_all exs vfs decs s)) \<Longrightarrow> \<exists>dec \<in> set decs. \<exists>s0 s1. execute exs vfs dec s0 = (r, s1)"
proof (induction decs arbitrary: s)
  case (Cons dec decs)
  obtain q s1 where e: "execute exs vfs dec s = (q, s1)" by fastforce
  show ?case
  proof (cases "r \<in> set (fst (execute_all exs vfs decs s1))")
    case True
    then show ?thesis using Cons.IH by auto
  next
    case False
    then have "r = q" using Cons.prems by (auto simp: e split: prod.splits)
    then show ?thesis using e by auto
  qed
qed simp

section \<open>One authority\<close>

lemma one_authority:
  assumes "authority_lane pref auto_recall want looks = (a, w, ev)"
  shows "\<not> (a \<and> w) \<and> (a \<longrightarrow> auto_recall \<and> pref \<noteq> ''spine'') \<and> (w \<longrightarrow> want \<and> looks)
    \<and> (a \<longleftrightarrow> auto_recall \<and> pref \<noteq> ''spine'') \<and> (w \<longleftrightarrow> want \<and> looks \<and> \<not> a)
    \<and> (ev = Some SpineEvent \<longleftrightarrow> pref = ''spine'' \<and> auto_recall)
    \<and> (ev = Some L5Event \<longleftrightarrow> a \<and> want \<and> looks)"
  using assms by (auto simp: authority_lane_def Let_def split: if_split_asm)

section \<open>No withheld secret\<close>

lemma recall_facts_open:
  "t \<in> set (recall_facts query rows) \<Longrightarrow> \<exists>e \<in> set rows. \<not> withheld query e \<and> (t = row_text e \<or> t = COUNTERFACT @ row_text e)"
  by (auto simp: recall_facts_def split: if_splits)

lemma recall_decision_cases:
  assumes "d \<in> set (recall_decision sv mo user m st)"
  shows "(d_kind d = ''decline_recall'' \<and> d_payload d = PMessage DECLINE_MSG)
    \<or> (d_kind d = ''inject_recall'' \<and> (\<exists>fs. d_payload d = PFacts fs \<and> fs \<noteq> [] \<and>
         fs = recall_facts user (map snd (fst (search_memories_ranked_rows sv user 3 mo False m st)))))"
  using assms by (auto simp: recall_decision_def Let_def mk_decision_def split: list.splits if_splits)

section \<open>The hygiene tick\<close>

definition textless :: "mem \<Rightarrow> nat" where
  "textless m = length (filter (\<lambda>r. key_of r = []) (load_rows m))"

definition compacted :: "world \<Rightarrow> world" where
  "compacted s = s\<lparr>s_mem := snd (compact_registry (s_mem s))\<rparr>"

lemma run_tick_idle: "snd (registry_health (s_mem s)) \<noteq> NeedsCompaction \<Longrightarrow> run_tick s = ([], s)"
  by (simp add: run_tick_def run_spine_def by_priority_def hygiene_decider_def stock_def)

lemma health_known: "m_path m \<noteq> [] \<Longrightarrow> m_file m = Some ls \<Longrightarrow>
  fst (registry_health m) \<noteq> None \<and> (snd (registry_health m) = Healthy \<or> snd (registry_health m) = NeedsCompaction)"
  by (auto simp: registry_health_def Let_def)

lemma run_tick_compacts:
  assumes "m_path (s_mem s) \<noteq> []" "m_file (s_mem s) = Some ls" "snd (registry_health (s_mem s)) = NeedsCompaction"
  shows "snd (run_tick s) = compacted s"
    and "map (\<lambda>r. (rc_kind r, rc_ok r, rc_verified r)) (fst (run_tick s)) =
      [(''compact_registry'', True, Some (textless (s_mem s) \<le> 1))]"
proof -
  let ?d = "tagged hygiene_decider (mk_decision ''compact_registry'' (PReport (fst (registry_health (s_mem s)))))"
  have d: "decide_all \<lparr>w_phase = ''tick'', w_user = [], w_reply = []\<rparr> s (by_priority [hygiene_decider]) = ([], [?d])"
    using assms(3) by (simp add: by_priority_def hygiene_decider_def stock_def)
  have k: "d_kind ?d = ''compact_registry''" by (simp add: tagged_def mk_decision_def)
  have ex: "map_of stock_executors (d_kind ?d) = Some ex_compact" "map_of stock_verifiers (d_kind ?d) = Some vf_compact"
    by (simp_all add: k stock_executors_def stock_verifiers_def)
  have x: "ex_compact ?d s = (Inr (compact_report (fst (compact_registry (s_mem s)))), compacted s)"
    by (simp add: ex_compact_def compacted_def split: prod.split)
  have "fst (registry_health (snd (compact_registry (s_mem s)))) \<noteq> None"
    using health_known [of "snd (compact_registry (s_mem s))"] compact_registry_file [OF assms(1,2)] assms(1) by simp
  then have v: "vf_compact ?d out (compacted s) = Inr (textless (s_mem s) \<le> 1)" for out
    using health_compacted [OF assms(1,2)] assms(1,2)
    by (simp add: vf_compact_def compacted_def textless_def load_rows_def)
  have e: "execute stock_executors stock_verifiers ?d s =
      (\<lparr>rc_kind = d_kind ?d, rc_decider = d_decider ?d, rc_ok = True, rc_verified = Some (textless (s_mem s) \<le> 1),
        rc_result = take 400 (compact_report (fst (compact_registry (s_mem s))))\<rparr>, compacted s)"
    unfolding execute_def ex x option.case prod.case sum.case v ..
  show "snd (run_tick s) = compacted s" by (simp add: run_tick_def run_spine_receipts d e)
  show "map (\<lambda>r. (rc_kind r, rc_ok r, rc_verified r)) (fst (run_tick s)) =
      [(''compact_registry'', True, Some (textless (s_mem s) \<le> 1))]"
    by (simp add: run_tick_def run_spine_receipts d e k)
qed

text \<open>With two rows without text the tick compacts, fails its own check and leaves the same work behind.\<close>

lemma run_tick_stuck:
  assumes "m_path (s_mem s) \<noteq> []" "m_file (s_mem s) = Some ls" "1 < textless (s_mem s)"
  shows "snd (registry_health (s_mem s)) = NeedsCompaction"
    and "textless (s_mem (snd (run_tick s))) = textless (s_mem s)"
    and "snd (run_tick (snd (run_tick s))) = snd (run_tick s)"
    and "m_path (s_mem (snd (run_tick s))) \<noteq> []" and "m_file (s_mem (snd (run_tick s))) \<noteq> None"
proof -
  have need: "snd (registry_health m) = NeedsCompaction"
    if "m_path m \<noteq> []" "m_file m = Some l" "1 < textless m" for m l
  proof -
    have "\<not> distinct (map key_of (rows_of l))"
    proof
      assume "distinct (map key_of (rows_of l))"
      then have "distinct (filter (\<lambda>k. k = []) (map key_of (rows_of l)))" by (rule distinct_filter)
      moreover have "set (filter (\<lambda>k. k = []) (map key_of (rows_of l))) \<subseteq> {[]}" by auto
      ultimately have "length (filter (\<lambda>k. k = []) (map key_of (rows_of l))) \<le> 1"
        by (metis card_mono distinct_card finite.emptyI finite_insert card.empty card_insert_disjoint empty_iff
            One_nat_def)
      then show False using that by (simp add: textless_def load_rows_def filter_map comp_def)
    qed
    then show ?thesis using health_iff [OF that(1,2)] health_known [OF that(1,2)] by auto
  qed
  show n: "snd (registry_health (s_mem s)) = NeedsCompaction" by (rule need [OF assms])
  let ?m = "snd (compact_registry (s_mem s))"
  have t: "s_mem (snd (run_tick s)) = ?m" using run_tick_compacts(1) [OF assms(1,2) n] by (simp add: compacted_def)
  note f = compact_registry_file [OF assms(1,2)]
  have len: "textless ?m = textless (s_mem s)"
    using f(3) assms(1,2) by (simp add: textless_def load_rows_def first_keys_empty)
  show "textless (s_mem (snd (run_tick s))) = textless (s_mem s)" unfolding t by (rule len)
  show p: "m_path (s_mem (snd (run_tick s))) \<noteq> []" and fl: "m_file (s_mem (snd (run_tick s))) \<noteq> None"
    unfolding t using f(1,2) assms(1) by simp_all
  have "snd (registry_health ?m) = NeedsCompaction"
    by (rule need [OF _ f(1)]) (use f(2) len assms in simp_all)
  then have "snd (run_tick (snd (run_tick s))) = compacted (snd (run_tick s))"
    using run_tick_compacts(1) [of "snd (run_tick s)"] p fl t by auto
  also have "\<dots> = snd (run_tick s)"
    using compact_registry_spec(5) [OF assms(1,2)] run_tick_compacts(1) [OF assms(1,2) n] by (simp add: compacted_def)
  finally show "snd (run_tick (snd (run_tick s))) = snd (run_tick s)" .
qed

section \<open>The ring and its flush\<close>

definition ring_ok :: "ring \<Rightarrow> bool" where
  "ring_ok g \<longleftrightarrow> length (ri_items g) \<le> RING_MAX \<and> sorted_wrt (<) (map fst (ri_items g))
     \<and> (\<forall>p \<in> set (ri_items g). fst p \<le> ri_seq g) \<and> ri_persisted g \<le> ri_seq g"

lemma push_ok: "ring_ok g \<Longrightarrow> ring_ok (push_receipt now r g)"
proof -
  assume g: "ring_ok g"
  have "sorted_wrt (<) (map fst (ri_items g @ [(ri_seq g + 1, now, r)]))"
    using g by (auto simp: ring_ok_def sorted_wrt_append less_Suc_eq_le)
  then have d: "sorted_wrt (<) (map fst (drop n (ri_items g @ [(ri_seq g + 1, now, r)])))" for n
    by (metis drop_map sorted_wrt_drop)
  have f: "ri_items (push_receipt now r g) = drop (length (ri_items g @ [(ri_seq g + 1, now, r)]) - RING_MAX)
       (ri_items g @ [(ri_seq g + 1, now, r)])"
    "ri_seq (push_receipt now r g) = ri_seq g + 1" "ri_persisted (push_receipt now r g) = ri_persisted g"
    by (simp_all add: push_receipt_def Let_def)
  have m: "\<forall>p \<in> set (drop n (ri_items g @ [(ri_seq g + 1, now, r)])). fst p \<le> ri_seq g + 1" for n
    using g by (auto simp: ring_ok_def dest!: in_set_dropD)
  have l: "length (drop (length xs - RING_MAX) xs) \<le> RING_MAX" for xs :: "(nat \<times> int \<times> receipt) list" by simp
  show ?thesis unfolding ring_ok_def f
    by (intro conjI) (rule l, rule d, rule m, use g in \<open>simp add: ring_ok_def\<close>)
qed

lemma log_ok: "ring_ok g \<Longrightarrow> ring_ok (log_receipts now rs g)"
  unfolding log_receipts_def by (induction rs arbitrary: g) (simp_all add: push_ok)

lemma persist_loop_mark:
  "persist_loop v dump mark items hi k = Some (n, hi', k') \<Longrightarrow>
     hi' = fold (\<lambda>p h. if fst p \<le> mark then h else max h (fst p)) items hi"
  by (induction v dump mark items hi k arbitrary: n hi' k' rule: persist_loop.induct)
     (auto split: if_splits option.splits prod.splits)

lemma fold_mark:
  "h \<le> fold (\<lambda>p h. if fst p \<le> mark then h else max h (fst p)) items h
   \<and> (\<forall>p \<in> set items. fst p \<le> mark \<or> fst p \<le> fold (\<lambda>p h. if fst p \<le> mark then h else max h (fst p)) items h)"
  for h :: nat
proof (induction items arbitrary: h)
  case (Cons p items)
  show ?case using Cons.IH [of "if fst p \<le> mark then h else max h (fst p)"] by (auto split: if_split_asm)
qed simp

lemma fold_mark_le:
  "h \<le> b \<Longrightarrow> (\<forall>p \<in> set items. fst p \<le> b) \<Longrightarrow> fold (\<lambda>p h. if fst p \<le> mark then h else max h (fst p)) items h \<le> b"
  for h :: nat
  by (induction items arbitrary: h) auto

lemma persist_loop_old: "\<forall>p \<in> set items. fst p \<le> mark \<Longrightarrow> persist_loop v dump mark items hi k = Some (0, hi, k)"
  by (induction v dump mark items hi k rule: persist_loop.induct) auto

text \<open>A flush that follows a flush finds nothing.\<close>

lemma persist_again:
  assumes "persist_receipts v dump g k = Some (n, g', k')"
  shows "persist_receipts v dump g' k' = Some (0, g', k')"
proof -
  obtain hi where l: "persist_loop v dump (ri_persisted g) (ri_items g) (ri_persisted g) k = Some (n, hi, k')"
    and g': "g' = g\<lparr>ri_persisted := hi\<rparr>"
    using assms by (auto simp: persist_receipts_def split: option.splits)
  have "\<forall>p \<in> set (ri_items g'). fst p \<le> ri_persisted g'"
    using fold_mark [of "ri_persisted g" "ri_persisted g" "ri_items g"] persist_loop_mark [OF l] by (auto simp: g')
  then show ?thesis by (simp add: persist_receipts_def persist_loop_old)
qed

text \<open>Every receipt of the ring is in the sink afterwards, when none of them is refused.\<close>

lemma sink_good:
  assumes "\<exists>fs kc. se_loads v (strip r) = Some (JObj fs) \<and> kind_and_class (se_str v) fs = Some kc"
  shows "holds v r (snd (sink v r s))"
    and "tk_new (snd (sink v r s)) = tk_new s + (if is_new (fst (sink v r s)) then 1 else 0)"
  using assms
  by (auto simp: sink_def Let_def holds_def is_new_def store_record_def map_add_def split: option.split json.split)

lemma persist_loop_holds:
  assumes "persist_loop v dump mark items hi k = Some (n, hi', k')"
    and "\<And>ts r. \<exists>fs kc. se_loads v (strip (dump ts r)) = Some (JObj fs) \<and> kind_and_class (se_str v) fs = Some kc"
  shows "(\<forall>p \<in> set items. mark < fst p \<longrightarrow> holds v (dump (fst (snd p)) (snd (snd p))) k')
    \<and> (\<forall>q. holds v q k \<longrightarrow> holds v q k') \<and> tk_new k' = tk_new k + n"
  using assms(1)
proof (induction items arbitrary: hi k n)
  case (Cons p items)
  obtain i ts r where p: "p = (i, ts, r)" by (cases p)
  show ?case
  proof (cases "i \<le> mark")
    case True
    then show ?thesis using Cons by (simp add: p)
  next
    case False
    obtain k1 addr fresh where s: "sink v (dump ts r) k = (Some (addr, fresh), k1)"
      using Cons.prems False by (auto simp: p split: option.splits prod.splits)
    obtain m where l: "persist_loop v dump mark items (max hi i) k1 = Some (m, hi', k')" "n = (if fresh then m + 1 else m)"
      using Cons.prems False by (auto simp: p s split: option.splits)
    have g: "holds v (dump ts r) k1" "tk_new k1 = tk_new k + (if fresh then 1 else 0)" "\<forall>q. holds v q k \<longrightarrow> holds v q k1"
      using sink_good [OF assms(2) [of ts r], of k] telemetry.put_keeps [of v _ k "dump ts r"]
      by (simp_all add: s is_new_def)
    show ?thesis using Cons.IH [OF l(1)] g l(2) by (auto simp: p)
  qed
qed simp

section \<open>A tag lands\<close>

lemma get_of_update: "get_of k (AList.update j v st) = (if k = j then v else get_of k st)"
  by (simp add: get_of_def update_conv')

lemma tagged_mood_voice:
  "tag_values ''MOOD'' reply \<noteq> [] \<Longrightarrow> get_of ''mood'' (tagged_state reply st) = strip (last (tag_values ''MOOD'' reply))"
  "tag_values ''VOICE'' reply \<noteq> [] \<Longrightarrow> get_of ''voice'' (tagged_state reply st) = strip (last (tag_values ''VOICE'' reply))"
  by (simp_all add: tagged_state_def Let_def get_of_update)

lemma persona_lands:
  fixes s :: world and user reply :: string
  defines "st \<equiv> tagged_state reply (snd (parse_persona (case s_persona s of None \<Rightarrow> [] | Some t \<Rightarrow> t)))"
  assumes "found TAG_RE reply" "tags_change reply" "pstate_ok st"
  shows "map (\<lambda>r. (rc_kind r, rc_ok r, rc_verified r)) (fst (run_post_turn user reply s)) = [(''persona_shift'', True, Some True)]"
    and "s_persona (snd (run_post_turn user reply s)) = Some (write_state st (s_persona s))"
    and "s_mem (snd (run_post_turn user reply s)) = s_mem s"
proof -
  let ?v = "\<lparr>w_phase = ''post'', w_user = user, w_reply = reply\<rparr>"
  let ?d = "tagged persona_tag_decider (mk_decision ''persona_shift'' (PReply reply))"
  let ?s1 = "s\<lparr>s_persona := Some (write_state st (s_persona s))\<rparr>"
  have d: "decide_all ?v s (by_priority [persona_tag_decider]) = ([], [?d])"
    using assms(2) by (simp add: by_priority_def persona_tag_decider_def stock_def)
  have k: "d_kind ?d = ''persona_shift''" "d_payload ?d = PReply reply" by (simp_all add: tagged_def mk_decision_def)
  have ex: "map_of stock_executors (d_kind ?d) = Some ex_persona" "map_of stock_verifiers (d_kind ?d) = Some vf_persona"
    by (simp_all add: k stock_executors_def stock_verifiers_def)
  obtain out where x: "ex_persona ?d s = (Inr out, ?s1)"
    using assms(3) by (simp add: ex_persona_def k apply_personality_tags_def Let_def st_def)
  have g: "get_of q (snd (parse_persona (write_state st (s_persona s)))) = get_of q st" for q
    by (rule write_read_get(1) [OF assms(4)])
  have "landed ''mood'' ''MOOD'' (tag_values ''MOOD'' reply) (snd (parse_persona (write_state st (s_persona s))))"
    and "landed ''voice'' ''VOICE'' (tag_values ''VOICE'' reply) (snd (parse_persona (write_state st (s_persona s))))"
    unfolding landed_def g unfolding st_def by (metis strip_idem tagged_mood_voice(1), metis strip_idem tagged_mood_voice(2))
  then have v: "vf_persona ?d r ?s1 = Inr True" for r by (simp add: vf_persona_def k Let_def)
  have e: "execute stock_executors stock_verifiers ?d s =
      (\<lparr>rc_kind = d_kind ?d, rc_decider = d_decider ?d, rc_ok = True, rc_verified = Some True, rc_result = take 400 out\<rparr>, ?s1)"
    unfolding execute_def ex x option.case prod.case sum.case v ..
  show "map (\<lambda>r. (rc_kind r, rc_ok r, rc_verified r)) (fst (run_post_turn user reply s)) = [(''persona_shift'', True, Some True)]"
    by (simp add: run_post_turn_def run_spine_receipts d e k)
  show "s_persona (snd (run_post_turn user reply s)) = Some (write_state st (s_persona s))"
    and "s_mem (snd (run_post_turn user reply s)) = s_mem s"
    by (simp_all add: run_post_turn_def run_spine_receipts d e)
qed

text \<open>The last trait cannot be dropped: an empty trait list is not written back.\<close>

lemma last_trait_stays:
  "get_of ''traits'' (tagged_state ''[TRAIT:-bold]'' [(''traits'', ''bold'')]) = ''bold''"
  "tags_change ''[TRAIT:-bold]''"
  by code_simp+

section \<open>Properties\<close>

definition demo_mem :: "row list \<Rightarrow> mem" where
  "demo_mem rows =
     \<lparr>m_path = ''reg.jsonl'', m_file = Some (map Row rows), m_author = ''user'', m_question = [], m_queue = []\<rparr>"

definition demo_world :: "row list \<Rightarrow> world" where
  "demo_world rows =
     \<lparr>s_mem = demo_mem rows, s_law = \<lparr>st_checked = 0, st_divergent = 0, st_unmapped = 0, st_drops = 0\<rparr>,
      s_persona = Some ''She is kind.''\<rparr>"

definition demo_seam :: seam where
  "demo_seam = \<lparr>v_now = 0, v_digest = (\<lambda>t. t), v_semq = None, v_enforce = False, v_shadow = False,
     v_table = [], v_slots = None\<rparr>"

text \<open>
  C18. The receipts of the spine are complete, ordered and honest. A run returns one failure receipt for
  every decider that raised, then one receipt for every decision, in the order of the lanes. A receipt
  says ok only when the executor registered for its kind returned, says verified only when the
  verifier of that kind confirmed it on the state the executor left, and a decision without an
  executor changes nothing.
\<close>

theorem spine_receipts_honest:
  fixes v :: view and ds :: "'s decider list" and exs :: "'s executors" and vfs :: "'s verifiers" and s :: 's
  defines "decs \<equiv> snd (decide_all v s (by_priority ds))"
  shows "\<exists>failed outs. fst (run_spine v ds exs vfs s) = failed @ outs
    \<and> map (\<lambda>r. (rc_kind r, rc_decider r)) outs = map (\<lambda>d. (d_kind d, d_decider d)) decs
    \<and> sorted (map d_priority decs)
    \<and> length failed = length (filter (\<lambda>d. \<exists>e. de_decide d s v = Inl e) ds)
    \<and> (\<forall>r \<in> set failed. \<not> rc_ok r)
    \<and> (\<forall>r \<in> set outs. \<exists>dec \<in> set decs. \<exists>s0 s1. execute exs vfs dec s0 = (r, s1) \<and> rc_kind r = d_kind dec
         \<and> (rc_ok r \<longleftrightarrow> (\<exists>ex out. map_of exs (rc_kind r) = Some ex \<and> ex dec s0 = (Inr out, s1)))
         \<and> (rc_verified r = Some True \<longrightarrow> (\<exists>ex out vf. map_of exs (rc_kind r) = Some ex \<and> ex dec s0 = (Inr out, s1)
              \<and> map_of vfs (rc_kind r) = Some vf \<and> vf dec out s1 = Inr True))
         \<and> (map_of exs (rc_kind r) = None \<longrightarrow> s1 = s0))"
proof -
  define failed where "failed = fst (decide_all v s (by_priority ds))"
  define outs where "outs = fst (execute_all exs vfs decs s)"
  have run: "fst (run_spine v ds exs vfs s) = failed @ outs"
    by (simp add: run_spine_receipts failed_def outs_def decs_def)
  have "length (concat (map (\<lambda>d. case de_decide d s v of Inl e \<Rightarrow> [decider_error d e] | Inr out \<Rightarrow> []) xs))
      = length (filter (\<lambda>d. \<exists>e. de_decide d s v = Inl e) xs)" for xs :: "'s decider list"
    by (induction xs) (auto split: sum.split)
  then have len: "length failed = length (filter (\<lambda>d. \<exists>e. de_decide d s v = Inl e) ds)"
    unfolding failed_def decide_all_errors by_priority_def by (simp add: filter_sort) 
  have bad: "\<forall>r \<in> set failed. \<not> rc_ok r"
    unfolding failed_def decide_all_errors by (auto simp: decider_error_def split: sum.splits)
  have "\<exists>dec \<in> set decs. \<exists>s0 s1. execute exs vfs dec s0 = (r, s1) \<and> rc_kind r = d_kind dec
         \<and> (rc_ok r \<longleftrightarrow> (\<exists>ex out. map_of exs (rc_kind r) = Some ex \<and> ex dec s0 = (Inr out, s1)))
         \<and> (rc_verified r = Some True \<longrightarrow> (\<exists>ex out vf. map_of exs (rc_kind r) = Some ex \<and> ex dec s0 = (Inr out, s1)
              \<and> map_of vfs (rc_kind r) = Some vf \<and> vf dec out s1 = Inr True))
         \<and> (map_of exs (rc_kind r) = None \<longrightarrow> s1 = s0)" if r: "r \<in> set outs" for r
  proof -
    obtain dec s0 s1 where e: "dec \<in> set decs" "execute exs vfs dec s0 = (r, s1)"
      using execute_all_member r unfolding outs_def by meson
    have k: "rc_kind r = d_kind dec" using execute_names(1) [of exs vfs dec s0] e(2) by simp
    show ?thesis using e k execute_honest [OF e(2)] by (intro bexI [OF _ e(1)] exI conjI) auto
  qed
  then show ?thesis
    using run len bad execute_all_names [of exs vfs decs s] decisions_in_order [of v s ds] unfolding outs_def decs_def by blast
qed

theorem spine_receipts_honest_witness:
  "sorted (map d_priority (snd (decide_all \<lparr>w_phase = ''pre'', w_user = ''fix the code'', w_reply = []\<rparr> (demo_world [])
      (by_priority [hygiene_decider, toolset_decider]))))"
  using spine_receipts_honest [of "\<lparr>w_phase = ''pre'', w_user = ''fix the code'', w_reply = []\<rparr>"
      "[hygiene_decider, toolset_decider]" stock_executors stock_verifiers "demo_world []"] by blast

text \<open>
  C19. One recall authority, and no withheld secret: the lane policy never lets both the generation
  path and the spine recall for one turn; when the spine is not asked to, none of its pre-turn
  decisions carries facts; and every fact it injects is the text of a row the recall seam returned
  for this question that is not a secret the question does not name.
\<close>

theorem pre_turn_recall:
  assumes "authority_lane pref auto_recall want looks = (a, w, ev)"
    and "d \<in> set (snd (fst (run_pre_turn sv user w toolset s)))" "d_payload d = PFacts fs"
  shows "w \<and> \<not> a \<and> d_kind d = ''inject_recall'' \<and> fs \<noteq> []
    \<and> (\<forall>t \<in> set fs. \<exists>e \<in> set (map snd (fst (search_memories_ranked_rows sv user 3 (34 / 100) False (s_mem s) (s_law s)))).
         \<not> withheld user e \<and> (t = row_text e \<or> t = COUNTERFACT @ row_text e))"
proof -
  have decs: "snd (fst (run_pre_turn sv user w toolset s)) =
      snd (decide_all \<lparr>w_phase = ''pre'', w_user = user, w_reply = []\<rparr> s (by_priority (pre_deciders sv w toolset)))"
    by (simp add: run_pre_turn_def Let_def split: prod.split)
  obtain de out x where de: "de \<in> set (pre_deciders sv w toolset)" "d = tagged de x"
    "de_decide de s \<lparr>w_phase = ''pre'', w_user = user, w_reply = []\<rparr> = Inr out" "x \<in> set out"
  proof -
    obtain de where de: "de \<in> set (pre_deciders sv w toolset)"
      "d \<in> set (case de_decide de s \<lparr>w_phase = ''pre'', w_user = user, w_reply = []\<rparr> of Inl e \<Rightarrow> [] | Inr out \<Rightarrow> map (tagged de) out)"
      using assms(2) unfolding decs decide_all_decisions by (auto simp: by_priority_def)
    then obtain out where "de_decide de s \<lparr>w_phase = ''pre'', w_user = user, w_reply = []\<rparr> = Inr out" "d \<in> set (map (tagged de) out)"
      by (cases "de_decide de s \<lparr>w_phase = ''pre'', w_user = user, w_reply = []\<rparr>") auto
    then show thesis using that [OF de(1)] by auto
  qed
  have x: "d_payload x = PFacts fs" "d_kind x = d_kind d" using assms(3) de(2) by (simp_all add: tagged_def)
  have "de \<noteq> toolset_decider"
    using de(3,4) x(1) by (auto simp: toolset_decider_def stock_def mk_decision_def split: if_split_asm)
  then have w: "w" "de = recall_decider sv (34 / 100)" using de(1) by (auto simp: pre_deciders_def split: if_split_asm)
  then have "x \<in> set (recall_decision sv (34 / 100) user (s_mem s) (s_law s))"
    using de(3,4) by (auto simp: recall_decider_def stock_def split: if_split_asm)
  from recall_decision_cases [OF this] x(1)
  have k: "d_kind x = ''inject_recall''" "fs \<noteq> []"
    "fs = recall_facts user (map snd (fst (search_memories_ranked_rows sv user 3 (34 / 100) False (s_mem s) (s_law s))))"
    by auto
  have "\<forall>t \<in> set fs. \<exists>e \<in> set (map snd (fst (search_memories_ranked_rows sv user 3 (34 / 100) False (s_mem s) (s_law s)))).
      \<not> withheld user e \<and> (t = row_text e \<or> t = COUNTERFACT @ row_text e)"
    unfolding k(3) by (intro ballI recall_facts_open)
  moreover have "\<not> a" using one_authority [OF assms(1)] w(1) by blast
  ultimately show ?thesis using w(1) k(1,2) x(2) by simp
qed

theorem pre_turn_recall_witness:
  "\<exists>d fs. d \<in> set (snd (fst (run_pre_turn demo_seam ''dog called'' True False
      (demo_world [blank_row\<lparr>r_text := ''My dog is called Max''\<rparr>]))))
    \<and> d_payload d = PFacts fs \<and> set fs = {''My dog is called Max''}"
proof -
  let ?q = "''dog called''" and ?r = "blank_row\<lparr>r_text := ''My dog is called Max''\<rparr>"
  let ?found = "fst (search_memories_ranked_rows demo_seam ?q 3 (34 / 100) False (s_mem (demo_world [?r])) (s_law (demo_world [?r])))"
  have q: "query_target [] ?q = None" by code_simp
  have l: "34 / 100 \<le> lex_score ?q ?r" by code_simp
  have c: "cos_of demo_seam r = 0" "sem_tau demo_seam = 2" for r
    by (simp_all add: cos_of_def sem_tau_def demo_seam_def)
  have m: "load_rows (s_mem (demo_world [?r])) = [?r]" "m_question (s_mem (demo_world [?r])) = []"
    by (simp_all add: demo_world_def demo_mem_def load_rows_def)
  have "ground ?r" by code_simp
  moreover have "live ?r" "v_enforce demo_seam = False" "row_text ?r = ''My dog is called Max''"
    by (simp_all add: live_def blank_row_def demo_seam_def row_text_def)
  ultimately have "lawful demo_seam ?q [?r] (scoped (query_target [] ?q) (heard (matched demo_seam ?q (34 / 100) [?r]))) = {?r}"
    using l by (simp add: matched_def heard_def scoped_def lawful_def q c) auto
  then have "snd ` set ?found = {?r}"
    unfolding search_memories_ranked_rows_def m using seam_exact [of "[?r]" 3] by simp
  then obtain rest where rest: "map snd ?found = ?r # rest" "set rest \<subseteq> {?r}"
    by (cases "map snd ?found") (auto simp flip: set_map)
  have o: "\<not> withheld ?q ?r" "r_class ?r \<noteq> ''counterfact''" by code_simp+
  then have fs: "recall_facts ?q (?r # rest) \<noteq> []" "set (recall_facts ?q (?r # rest)) = {''My dog is called Max''}"
    using rest(2) \<open>row_text ?r = ''My dog is called Max''\<close> by (auto simp: recall_facts_def)
  define d where "d = tagged (recall_decider demo_seam (34 / 100)) (mk_decision ''inject_recall'' (PFacts (recall_facts ?q (?r # rest))))"
  have "snd (fst (run_pre_turn demo_seam ?q True False (demo_world [?r]))) = [d]"
    using rest(1) o(1) fs(1)
    by (simp add: run_pre_turn_def pre_deciders_def by_priority_def recall_decider_def stock_def recall_decision_def
        d_def split: prod.split)
  moreover have p: "d_payload d = PFacts (recall_facts ?q (?r # rest))" by (simp add: d_def tagged_def mk_decision_def)
  moreover have "authority_lane ''l5'' False True True = (False, True, None)" by code_simp
  ultimately show ?thesis
    using pre_turn_recall [of "''l5''" False True True False True None d demo_seam ?q False "demo_world [?r]"] fs(2) by auto
qed

text \<open>
  The hygiene tick: it acts exactly when the health report asks for a compaction, then it compacts
  and says so; its own verifier confirms the result exactly when at most one row has no text. With two
  such rows it reports the failure and finds the same work again at every later tick.
\<close>

theorem hygiene_tick:
  assumes "m_path (s_mem s) \<noteq> []" "m_file (s_mem s) = Some ls"
  shows "(snd (registry_health (s_mem s)) \<noteq> NeedsCompaction \<longrightarrow> run_tick s = ([], s))
    \<and> (snd (registry_health (s_mem s)) = NeedsCompaction \<longrightarrow> s_mem (snd (run_tick s)) = snd (compact_registry (s_mem s))
         \<and> map (\<lambda>r. (rc_kind r, rc_ok r, rc_verified r)) (fst (run_tick s))
             = [(''compact_registry'', True, Some (textless (s_mem s) \<le> 1))])
    \<and> (1 < textless (s_mem s) \<longrightarrow> snd (registry_health (s_mem (snd (run_tick s)))) = NeedsCompaction
         \<and> snd (run_tick (snd (run_tick s))) = snd (run_tick s))"
proof -
  have "snd (registry_health (s_mem (snd (run_tick s)))) = NeedsCompaction" if "1 < textless (s_mem s)"
  proof -
    note st = run_tick_stuck [OF assms that]
    from st(5) obtain l where "m_file (s_mem (snd (run_tick s))) = Some l" by auto
    then show ?thesis using run_tick_stuck(1) [of "snd (run_tick s)"] st(2,4) that by simp
  qed
  then show ?thesis
    using run_tick_idle [of s] run_tick_compacts [OF assms] run_tick_stuck(3) [OF assms] by (auto simp: compacted_def)
qed

theorem hygiene_tick_witness:
  "snd (registry_health (s_mem (snd (run_tick (demo_world [blank_row, blank_row]))))) = NeedsCompaction"
proof -
  have t: "1 < textless (s_mem (demo_world [blank_row, blank_row]))" by code_simp
  then show ?thesis
    using hygiene_tick [of "demo_world [blank_row, blank_row]" "map Row [blank_row, blank_row]"]
    by (simp add: demo_world_def demo_mem_def)
qed

text \<open>
  C29. A tag she writes is what she reads: when a reply carries personality tags and the state they
  lead to is writable (distinct keys, no empty value, no line break in one), the post-turn spine
  returns one receipt, done and verified, the file reads back as exactly that state with the last
  mood and voice of the reply in it, and the prose above the block is untouched.
\<close>

theorem persona_tag_lands:
  fixes s :: world and user reply :: string
  defines "old \<equiv> parse_persona (case s_persona s of None \<Rightarrow> [] | Some t \<Rightarrow> t)"
    and "new \<equiv> parse_persona (case s_persona (snd (run_post_turn user reply s)) of None \<Rightarrow> [] | Some t \<Rightarrow> t)"
  assumes "found TAG_RE reply" "tags_change reply" "pstate_ok (tagged_state reply (snd old))"
  shows "map (\<lambda>r. (rc_kind r, rc_ok r, rc_verified r)) (fst (run_post_turn user reply s)) = [(''persona_shift'', True, Some True)]
    \<and> (\<forall>k. get_of k (snd new) = get_of k (tagged_state reply (snd old))) \<and> fst new = fst old
    \<and> (tag_values ''MOOD'' reply \<noteq> [] \<longrightarrow> get_of ''mood'' (snd new) = strip (last (tag_values ''MOOD'' reply)))"
  using persona_lands [OF assms(3,4) assms(5) [unfolded old_def], of user] write_read_get [OF assms(5)]
    tagged_mood_voice(1) [of reply "snd old"]
  by (simp add: new_def) (simp add: old_def)

theorem persona_tag_lands_witness:
  "get_of ''mood'' (snd (parse_persona (case s_persona (snd (run_post_turn [] ''Ok. [MOOD: calm]'' (demo_world [])))
      of None \<Rightarrow> [] | Some t \<Rightarrow> t))) = ''calm''"
proof -
  have h: "found TAG_RE ''Ok. [MOOD: calm]''" "tags_change ''Ok. [MOOD: calm]''"
    "pstate_ok (tagged_state ''Ok. [MOOD: calm]'' (snd (parse_persona (case s_persona (demo_world []) of None \<Rightarrow> [] | Some t \<Rightarrow> t))))"
    by code_simp+
  have v: "tag_values ''MOOD'' ''Ok. [MOOD: calm]'' \<noteq> []" "strip (last (tag_values ''MOOD'' ''Ok. [MOOD: calm]'')) = ''calm''"
    by code_simp+
  from persona_tag_lands [OF h, of "[]"] v show ?thesis by metis
qed

end
