(* ===== verification/Tuning.thy ===== *)
theory Tuning imports Impulse "HOL-Library.AList" begin

text \<open>
  The knob registry of \<open>harness/tuning/registry.py\<close> and the configuration the scheduler reads from
  it. A knob's texts for the operator are left out. A value of the override file is a \<open>tval\<close>; the
  conversion \<open>float(str)\<close> of Python is an argument (\<open>None\<close>: it raises). \<open>Inl\<close> is an exception.
  The values are finite numbers.
\<close>

datatype ktype = KFloat | KInt | KBool | KEnum

datatype tval = VBool bool | VInt int | VFloat real | VStr string | VNull

record knob =
  kn_key :: string
  kn_type :: ktype
  kn_default :: tval
  kn_min :: "real option"
  kn_max :: "real option"

datatype terr = BadValue | UnknownKnobs "string list"

record tuning =
  g_file :: "(string \<times> tval) list option"
  g_cache :: "(string \<times> tval) list option"

section \<open>The declared knobs\<close>

definition num_knob :: "string \<Rightarrow> real \<Rightarrow> real \<Rightarrow> real \<Rightarrow> knob" where
  "num_knob k d lo hi = \<lparr>kn_key = k, kn_type = KFloat, kn_default = VFloat d, kn_min = Some lo, kn_max = Some hi\<rparr>"

definition int_knob :: "string \<Rightarrow> int \<Rightarrow> int \<Rightarrow> int \<Rightarrow> knob" where
  "int_knob k d lo hi =
     \<lparr>kn_key = k, kn_type = KInt, kn_default = VInt d, kn_min = Some (of_int lo), kn_max = Some (of_int hi)\<rparr>"

definition switch :: "string \<Rightarrow> knob" where
  "switch k = \<lparr>kn_key = k, kn_type = KBool, kn_default = VBool True, kn_min = None, kn_max = None\<rparr>"

definition KNOBS :: "knob list" where
  "KNOBS =
    [switch ''kairos.enabled'',
     num_knob ''kairos.continue_margin'' (- 1175 / 100) (- 20) 5,
     int_knob ''kairos.max_chain'' 1 1 3,
     num_knob ''kairos.cooldown_s'' 45 0 600,
     int_knob ''kairos.max_per_hour'' 6 0 60,
     num_knob ''kairos.checkin_idle_s'' 240 30 3600,
     num_knob ''kairos.checkin_chance'' (35 / 100) 0 1,
     switch ''reflect.enabled'',
     num_knob ''reflect.idle_s'' 600 60 7200,
     num_knob ''reflect.cooldown_s'' 1800 60 86400,
     num_knob ''reflect.speak_bits'' 3 0 8,
     num_knob ''decode.eot_bias'' 4 0 12,
     int_knob ''decode.no_repeat_ngram'' 0 0 6,
     switch ''roleplay.enabled'',
     int_knob ''roleplay.max_heat'' 7 0 7,
     num_knob ''roleplay.dwell_scale'' 1 0 4,
     switch ''memory.admit_personal_only'',
     num_knob ''memory.l5_tau'' (30 / 100) 0 1]"

definition by_key :: "string \<Rightarrow> knob option" where
  "by_key k = find (\<lambda>q. kn_key q = k) (rev KNOBS)"

section \<open>Clamping\<close>

fun as_bool :: "tval \<Rightarrow> bool" where
  "as_bool (VBool b) = b"
| "as_bool (VInt i) = (i \<noteq> 0)"
| "as_bool (VFloat x) = (x \<noteq> 0)"
| "as_bool (VStr s) = (s \<noteq> [])"
| "as_bool VNull = False"

fun as_float :: "(string \<Rightarrow> real option) \<Rightarrow> tval \<Rightarrow> real option" where
  "as_float flt (VBool b) = Some (if b then 1 else 0)"
| "as_float flt (VInt i) = Some (of_int i)"
| "as_float flt (VFloat x) = Some x"
| "as_float flt (VStr s) = flt s"
| "as_float flt VNull = None"

definition trunc :: "real \<Rightarrow> int" where
  "trunc x = (if 0 \<le> x then \<lfloor>x\<rfloor> else \<lceil>x\<rceil>)"

definition at_least :: "'a::linorder option \<Rightarrow> 'a \<Rightarrow> 'a" where
  "at_least lo v = (case lo of None \<Rightarrow> v | Some l \<Rightarrow> max l v)"

definition at_most :: "'a::linorder option \<Rightarrow> 'a \<Rightarrow> 'a" where
  "at_most hi v = (case hi of None \<Rightarrow> v | Some h \<Rightarrow> min h v)"

definition clamp :: "(string \<Rightarrow> real option) \<Rightarrow> knob \<Rightarrow> tval \<Rightarrow> tval option" where
  "clamp flt k v =
     (case kn_type k of
        KBool \<Rightarrow> Some (VBool (as_bool v))
      | KInt \<Rightarrow>
          map_option (\<lambda>x. VInt (at_most (map_option trunc (kn_max k)) (at_least (map_option trunc (kn_min k)) (py_round x))))
            (as_float flt v)
      | KFloat \<Rightarrow> map_option (\<lambda>x. VFloat (at_most (kn_max k) (at_least (kn_min k) x))) (as_float flt v)
      | KEnum \<Rightarrow> Some v)"

section \<open>The store\<close>

definition tune_load :: "tuning \<Rightarrow> (string \<times> tval) list \<times> tuning" where
  "tune_load g =
     (let c = (case g_cache g of Some c \<Rightarrow> c | None \<Rightarrow> (case g_file g of None \<Rightarrow> [] | Some f \<Rightarrow> f))
      in (c, g\<lparr>g_cache := Some c\<rparr>))"

definition vals_of :: "tuning \<Rightarrow> (string \<times> tval) list" where
  "vals_of g = fst (tune_load g)"

text \<open>\<open>None\<close> is a key no knob has (the caller's fallback), \<open>Some (Inl e)\<close> an exception.\<close>

definition tune_get :: "(string \<Rightarrow> real option) \<Rightarrow> string \<Rightarrow> tuning \<Rightarrow> (terr + tval) option" where
  "tune_get flt key g =
     (case by_key key of
        None \<Rightarrow> None
      | Some k \<Rightarrow>
          (case map_of (vals_of g) key of
             None \<Rightarrow> Some (Inr (kn_default k))
           | Some v \<Rightarrow> Some (case clamp flt k v of None \<Rightarrow> Inl BadValue | Some w \<Rightarrow> Inr w)))"

fun apply_updates ::
  "(string \<Rightarrow> real option) \<Rightarrow> (string \<times> tval) list \<Rightarrow> (string \<times> tval) list \<Rightarrow> (string \<times> tval) list option" where
  "apply_updates flt [] cur = Some cur"
| "apply_updates flt ((k, v) # us) cur =
     (case by_key k of
        None \<Rightarrow> None
      | Some kn \<Rightarrow>
          (case clamp flt kn v of None \<Rightarrow> None | Some w \<Rightarrow> apply_updates flt us (AList.update k w cur)))"

definition set_many :: "(string \<Rightarrow> real option) \<Rightarrow> (string \<times> tval) list \<Rightarrow> tuning \<Rightarrow> (terr + (string \<times> tval) list) \<times> tuning" where
  "set_many flt updates g =
     (let bad = filter (\<lambda>k. by_key k = None) (map fst updates) in
      if bad \<noteq> [] then (Inl (UnknownKnobs (sort bad)), g)
      else case tune_load g of (cur, g1) \<Rightarrow>
             (case apply_updates flt updates cur of
                None \<Rightarrow> (Inl BadValue, g1)
              | Some new \<Rightarrow> (Inr new, g1\<lparr>g_file := Some new, g_cache := Some new\<rparr>)))"

definition tune_reset :: "string \<Rightarrow> tuning \<Rightarrow> tuning" where
  "tune_reset key g =
     (case tune_load g of (cur, g1) \<Rightarrow>
        let new = filter (\<lambda>p. fst p \<noteq> key) cur in g1\<lparr>g_file := Some new, g_cache := Some new\<rparr>)"

section \<open>What the scheduler reads\<close>

definition bool_of :: "terr + tval \<Rightarrow> bool" where
  "bool_of r = (case r of Inr v \<Rightarrow> as_bool v | Inl e \<Rightarrow> False)"

fun real_of :: "tval \<Rightarrow> real" where
  "real_of (VFloat x) = x"
| "real_of (VInt i) = of_int i"
| "real_of (VBool b) = (if b then 1 else 0)"
| "real_of v = 0"

definition got :: "(string \<Rightarrow> real option) \<Rightarrow> string \<Rightarrow> tuning \<Rightarrow> tval option" where
  "got flt key g = (case tune_get flt key g of Some (Inr v) \<Rightarrow> Some v | other \<Rightarrow> None)"

text \<open>\<open>None\<close>: reading one of the knobs raised.\<close>

definition live_config :: "(string \<Rightarrow> real option) \<Rightarrow> tuning \<Rightarrow> kcfg option" where
  "live_config flt g =
     (case (got flt ''kairos.enabled'' g, got flt ''kairos.continue_margin'' g, got flt ''kairos.max_chain'' g,
            got flt ''kairos.cooldown_s'' g, got flt ''kairos.max_per_hour'' g, got flt ''kairos.checkin_idle_s'' g,
            got flt ''kairos.checkin_chance'' g) of
        (Some en, Some mg, Some ch, Some cd, Some ph, Some idle, Some p) \<Rightarrow>
          Some (default_cfg\<lparr>k_enabled := as_bool en, k_margin := real_of mg, k_max_chain := trunc (real_of ch),
             k_cooldown := real_of cd, k_max_per_hour := trunc (real_of ph), k_idle := real_of idle,
             k_chance := real_of p\<rparr>)
      | other \<Rightarrow> None)"

section \<open>Every value is within its bounds\<close>

definition in_bounds :: "knob \<Rightarrow> tval \<Rightarrow> bool" where
  "in_bounds k v \<longleftrightarrow>
     (case kn_type k of
        KBool \<Rightarrow> (\<exists>b. v = VBool b)
      | KInt \<Rightarrow> (\<exists>i. v = VInt i \<and> (\<forall>l. kn_min k = Some l \<longrightarrow> l \<le> of_int i) \<and> (\<forall>h. kn_max k = Some h \<longrightarrow> of_int i \<le> h))
      | KFloat \<Rightarrow> (\<exists>x. v = VFloat x \<and> (\<forall>l. kn_min k = Some l \<longrightarrow> l \<le> x) \<and> (\<forall>h. kn_max k = Some h \<longrightarrow> x \<le> h))
      | KEnum \<Rightarrow> True)"

definition knob_ok :: "knob \<Rightarrow> bool" where
  "knob_ok k \<longleftrightarrow> in_bounds k (kn_default k)
     \<and> (\<forall>l h. kn_min k = Some l \<longrightarrow> kn_max k = Some h \<longrightarrow> l \<le> h)
     \<and> (kn_type k = KInt \<longrightarrow> (\<forall>l. kn_min k = Some l \<longrightarrow> of_int (trunc l) = l) \<and> (\<forall>h. kn_max k = Some h \<longrightarrow> of_int (trunc h) = h))"

lemma trunc_int [simp]: "trunc (of_int i) = i"
  by (simp add: trunc_def)

lemma declared_ok:
  "knob_ok (switch k)"
  "lo \<le> d \<Longrightarrow> d \<le> hi \<Longrightarrow> knob_ok (num_knob k d lo hi)"
  "l \<le> i \<Longrightarrow> i \<le> h \<Longrightarrow> knob_ok (int_knob k i l h)"
  by (auto simp: switch_def num_knob_def int_knob_def knob_ok_def in_bounds_def)

lemma knobs_ok: "\<forall>k \<in> set KNOBS. knob_ok k"
  by (simp add: KNOBS_def declared_ok)

lemma by_key_ok: "by_key key = Some k \<Longrightarrow> knob_ok k \<and> kn_key k = key"
proof -
  assume "by_key key = Some k"
  then have "k \<in> set (rev KNOBS)" "kn_key k = key" unfolding by_key_def find_Some_iff by (auto simp del: set_rev)
  then show ?thesis using knobs_ok by simp
qed

lemma at_most_le: "hi = Some h \<Longrightarrow> at_most hi v \<le> h"
  by (simp add: at_most_def)

lemma at_least_ge: "lo = Some l \<Longrightarrow> (\<And>h. hi = Some h \<Longrightarrow> l \<le> h) \<Longrightarrow> l \<le> at_most hi (at_least lo v)"
  by (auto simp: at_most_def at_least_def le_max_iff_disj split: option.split)

lemma clamp_bounds:
  assumes "knob_ok k" "clamp flt k v = Some w"
  shows "in_bounds k w"
proof (cases "kn_type k")
  case KInt
  let ?lo = "map_option trunc (kn_min k)" and ?hi = "map_option trunc (kn_max k)"
  obtain x where w: "w = VInt (at_most ?hi (at_least ?lo x))"
    using assms(2) KInt by (auto simp: clamp_def)
  have lo: "of_int (trunc l) = l" if "kn_min k = Some l" for l using assms(1) KInt that by (simp add: knob_ok_def)
  have hi: "of_int (trunc h) = h" if "kn_max k = Some h" for h using assms(1) KInt that by (simp add: knob_ok_def)
  have le: "trunc l \<le> trunc h" if "kn_min k = Some l" "kn_max k = Some h" for l h
  proof -
    have "l \<le> h" using assms(1) that by (simp add: knob_ok_def)
    then have "(of_int (trunc l) :: real) \<le> of_int (trunc h)" by (simp only: lo [OF that(1)] hi [OF that(2)])
    then show ?thesis by simp
  qed
  have "l \<le> of_int (at_most ?hi (at_least ?lo x))" if l: "kn_min k = Some l" for l
  proof -
    have "trunc l \<le> at_most ?hi (at_least ?lo x)" by (rule at_least_ge) (use l le in auto)
    then have "(of_int (trunc l) :: real) \<le> of_int (at_most ?hi (at_least ?lo x))" by simp
    then show ?thesis by (simp only: lo [OF l])
  qed
  moreover have "of_int (at_most ?hi (at_least ?lo x)) \<le> h" if h: "kn_max k = Some h" for h
  proof -
    have "at_most ?hi (at_least ?lo x) \<le> trunc h" by (rule at_most_le) (simp add: h)
    then have "(of_int (at_most ?hi (at_least ?lo x)) :: real) \<le> of_int (trunc h)" by simp
    then show ?thesis by (simp only: hi [OF h])
  qed
  ultimately show ?thesis by (simp add: in_bounds_def KInt w)
next
  case KFloat
  then obtain x where w: "w = VFloat (at_most (kn_max k) (at_least (kn_min k) x))"
    using assms(2) by (auto simp: clamp_def)
  show ?thesis using assms(1) KFloat
    by (auto simp: in_bounds_def w knob_ok_def intro!: at_most_le at_least_ge)
qed (use assms in \<open>auto simp: clamp_def in_bounds_def\<close>)

lemma get_bounds: "tune_get flt key g = Some (Inr v) \<Longrightarrow> \<exists>k. by_key key = Some k \<and> in_bounds k v"
proof -
  assume g: "tune_get flt key g = Some (Inr v)"
  then obtain k where k: "by_key key = Some k" by (auto simp: tune_get_def split: option.splits)
  have ok: "knob_ok k" using by_key_ok [OF k] by blast
  then have d: "in_bounds k (kn_default k)" by (simp add: knob_ok_def)
  show ?thesis
    using g k d clamp_bounds [OF ok, of flt] by (auto simp: tune_get_def split: option.splits)
qed

lemma get_unknown: "tune_get flt key g = None \<longleftrightarrow> by_key key = None"
  by (auto simp: tune_get_def split: option.split)

section \<open>Updates are all or nothing\<close>

lemma vals_load: "tune_load g = (vals_of g, g\<lparr>g_cache := Some (vals_of g)\<rparr>)"
  by (simp add: vals_of_def tune_load_def Let_def)

lemma vals_cached [simp]: "vals_of (g\<lparr>g_cache := Some c\<rparr>) = c" "vals_of (g\<lparr>g_file := f, g_cache := Some c\<rparr>) = c"
  by (simp_all add: vals_of_def tune_load_def Let_def)

lemma set_many_refused:
  assumes "fst (set_many flt us g) = Inl e"
  shows "g_file (snd (set_many flt us g)) = g_file g \<and> vals_of (snd (set_many flt us g)) = vals_of g"
  using assms by (auto simp: set_many_def Let_def vals_load split: option.splits if_split_asm)

lemma set_many_unknown:
  "(\<exists>ks. fst (set_many flt us g) = Inl (UnknownKnobs ks)) \<longleftrightarrow> (\<exists>k \<in> set (map fst us). by_key k = None)"
  by (auto simp: set_many_def Let_def vals_load filter_empty_conv split: option.split)

lemma apply_updates_map:
  "apply_updates flt us cur = Some new \<Longrightarrow>
     map_of new k = (case map_of (rev us) k of
        None \<Rightarrow> map_of cur k
      | Some v \<Rightarrow> (case by_key k of None \<Rightarrow> None | Some kn \<Rightarrow> clamp flt kn v))"
proof (induction flt us cur rule: apply_updates.induct)
  case (2 flt j v us cur)
  then obtain kn w where j: "by_key j = Some kn" "clamp flt kn v = Some w"
    "apply_updates flt us (AList.update j w cur) = Some new"
    by (auto split: option.splits)
  show ?case
    using "2.IH" [OF j] j(1,2) by (auto simp: update_conv' map_add_def split: option.split)
qed simp

lemma apply_updates_known: "apply_updates flt us cur = Some new \<Longrightarrow> k \<in> fst ` set us \<Longrightarrow> by_key k \<noteq> None"
  by (induction flt us cur rule: apply_updates.induct) (auto split: option.splits)

lemma apply_updates_clamps:
  "apply_updates flt us cur = Some new \<Longrightarrow> (k, v) \<in> set us \<Longrightarrow> by_key k = Some kn \<Longrightarrow> clamp flt kn v \<noteq> None"
  by (induction flt us cur rule: apply_updates.induct) (auto split: option.splits)

lemma set_many_result:
  assumes "set_many flt us g = (Inr new, g')"
  shows "vals_of g' = new \<and> g_file g' = Some new \<and> apply_updates flt us (vals_of g) = Some new"
  using assms by (auto simp: set_many_def Let_def vals_load split: option.splits if_split_asm)

text \<open>Clamping a clamped value changes nothing.\<close>

lemma clamp_again:
  assumes "knob_ok k" "clamp flt k v = Some w"
  shows "clamp flt k w = Some w"
proof (cases "kn_type k")
  case KInt
  then obtain i where w: "w = VInt i" using assms(2) by (auto simp: clamp_def)
  have b: "in_bounds k w" by (rule clamp_bounds [OF assms])
  have r: "py_round (of_int i) = i" by (simp add: py_round_def)
  have "trunc l \<le> i" if "kn_min k = Some l" for l
  proof -
    have "of_int (trunc l) = l" "l \<le> of_int i" using assms(1) KInt that b by (simp_all add: knob_ok_def in_bounds_def w)
    then show ?thesis by (metis of_int_le_iff)
  qed
  moreover have "i \<le> trunc h" if "kn_max k = Some h" for h
  proof -
    have "of_int (trunc h) = h" "of_int i \<le> h" using assms(1) KInt that b by (simp_all add: knob_ok_def in_bounds_def w)
    then show ?thesis by (metis of_int_le_iff)
  qed
  ultimately show ?thesis
    by (auto simp: clamp_def KInt w r at_least_def at_most_def max_absorb2 min_absorb2 split: option.split)
next
  case KFloat
  then obtain x where w: "w = VFloat x" using assms(2) by (auto simp: clamp_def)
  then show ?thesis using clamp_bounds [OF assms] KFloat
    by (auto simp: clamp_def in_bounds_def at_least_def at_most_def max_absorb2 min_absorb2 split: option.split)
qed (use assms(2) in \<open>auto simp: clamp_def\<close>)

lemma get_after_set:
  assumes "set_many flt us g = (Inr new, g')" "by_key k = Some kn"
  shows "tune_get flt k g' =
    (case map_of (rev us) k of None \<Rightarrow> tune_get flt k g | Some v \<Rightarrow> map_option Inr (clamp flt kn v))"
proof -
  have vals: "vals_of g' = new" and ap: "apply_updates flt us (vals_of g) = Some new"
    using set_many_result [OF assms(1)] by auto
  have ok: "knob_ok kn" using by_key_ok [OF assms(2)] by blast
  show ?thesis
  proof (cases "map_of (rev us) k")
    case None
    then show ?thesis using apply_updates_map [OF ap, of k] by (simp add: tune_get_def vals assms(2))
  next
    case (Some v)
    then have m: "map_of new k = clamp flt kn v" using apply_updates_map [OF ap, of k] assms(2) by simp
    have "clamp flt kn v \<noteq> None"
      using apply_updates_clamps [OF ap _ assms(2)] map_of_SomeD [OF Some] by simp
    then show ?thesis using clamp_again [OF ok] by (auto simp: tune_get_def vals assms(2) m Some)
  qed
qed

lemma reset_default:
  assumes "by_key k = Some kn"
  shows "tune_get flt k (tune_reset k g) = Some (Inr (kn_default kn))"
    and "j \<noteq> k \<Longrightarrow> tune_get flt j (tune_reset k g) = tune_get flt j g"
proof -
  have "map_of (filter (\<lambda>p. fst p \<noteq> k) xs) k = (None :: tval option)" for xs
    by (induction xs) auto
  moreover have "j \<noteq> k \<Longrightarrow> map_of (filter (\<lambda>p. fst p \<noteq> k) xs) j = (map_of xs j :: tval option)" for xs
    by (induction xs) auto
  ultimately show "tune_get flt k (tune_reset k g) = Some (Inr (kn_default kn))"
    and "j \<noteq> k \<Longrightarrow> tune_get flt j (tune_reset k g) = tune_get flt j g"
    using assms by (simp_all add: tune_get_def tune_reset_def vals_load Let_def split: option.split)
qed

section \<open>The live configuration\<close>

lemma got_num:
  assumes "got flt key g = Some v" "by_key key = Some k" "kn_min k = Some lo" "kn_max k = Some hi" "kn_type k = KFloat"
  shows "\<exists>x. v = VFloat x \<and> lo \<le> x \<and> x \<le> hi"
  using assms get_bounds [of flt key g v] by (auto simp: got_def in_bounds_def split: option.splits sum.splits)

lemma got_int:
  assumes "got flt key g = Some v" "by_key key = Some k" "kn_min k = Some lo" "kn_max k = Some hi" "kn_type k = KInt"
  shows "\<exists>i. v = VInt i \<and> lo \<le> of_int i \<and> of_int i \<le> hi"
  using assms get_bounds [of flt key g v] by (auto simp: got_def in_bounds_def split: option.splits sum.splits)

lemma declared:
  "by_key ''kairos.continue_margin'' = Some (num_knob ''kairos.continue_margin'' (- 1175 / 100) (- 20) 5)"
  "by_key ''kairos.max_chain'' = Some (int_knob ''kairos.max_chain'' 1 1 3)"
  "by_key ''kairos.cooldown_s'' = Some (num_knob ''kairos.cooldown_s'' 45 0 600)"
  "by_key ''kairos.max_per_hour'' = Some (int_knob ''kairos.max_per_hour'' 6 0 60)"
  "by_key ''kairos.checkin_idle_s'' = Some (num_knob ''kairos.checkin_idle_s'' 240 30 3600)"
  "by_key ''kairos.checkin_chance'' = Some (num_knob ''kairos.checkin_chance'' (35 / 100) 0 1)"
  "by_key ''roleplay.max_heat'' = Some (int_knob ''roleplay.max_heat'' 7 0 7)"
  by (simp_all add: by_key_def KNOBS_def switch_def num_knob_def int_knob_def)

lemma live_config_bounds:
  assumes "live_config flt g = Some cfg"
  shows "1 \<le> k_max_chain cfg \<and> k_max_chain cfg \<le> 3 \<and> 0 \<le> k_max_per_hour cfg \<and> k_max_per_hour cfg \<le> 60
    \<and> 0 \<le> k_cooldown cfg \<and> k_cooldown cfg \<le> 600 \<and> 30 \<le> k_idle cfg \<and> 0 \<le> k_chance cfg \<and> k_chance cfg \<le> 1"
proof -
  obtain ch cd ph idle p where
    g: "got flt ''kairos.max_chain'' g = Some ch" "got flt ''kairos.cooldown_s'' g = Some cd"
      "got flt ''kairos.max_per_hour'' g = Some ph" "got flt ''kairos.checkin_idle_s'' g = Some idle"
      "got flt ''kairos.checkin_chance'' g = Some p"
    and cfg: "k_max_chain cfg = trunc (real_of ch)" "k_cooldown cfg = real_of cd"
      "k_max_per_hour cfg = trunc (real_of ph)" "k_idle cfg = real_of idle" "k_chance cfg = real_of p"
    using assms by (auto simp: live_config_def split: option.splits)
  show ?thesis
    using got_int [OF g(1) declared(2), of 1 3] got_num [OF g(2) declared(3), of 0 600]
      got_int [OF g(3) declared(4), of 0 60] got_num [OF g(4) declared(5), of 30 3600]
      got_num [OF g(5) declared(6), of 0 1]
    by (auto simp: cfg int_knob_def num_knob_def)
qed

section \<open>Properties\<close>

text \<open>
  C32. Every knob read is well typed and in its bounds, and an update is all or nothing: whatever the
  override file holds, a value read is of the declared type of a declared knob and within its limits;
  so the scheduler's configuration has a chain of 1 to 3, at most 60 utterances an hour, a cool-down of
  at most ten minutes and a chance that is a probability. An update with an unknown knob or a value that
  is no number changes neither the file nor what is read; after an accepted one each updated knob reads
  as its last value, clamped, and every other knob as before.
\<close>

theorem tuning_typed:
  "(tune_get flt key g = Some (Inr v) \<longrightarrow> (\<exists>k. by_key key = Some k \<and> kn_key k = key \<and> in_bounds k v))
    \<and> (live_config flt g = Some cfg \<longrightarrow> 1 \<le> k_max_chain cfg \<and> k_max_chain cfg \<le> 3 \<and> 0 \<le> k_max_per_hour cfg
         \<and> k_max_per_hour cfg \<le> 60 \<and> 0 \<le> k_cooldown cfg \<and> k_cooldown cfg \<le> 600 \<and> 0 \<le> k_chance cfg \<and> k_chance cfg \<le> 1)
    \<and> ((\<exists>k \<in> set (map fst us). by_key k = None) \<longrightarrow> (\<exists>ks. set_many flt us g = (Inl (UnknownKnobs ks), g)))
    \<and> (\<forall>e g'. set_many flt us g = (Inl e, g') \<longrightarrow> g_file g' = g_file g \<and> tune_get flt key g' = tune_get flt key g)
    \<and> (\<forall>new g' kn. set_many flt us g = (Inr new, g') \<longrightarrow> by_key key = Some kn \<longrightarrow> tune_get flt key g' =
         (case map_of (rev us) key of None \<Rightarrow> tune_get flt key g | Some x \<Rightarrow> map_option Inr (clamp flt kn x)))"
proof (intro conjI impI allI)
  assume "tune_get flt key g = Some (Inr v)"
  then show "\<exists>k. by_key key = Some k \<and> kn_key k = key \<and> in_bounds k v" using get_bounds by_key_ok by blast
next
  assume "\<exists>k \<in> set (map fst us). by_key k = None"
  then show "\<exists>ks. set_many flt us g = (Inl (UnknownKnobs ks), g)" by (auto simp: set_many_def Let_def filter_empty_conv)
next
  fix e g' assume s: "set_many flt us g = (Inl e, g')"
  have r: "g_file g' = g_file g" "vals_of g' = vals_of g" using set_many_refused [of flt us g e] s by simp_all
  then show "g_file g' = g_file g" "tune_get flt key g' = tune_get flt key g" unfolding tune_get_def by (simp_all only:)
qed (use live_config_bounds [of flt g cfg] get_after_set in \<open>auto\<close>)

theorem tuning_typed_witness:
  "tune_get (\<lambda>s. None) ''kairos.max_per_hour''
     (snd (set_many (\<lambda>s. None) [(''kairos.max_per_hour'', VInt 9000)] \<lparr>g_file = None, g_cache = None\<rparr>)) = Some (Inr (VInt 60))"
proof -
  let ?g = "\<lparr>g_file = None, g_cache = None\<rparr>" and ?us = "[(''kairos.max_per_hour'', VInt 9000)]"
  have "fst (set_many (\<lambda>s. None) ?us ?g) = Inr [(''kairos.max_per_hour'', VInt 60)]" by code_simp
  then have s: "set_many (\<lambda>s. None) ?us ?g = (Inr [(''kairos.max_per_hour'', VInt 60)], snd (set_many (\<lambda>s. None) ?us ?g))"
    by (metis prod.collapse)
  have "clamp (\<lambda>s. None) (int_knob ''kairos.max_per_hour'' 6 0 60) (VInt 9000) = Some (VInt 60)" by code_simp
  then show ?thesis using tuning_typed [of "\<lambda>s. None" "''kairos.max_per_hour''" ?g _ _ ?us] s declared(4) by simp
qed

end
