(* ===== verification/Roleplay.thy ===== *)
theory Roleplay imports Tuning begin

text \<open>
  Scenes: the ladder of \<open>harness/roleplay/ladder.py\<close>, the director of \<open>harness/roleplay/engine.py\<close>, the
  deck of \<open>harness/roleplay/scenarios.py\<close> (the fields the code branches on) and the turn hook
  \<open>_roleplay_pre_turn\<close> of \<open>harness/server/app.py\<close>. A director's note is a value that says which text the
  source composes; the prompt texts are left out, and so are the dashes of the titles.
\<close>

section \<open>The ladder\<close>

definition DWELL :: "nat \<Rightarrow> nat" where
  "DWELL l = (if l = 0 then 1 else if l = 1 then 3 else if l = 7 then 99 else 2)"

definition word_re :: "rx list \<Rightarrow> rx" where
  "word_re rs = bounded (alts rs)"

definition HARD_STOP :: rx where
  "HARD_STOP = word_re (map lit [''stop'', ''wait'', ''hold on'', ''enough'', ''no more'', ''cut'', ''end scene'',
     ''out of character'', ''ooc'', ''break character'', ''safeword'', ''red''])"

definition COOL :: rx where
  "COOL = word_re [lit ''slow down'', lit ''ease off'', lit ''not yet'', lit ''cool it'',
     seqs [lit ''let'', opt (chr (CHR 0x27)), lit ''s talk''], lit ''pause'', lit ''back off'',
     seqs [lit ''change '', opt (lit ''the ''), lit ''subject''], lit ''something else'']"

definition HEAT :: rx where
  "HEAT = word_re (map lit [''kiss'', ''kisses'', ''touch'', ''touches'', ''closer'', ''undress'', ''strip'', ''naked'', ''bed'',
     ''fuck'', ''f*ck'', ''cock'', ''pussy'', ''cum'', ''moan'', ''grind'', ''straddle'', ''bite'',
     ''pin me'', ''pin you'', ''pin him'', ''pin her'', ''take me'', ''want you'', ''need you'', ''harder'', ''deeper'', ''more''])"

record heat =
  h_level :: nat
  h_beats :: nat

datatype gate = AtCeiling | TopOfLadder | NotYet nat | Available

definition gate_open :: "heat \<Rightarrow> int \<Rightarrow> bool \<times> gate" where
  "gate_open h cap =
     (if cap \<le> int (h_level h) then (False, AtCeiling)
      else if 7 \<le> h_level h then (False, TopOfLadder)
      else if h_beats h < DWELL (h_level h) then (False, NotYet (DWELL (h_level h) - h_beats h))
      else (True, Available))"

datatype heat_note = Broken | EaseOff nat | Pushed nat | Refused gate | Hold

definition heat_step :: "heat \<Rightarrow> string \<Rightarrow> int \<Rightarrow> heat \<times> heat_note" where
  "heat_step h user cap =
     (if ifound HARD_STOP user then (\<lparr>h_level = 0, h_beats = 0\<rparr>, Broken)
      else if ifound COOL user
      then (\<lparr>h_level = h_level h - 1, h_beats = 0\<rparr>, EaseOff (h_level h - 1))
      else if ifound HEAT user
      then (case gate_open h cap of
              (True, why) \<Rightarrow> (let l = nat (min (min 7 (int (h_level h) + 1)) cap) in (\<lparr>h_level = l, h_beats = 0\<rparr>, Pushed l))
            | (False, why) \<Rightarrow> (h\<lparr>h_beats := h_beats h + 1\<rparr>, Refused why))
      else (h\<lparr>h_beats := h_beats h + 1\<rparr>, Hold))"

section \<open>The deck\<close>

record scenario =
  c_id :: string
  c_theme :: string
  c_title :: string
  c_hooks :: "string list"
  c_heat0 :: nat

definition SCENARIOS :: "scenario list" where
  "SCENARIOS =
    [\<lparr>c_id = ''penthouse'', c_theme = ''noir / cyberpunk'', c_title = ''Neon City - the penthouse bar'',
      c_hooks = [''Someone she owes a favour walks in and she has to decide whether to hide you'', ''The rain stops. She notices the silence before you do'', ''She asks you the one question you did not want to answer'', ''The lights drop to emergency amber - the building's grid is being probed''], c_heat0 = 0\<rparr>,
     \<lparr>c_id = ''station'', c_theme = ''sci-fi'', c_title = ''The long watch'',
      c_hooks = [''A systems fault means one of you has to sleep in the other's compartment'', ''She finds the letter you never sent'', ''The station's AI starts asking her personal questions and she lets it'', ''Something answers the relay. It should not have.''], c_heat0 = 0\<rparr>,
     \<lparr>c_id = ''tavern'', c_theme = ''fantasy'', c_title = ''The last inn before the pass'',
      c_hooks = [''Riders at the door, asking after a woman travelling alone'', ''She asks you to cut her hair, tonight, before dawn'', ''The habit comes off and what is under it is not a nun's'', ''She offers you the sword and asks if you know how to use it''], c_heat0 = 0\<rparr>,
     \<lparr>c_id = ''rain'', c_theme = ''dating / contemporary'', c_title = ''The wrong train'',
      c_hooks = [''The train stops between stations. Nobody says why.'', ''She asks what you would do if she got off at your stop'', ''Her phone rings. She looks at it, and doesn't answer.'', ''She falls asleep on your shoulder and you have to decide what to do with that''], c_heat0 = 0\<rparr>,
     \<lparr>c_id = ''heist'', c_theme = ''adventure / crime'', c_title = ''Eleven minutes'',
      c_hooks = [''The timer jumps. Someone is shortening it from outside.'', ''What is in the vault is not what you were hired to take'', ''She tells you to leave without her, and means it'', ''The lights come on''], c_heat0 = 0\<rparr>,
     \<lparr>c_id = ''afterparty'', c_theme = ''romantic / sexual'', c_title = ''After everyone left'',
      c_hooks = [''She asks you to unzip her dress because the clasp is stuck. It is not stuck.'', ''Her taxi arrives. She cancels it in front of you.'', ''She says your name and nothing else'', ''She stops, mid-kiss, and asks if you are sure''], c_heat0 = 1\<rparr>,
     \<lparr>c_id = ''hunt'', c_theme = ''horror'', c_title = ''The thing in the treeline'',
      c_hooks = [''It stops circling'', ''She tells you what she found in the trench'', ''The generator starts again by itself'', ''It uses a voice you recognise''], c_heat0 = 0\<rparr>]"

definition by_id :: "string \<Rightarrow> scenario option" where
  "by_id i = find (\<lambda>s. c_id s = i) SCENARIOS"

definition slash_words :: "string \<Rightarrow> string list" where
  "slash_words t = py_split (map (\<lambda>c. if c = CHR ''/'' then CHR '' '' else c) t)"

definition long_title_words :: "scenario \<Rightarrow> string list" where
  "long_title_words s = filter (\<lambda>w. 4 < length w) (py_split (lower (c_title s)))"

definition suggest :: "string \<Rightarrow> scenario list" where
  "suggest user =
     (let t = lower user;
          hits = filter (\<lambda>s. list_ex (contains t) (slash_words (c_theme s)) \<or> contains t (c_id s)
                    \<or> list_ex (contains t) (long_title_words s)) SCENARIOS
      in if hits = [] then SCENARIOS else hits)"

definition pick_from :: "string \<Rightarrow> scenario option" where
  "pick_from user =
     (let t = lower user in
      case find (\<lambda>s. contains t (c_id s)) SCENARIOS of
        Some s \<Rightarrow> Some s
      | None \<Rightarrow>
          (case find (\<lambda>s. list_ex (contains t) (long_title_words s)) SCENARIOS of
             Some s \<Rightarrow> Some s
           | None \<Rightarrow> find (\<lambda>s. list_ex (contains t) (filter (\<lambda>w. 3 < length w) (slash_words (c_theme s)))) SCENARIOS))"

section \<open>The director\<close>

definition letters1 :: rx where
  "letters1 = plus1 (Cls is_wordc)"

definition ENTER :: rx where
  "ENTER = seqs [Bnd, alts
     [seqs [lit ''role'', opt (Cls (\<lambda>c. is_space c \<or> c = CHR ''-'')), lit ''play''], lit ''roleplay'',
      seqs [lit ''rp'', Bnd], seqs [lit ''let'', opt (chr (CHR 0x27)), lit ''s play''],
      seqs [lit ''play a '', alts [lit ''game'', lit ''scene'', lit ''scenario'']],
      seqs [lit ''be '', alts [lit ''my'', lit ''a''], lit '' '', letters1],
      seqs [lit ''pretend '', alts [seqs [lit ''you'', opt (chr (CHR 0x27)), lit ''re''], lit ''to be'']],
      lit ''act as'', lit ''in character'', lit ''start a scene'', lit ''scenario''], Bnd]"

definition EXIT :: rx where
  "EXIT = word_re [lit ''stop'', lit ''end scene'', lit ''end the scene'', lit ''out of character'', lit ''ooc'',
     lit ''break character'', lit ''drop character'', seqs [lit ''that'', opt (chr (CHR 0x27)), lit ''s enough''],
     lit ''back to normal'', lit ''be yourself again'']"

definition STALL_BEATS :: nat where
  "STALL_BEATS = 4"

record scene =
  e_scenario :: scenario
  e_heat :: heat
  e_beats :: nat
  e_fired :: "nat list"

record stage =
  g_scenes :: "string \<Rightarrow> scene option"
  g_pending :: "string set"

definition wants_in :: "string \<Rightarrow> bool" where
  "wants_in t \<longleftrightarrow> ifound ENTER t"

definition wants_out :: "string \<Rightarrow> bool" where
  "wants_out t \<longleftrightarrow> ifound EXIT t \<or> ifound HARD_STOP t"

definition enter :: "string \<Rightarrow> string \<Rightarrow> stage \<Rightarrow> scene option \<times> stage" where
  "enter session scenario_id g =
     (case by_id scenario_id of
        None \<Rightarrow> (None, g)
      | Some s \<Rightarrow>
          (let sc = \<lparr>e_scenario = s, e_heat = \<lparr>h_level = c_heat0 s, h_beats = 0\<rparr>, e_beats = 0, e_fired = []\<rparr>
           in (Some sc, g\<lparr>g_scenes := (g_scenes g)(session \<mapsto> sc)\<rparr>)))"

definition leave :: "string \<Rightarrow> stage \<Rightarrow> stage" where
  "leave session g = g\<lparr>g_scenes := (g_scenes g)(session := None)\<rparr>"

definition stalling :: "nat \<Rightarrow> bool" where
  "stalling beats \<longleftrightarrow> STALL_BEATS \<le> beats \<and> beats mod STALL_BEATS = 0"

definition hook_for :: "scene \<Rightarrow> string \<Rightarrow> nat option" where
  "hook_for sc user =
     (if stalling (e_beats sc) \<or> length (py_split user) \<le> 4
      then find (\<lambda>i. i \<notin> set (e_fired sc)) [0..<length (c_hooks (e_scenario sc))] else None)"

definition director_note :: "scene \<Rightarrow> string \<Rightarrow> int \<Rightarrow> (heat_note \<times> nat option) \<times> scene" where
  "director_note sc user cap =
     (case heat_step (e_heat sc) user cap of
        (h, why) \<Rightarrow>
          (let sc1 = sc\<lparr>e_heat := h, e_beats := e_beats sc + 1\<rparr> in
           if why = Broken then ((why, None), sc1)
           else case hook_for sc1 user of
                  None \<Rightarrow> ((why, None), sc1)
                | Some i \<Rightarrow> ((why, Some i), sc1\<lparr>e_fired := e_fired sc1 @ [i]\<rparr>)))"

section \<open>The turn hook\<close>

datatype rp_out = Normal | Offered "scenario list" | Play nat heat_note "nat option"

text \<open>The ceiling is read only now: \<open>None\<close> is the exception of a knob that cannot be read.\<close>

definition play_on :: "string \<Rightarrow> string \<Rightarrow> int option \<Rightarrow> scene \<Rightarrow> stage \<Rightarrow> rp_out \<times> stage" where
  "play_on session user limit sc g =
     (case limit of
        None \<Rightarrow> (Normal, g)
      | Some cap \<Rightarrow>
          (case director_note sc user cap of
             ((why, hook), sc1) \<Rightarrow>
               if why = Broken then (Normal, leave session g)
               else (Play (h_level (e_heat sc1)) why hook, g\<lparr>g_scenes := (g_scenes g)(session \<mapsto> sc1)\<rparr>)))"

definition pre_turn :: "bool \<Rightarrow> int option \<Rightarrow> string \<Rightarrow> string \<Rightarrow> stage \<Rightarrow> rp_out \<times> stage" where
  "pre_turn on cap session user g =
     (if \<not> on then (Normal, g)
      else case g_scenes g session of
        Some sc \<Rightarrow>
          if wants_out user then (Normal, leave session g) else play_on session user cap sc g
      | None \<Rightarrow>
          if session \<notin> g_pending g \<and> \<not> wants_in user then (Normal, g)
          else (case pick_from user of
                  None \<Rightarrow>
                    if session \<in> g_pending g then (Normal, g\<lparr>g_pending := g_pending g - {session}\<rparr>)
                    else (Offered (take 4 (suggest user)), g\<lparr>g_pending := insert session (g_pending g)\<rparr>)
                | Some s \<Rightarrow>
                    (case enter session (c_id s) (g\<lparr>g_pending := g_pending g - {session}\<rparr>) of
                       (None, g1) \<Rightarrow> (Normal, g1)
                     | (Some sc, g1) \<Rightarrow> play_on session user cap sc g1)))"

text \<open>The switch and the ceiling come from the tuning registry; a switch that cannot be read ends the hook.\<close>

definition roleplay_pre_turn ::
  "(string \<Rightarrow> real option) \<Rightarrow> tuning \<Rightarrow> string \<Rightarrow> string \<Rightarrow> stage \<Rightarrow> rp_out \<times> stage" where
  "roleplay_pre_turn flt tn session user g =
     (case got flt ''roleplay.enabled'' tn of
        None \<Rightarrow> (Normal, g)
      | Some on \<Rightarrow>
          pre_turn (as_bool on) (map_option (\<lambda>v. trunc (real_of v)) (got flt ''roleplay.max_heat'' tn)) session user g)"

section \<open>One rung at a time\<close>

lemma step_up_gated:
  assumes "h_level h < h_level (fst (heat_step h user cap))"
  shows "h_level (fst (heat_step h user cap)) = h_level h + 1 \<and> int (h_level h) < cap \<and> DWELL (h_level h) \<le> h_beats h
    \<and> ifound HEAT user \<and> \<not> ifound COOL user \<and> \<not> ifound HARD_STOP user \<and> h_level h < 7"
  using assms by (auto simp: heat_step_def gate_open_def Let_def min_def split: if_split_asm prod.splits bool.splits)

lemma step_down_free:
  "ifound HARD_STOP user \<Longrightarrow> heat_step h user cap = (\<lparr>h_level = 0, h_beats = 0\<rparr>, Broken)"
  "\<not> ifound HARD_STOP user \<Longrightarrow> ifound COOL user \<Longrightarrow> h_level (fst (heat_step h user cap)) = h_level h - 1"
  by (simp_all add: heat_step_def)

definition climb :: "nat \<Rightarrow> nat" where
  "climb l = sum_list (map (\<lambda>i. DWELL i + 1) [0..<l])"

lemma climb_Suc [simp]: "climb (l + 1) = climb l + DWELL l + 1" "climb 0 = 0" "climb (Suc l) = climb l + DWELL l + 1"
  by (simp_all add: climb_def)

lemma climb_mono: "a \<le> b \<Longrightarrow> climb a \<le> climb b"
  by (induction b) (auto simp: le_Suc_eq)

definition played :: "int \<Rightarrow> string list \<Rightarrow> heat \<Rightarrow> heat" where
  "played cap turns h = fold (\<lambda>u h. fst (heat_step h u cap)) turns h"

lemma step_paced:
  assumes "climb (h_level h) + h_beats h \<le> n"
  shows "climb (h_level (fst (heat_step h user cap))) + h_beats (fst (heat_step h user cap)) \<le> n + 1"
proof (cases "h_level h < h_level (fst (heat_step h user cap))")
  case True
  note up = step_up_gated [OF True]
  have "h_beats (fst (heat_step h user cap)) = 0"
    using True by (auto simp: heat_step_def Let_def split: if_split_asm prod.splits bool.splits)
  then show ?thesis using up assms by simp
next
  case False
  then have "climb (h_level (fst (heat_step h user cap))) \<le> climb (h_level h)" by (intro climb_mono) simp
  moreover have "h_beats (fst (heat_step h user cap)) \<le> h_beats h + 1"
    by (auto simp: heat_step_def Let_def split: prod.split bool.split)
  ultimately show ?thesis using assms by simp
qed

lemma played_paced:
  "climb (h_level h) + h_beats h \<le> n \<Longrightarrow> climb (h_level (played cap turns h)) + h_beats (played cap turns h) \<le> n + length turns"
  unfolding played_def
proof (induction turns arbitrary: h n)
  case (Cons u turns)
  show ?case using Cons.IH [OF step_paced [OF Cons.prems, of u cap]] by simp
qed simp

lemma step_ceiling: "int (h_level h) \<le> cap \<Longrightarrow> int (h_level (fst (heat_step h user cap))) \<le> cap"
  using step_up_gated [of h user cap] by (cases "h_level h < h_level (fst (heat_step h user cap))") auto

lemma played_ceiling: "int (h_level h) \<le> cap \<Longrightarrow> int (h_level (played cap turns h)) \<le> cap"
  unfolding played_def by (induction turns arbitrary: h) (auto simp: step_ceiling)

section \<open>Leaving and entering\<close>

lemma out_leaves:
  assumes "g_scenes g session = Some sc" "wants_out user"
  shows "pre_turn True cap session user g = (Normal, leave session g)"
  using assms by (simp add: pre_turn_def)

lemma stays_out:
  assumes "g_scenes g session = None" "session \<notin> g_pending g" "\<not> wants_in user"
  shows "pre_turn on cap session user g = (Normal, g)"
  using assms by (simp add: pre_turn_def)

definition capped :: "int \<Rightarrow> stage \<Rightarrow> bool" where
  "capped cap g \<longleftrightarrow> (\<forall>s sc. g_scenes g s = Some sc \<longrightarrow> int (h_level (e_heat sc)) \<le> cap)"

lemma note_heat: "e_heat (snd (director_note sc user cap)) = fst (heat_step (e_heat sc) user cap)"
  by (auto simp: director_note_def Let_def split: prod.split option.split)

lemma play_on_capped:
  assumes "capped cap g" "int (h_level (e_heat sc)) \<le> cap"
  shows "capped cap (snd (play_on session user (Some cap) sc g))
    \<and> (\<forall>l w k. fst (play_on session user (Some cap) sc g) = Play l w k \<longrightarrow> int l \<le> cap)"
proof -
  obtain why hook sc1 where n: "director_note sc user cap = ((why, hook), sc1)" by (metis prod.collapse)
  then have "int (h_level (e_heat sc1)) \<le> cap" using note_heat [of sc user cap] step_ceiling [OF assms(2)] by simp
  then show ?thesis using assms(1) by (auto simp: play_on_def n capped_def leave_def)
qed

lemma pre_turn_capped:
  assumes "capped cap g" "\<forall>s \<in> set SCENARIOS. int (c_heat0 s) \<le> cap"
  shows "capped cap (snd (pre_turn on (Some cap) session user g))
    \<and> (\<forall>l w k. fst (pre_turn on (Some cap) session user g) = Play l w k \<longrightarrow> int l \<le> cap)"
proof (cases "g_scenes g session")
  case (Some sc)
  then have "int (h_level (e_heat sc)) \<le> cap" using assms(1) by (simp add: capped_def)
  from play_on_capped [OF assms(1) this] show ?thesis
    using assms(1) Some by (auto simp: pre_turn_def leave_def capped_def)
next
  case None
  have p: "capped cap (g\<lparr>g_pending := P\<rparr>)" for P using assms(1) by (simp add: capped_def)
  show ?thesis
  proof (cases "on \<and> (session \<in> g_pending g \<or> wants_in user)")
    case False
    then show ?thesis using assms(1) None by (auto simp: pre_turn_def)
  next
    case on: True
    show ?thesis
    proof (cases "pick_from user")
      case None
      then show ?thesis using on p \<open>g_scenes g session = None\<close> by (auto simp: pre_turn_def)
    next
      case (Some s)
      let ?g = "g\<lparr>g_pending := g_pending g - {session}\<rparr>"
      show ?thesis
      proof (cases "by_id (c_id s)")
        case None
        then show ?thesis using on p Some \<open>g_scenes g session = None\<close> by (auto simp: pre_turn_def enter_def)
      next
        case id: (Some q)
        then have "q \<in> set SCENARIOS" by (auto simp: by_id_def find_Some_iff)
        then have h: "int (c_heat0 q) \<le> cap" using assms(2) by blast
        let ?sc = "\<lparr>e_scenario = q, e_heat = \<lparr>h_level = c_heat0 q, h_beats = 0\<rparr>, e_beats = 0, e_fired = []\<rparr>"
        have e: "enter session (c_id s) ?g = (Some ?sc, ?g\<lparr>g_scenes := (g_scenes ?g)(session \<mapsto> ?sc)\<rparr>)"
          by (simp add: enter_def id Let_def)
        have "capped cap (?g\<lparr>g_scenes := (g_scenes ?g)(session \<mapsto> ?sc)\<rparr>)"
          using p [of "g_pending g - {session}"] h by (auto simp: capped_def)
        from play_on_capped [OF this, of ?sc session user] show ?thesis
          using on h Some \<open>g_scenes g session = None\<close> by (auto simp: pre_turn_def e)
      qed
    qed
  qed
qed

section \<open>Properties\<close>


definition demo_stage :: stage where
  "demo_stage = snd (pre_turn True (Some 7) ''s'' ''let's roleplay the heist'' \<lparr>g_scenes = (\<lambda>s. None), g_pending = {}\<rparr>)"


text \<open>
  The ceiling is not consulted when a scene opens: the scene after the party starts on the first rung
  whatever the ceiling, so a ceiling of 0 is passed at once.
\<close>

lemma ceiling_ignored_on_entry:
  "case fst (pre_turn True (Some 0) ''s'' ''roleplay afterparty'' \<lparr>g_scenes = (\<lambda>s. None), g_pending = {}\<rparr>) of
     Play l w k \<Rightarrow> l = 1 | other \<Rightarrow> False"
  by code_simp

end
