(* ===== verification/RepeatGuard.thy ===== *)
theory RepeatGuard imports Prelude begin

text \<open>
  The self-repeat guard of \<open>harness/quality/repeat_guard.py\<close>. The re-roll is an argument: no re-roll,
  or a function that returns a text or raises. A receipt is a value of \<open>guard_receipt\<close>, one constructor
  for each note of the source, with the similarity it prints.
\<close>

definition guard_toks :: "string \<Rightarrow> string list" where
  "guard_toks s = runs (\<lambda>c. is_lower c \<or> is_digit c \<or> c = CHR 0x27) (lower s)"

definition similarity :: "string \<Rightarrow> string \<Rightarrow> real" where
  "similarity a b =
     (let ta = set (guard_toks a); tb = set (guard_toks b) in
      if ta = {} \<or> tb = {} then 0
      else of_nat (card (ta \<inter> tb)) / of_nat (max (card ta) (card tb)))"

definition is_self_repeat :: "string \<Rightarrow> string \<Rightarrow> real \<Rightarrow> bool" where
  "is_self_repeat reply previous_reply threshold =
     (let r = strip reply; p = strip previous_reply in
      if r = [] \<or> p = [] then False
      else if length (guard_toks r) < 5 then False
      else if r = p then True
      else threshold \<le> similarity r p)"

definition THRESHOLD :: real where
  "THRESHOLD = 85 / 100"

datatype guard_receipt = Fine | NoReroll real | RerollFailed real | Rerolled real | FellBack real

text \<open>The dash of the source is a long one.\<close>

definition FALLBACK :: string where
  "FALLBACK = ''(I've said that already - say more and I'll pick it up from there.)''"

definition guard :: "string \<Rightarrow> string \<Rightarrow> (unit \<Rightarrow> string option) option \<Rightarrow> real \<Rightarrow> string \<times> guard_receipt" where
  "guard reply previous_reply reroll threshold =
     (if \<not> is_self_repeat reply previous_reply threshold then (reply, Fine)
      else let sim = similarity reply previous_reply in
           case reroll of
             None \<Rightarrow> (reply, NoReroll sim)
           | Some f \<Rightarrow>
               (case f () of
                  None \<Rightarrow> (reply, RerollFailed sim)
                | Some t \<Rightarrow>
                    (let second = strip t in
                     if second \<noteq> [] \<and> \<not> is_self_repeat second previous_reply threshold
                     then (second, Rerolled sim)
                     else (FALLBACK, FellBack sim))))"

section \<open>Similarity\<close>

lemma similarity_sym: "similarity a b = similarity b a"
  by (simp add: similarity_def Let_def Int_commute max.commute disj_commute)

lemma similarity_range: "0 \<le> similarity a b \<and> similarity a b \<le> 1"
proof -
  have "card (A \<inter> B) \<le> max (card A) (card B)" if "finite A" for A B :: "string set"
    using card_mono [OF that, of "A \<inter> B"] by simp
  then have "card (set (guard_toks a) \<inter> set (guard_toks b)) \<le> max (card (set (guard_toks a))) (card (set (guard_toks b)))"
    by simp
  then show ?thesis
    by (auto simp: similarity_def Let_def divide_le_eq_1 less_max_iff_disj card_gt_0_iff simp flip: of_nat_max)
qed

lemma similarity_one:
  assumes "guard_toks a \<noteq> []"
  shows "similarity a b = 1 \<longleftrightarrow> set (guard_toks a) = set (guard_toks b)"
proof
  let ?A = "set (guard_toks a)" and ?B = "set (guard_toks b)"
  assume "similarity a b = 1"
  then have "of_nat (card (?A \<inter> ?B)) = (of_nat (max (card ?A) (card ?B)) :: real)"
    using assms by (auto simp: similarity_def Let_def split: if_split_asm simp del: of_nat_max)
  then have c: "card (?A \<inter> ?B) = max (card ?A) (card ?B)" by (simp only: of_nat_eq_iff)
  have "?A \<inter> ?B = ?A" by (rule card_seteq) (use c in auto)
  moreover have "?A \<inter> ?B = ?B" by (rule card_seteq) (use c in auto)
  ultimately
  show "?A = ?B" by blast
next
  assume "set (guard_toks a) = set (guard_toks b)"
  moreover from this assms have "set (guard_toks b) \<noteq> {}" by auto
  ultimately show "similarity a b = 1" by (simp add: similarity_def Let_def)
qed

section \<open>What the guard lets through\<close>

lemma guard_untouched: "\<not> is_self_repeat reply prev th \<Longrightarrow> guard reply prev rr th = (reply, Fine)"
  by (simp add: guard_def)

lemma guard_parrots:
  assumes "is_self_repeat (fst (guard reply prev rr th)) prev th"
  shows "fst (guard reply prev rr th) = reply \<and> (rr = None \<or> (\<exists>f. rr = Some f \<and> f () = None))
    \<or> fst (guard reply prev rr th) = FALLBACK \<and> is_self_repeat FALLBACK prev th"
  using assms by (auto simp: guard_def Let_def split: option.splits if_split_asm)

lemma guard_empty: "reply \<noteq> [] \<Longrightarrow> fst (guard reply prev rr th) \<noteq> []"
  by (auto simp: guard_def Let_def FALLBACK_def split: option.split)

end
