(* ===== verification/OkfStore.thy ===== *)
theory OkfStore imports OkfLaws begin

text \<open>
  The promises of the content-addressed memory over whole runs: a store built by additions conforms,
  a stored body is recognised for good, the trust axis has no way back, and what breaks an entry.
\<close>

section \<open>Runs of add\<close>

definition okf_run :: "(string \<Rightarrow> string) \<Rightarrow> (string \<times> add_args) list \<Rightarrow> okf \<Rightarrow> okf" where
  "okf_run digest ops s = fold (\<lambda>(now, a) s. snd (cmd_add digest now a s)) ops s"

lemma okf_run_simps [simp]:
  "okf_run digest [] s = s"
  "okf_run digest ((now, a) # ops) s = okf_run digest ops (snd (cmd_add digest now a s))"
  "okf_run digest (ops @ ops2) s = okf_run digest ops2 (okf_run digest ops s)"
  by (simp_all add: okf_run_def)

lemma cmd_add_listed: "listed (o_full s) \<subseteq> listed (o_full (snd (cmd_add digest now a s)))"
proof -
  have "o_full (ensure_root now s) = o_full s" by (simp add: ensure_root_def split: option.split)
  then show ?thesis by (auto simp: cmd_add_def Let_def put_file_listed split: option.splits)
qed

lemma run_listed: "listed (o_full s) \<subseteq> listed (o_full (okf_run digest ops s))"
proof (induction ops arbitrary: s)
  case (Cons x ops)
  obtain now a where "x = (now, a)" by fastforce
  then show ?case using Cons.IH [of "snd (cmd_add digest now a s)"] cmd_add_listed [of s digest now a] by auto
qed simp

lemma run_ok:
  assumes "\<forall>b. hexadecimal (digest b)" and "\<forall>(now, a) \<in> set ops. cell_text now \<and> add_ok a" and "okf_ok digest s"
  shows "okf_ok digest (okf_run digest ops s)
    \<and> (\<forall>(now, a) \<in> set ops. \<exists>body. body_of a = Some body \<and> addr_for digest a body \<in> listed (o_full (okf_run digest ops s)))"
  using assms(2,3)
proof (induction ops arbitrary: s)
  case (Cons x ops)
  obtain now a where x: "x = (now, a)" by fastforce
  obtain e s1 where e: "cmd_add digest now a s = (e, s1)" by fastforce
  have pre: "add_ok a" "cell_text now" using Cons.prems(1) x by auto
  note k = add_keeps_ok [OF Cons.prems(2) pre assms(1) e]
  from k(3) obtain body t where b: "body_of a = Some body" "map_of (o_full s1) (addr_for digest a body) = Some t" by blast
  then have "addr_for digest a body \<in> listed (o_full s1)" by (force simp: listed_def dest: map_of_SomeD)
  then have "addr_for digest a body \<in> listed (o_full (okf_run digest ops s1))" using run_listed by blast
  moreover have "\<forall>(now, a) \<in> set ops. cell_text now \<and> add_ok a" using Cons.prems(1) by simp
  note Cons.IH [OF this k(2)]
  ultimately show ?case using b(1) by (auto simp: x e)
qed simp

lemma empty_ok: "okf_ok digest empty_store"
  by (simp add: okf_ok_def empty_store_def)

lemma ok_rows:
  assumes "okf_ok digest s" and "s \<noteq> empty_store"
  shows "distinct (map hd (lut_rows (lut_of s))) \<and> hd ` set (lut_rows (lut_of s)) = listed (o_full s)
    \<and> listed (o_sum s) = listed (o_full s)"
proof (cases "o_lut s")
  case None
  then have "s = empty_store" using assms(1) by (simp add: okf_ok_def empty_store_def)
  with assms(2) show ?thesis by simp
next
  case (Some t)
  then obtain h rows where r: "t = lut_text h rows" "head_ok h" "CHR 0x0D \<notin> set h" "\<forall>r \<in> set rows. lut_row_ok r"
      "distinct (map hd rows)" "hd ` set rows = listed (o_full s)" "listed (o_sum s) = listed (o_full s)"
    using assms(1) by (auto simp: okf_ok_def)
  have "lut_rows (lut_of s) = rows"
    using lut_rows_text [OF r(2,4)] lut_text_no_cr [OF r(3,4)] by (simp add: lut_of_def Some r(1) as_read_id)
  then show ?thesis using r by simp
qed

text \<open>
  C38. A store built by \<open>add\<close> conforms: after any run of well-formed additions to an empty store,
  \<open>verify\<close> finds no error, the LUT has each address once, the addresses of LUT, \<open>sum/\<close> and \<open>full/\<close> are
  the same, every address ever added is among them, and the body added last reads back as it was
  given, up to line ends and outer blanks.
\<close>

theorem okf_store_conforms:
  assumes "\<forall>b. hexadecimal (digest b)" and "\<forall>(now, a) \<in> set (ops @ [(now, a)]). cell_text now \<and> add_ok a"
  defines "s \<equiv> okf_run digest (ops @ [(now, a)]) empty_store"
  shows "cmd_verify digest s = Some []
    \<and> distinct (map hd (lut_rows (lut_of s))) \<and> hd ` set (lut_rows (lut_of s)) = listed (o_full s)
    \<and> listed (o_sum s) = listed (o_full s)
    \<and> (\<forall>(now, a) \<in> set (ops @ [(now, a)]). \<exists>body. body_of a = Some body \<and> addr_for digest a body \<in> listed (o_full s))
    \<and> (\<exists>body t. body_of a = Some body \<and> map_of (o_full s) (addr_for digest a body) = Some t
         \<and> norm_body (snd (parse_fm (as_read t))) = norm_body body)"
proof -
  have r: "okf_ok digest s" "\<forall>(now, a) \<in> set (ops @ [(now, a)]). \<exists>body. body_of a = Some body
      \<and> addr_for digest a body \<in> listed (o_full s)"
    using run_ok [OF assms(1,2) empty_ok] unfolding s_def by blast+
  define s0 where "s0 = okf_run digest ops empty_store"
  have ok0: "okf_ok digest s0" unfolding s0_def by (rule run_ok [THEN conjunct1, OF assms(1) _ empty_ok]) (use assms(2) in simp)
  obtain e where e: "cmd_add digest now a s0 = (e, s)" by (simp add: s_def s0_def) (metis prod.collapse)
  have pre: "add_ok a" "cell_text now" using assms(2) by auto
  from add_keeps_ok(3) [OF ok0 pre assms(1) e]
  have readback: "\<exists>body t. body_of a = Some body \<and> map_of (o_full s) (addr_for digest a body) = Some t
         \<and> norm_body (snd (parse_fm (as_read t))) = norm_body body" by blast
  then have ne: "s \<noteq> empty_store" by (auto simp: empty_store_def)
  have "o_lut s \<noteq> None"
  proof
    assume "o_lut s = None"
    then have "s = empty_store" using r(1) by (simp add: okf_ok_def empty_store_def)
    with ne show False by simp
  qed
  then obtain lt where lt: "o_lut s = Some lt" by blast
  from ne ok_rows [OF r(1)] okf_ok_verifies [OF r(1) lt] r(2) readback show ?thesis by (intro conjI) blast+
qed

definition demo_add :: add_args where
  "demo_add = \<lparr>aa_source = FullFile (''two'' @ nl @ ''lines''), aa_addr = [], aa_kind = ''agent'', aa_keys = ''a,b'',
     aa_summary = ''x | y'', aa_title = [], aa_detail = [], aa_detail_file = None, aa_status = ''ACTIVE'',
     aa_gate = ''none'', aa_commit = [], aa_repro = [],
     aa_policy = Some \<lparr>pl_class = ''private-secret'', pl_delivery = [], pl_authority = [], pl_retrieval = [],
       pl_decline = [], pl_message = [], pl_confidence = None\<rparr>,
     aa_verified = [], aa_lifecycle = [], aa_links = []\<rparr>"

definition demo_digest :: "string \<Rightarrow> string" where
  "demo_digest b = replicate 64 (CHR ''0'')"

lemma demo_add_ok: "add_ok demo_add" "\<forall>b. hexadecimal (demo_digest b)" "cell_text ''t''" "cell_text ''u''"
proof -
  show "\<forall>b. hexadecimal (demo_digest b)" by (simp add: demo_digest_def hexadecimal_def is_digit_def code_def)
  have p: "strip ''t'' = ''t'' \<and> strip ''u'' = ''u'' \<and> strip ''a,b'' \<noteq> [] \<and> strip ''x | y'' \<noteq> []
      \<and> strip ''ACTIVE'' = ''ACTIVE'' \<and> decline_words [] = []" by code_simp
  then show "cell_text ''t''" "cell_text ''u''" by (simp_all add: cell_text_def)
  show "add_ok demo_add"
    using p by (simp add: add_ok_def demo_add_def policy_ok_def cell_text_def CLASSES_def REGISTRY_def)
qed

theorem okf_store_conforms_witness:
  "cmd_verify demo_digest (okf_run demo_digest [(''t'', demo_add), (''u'', demo_add)] empty_store) = Some []
   \<and> addr_for demo_digest demo_add (''two'' @ nl @ ''lines'')
       \<in> hd ` set (lut_rows (lut_of (okf_run demo_digest [(''t'', demo_add), (''u'', demo_add)] empty_store)))"
proof -
  have "as_read (''two'' @ nl @ ''lines'') = ''two'' @ nl @ ''lines''" by code_simp
  then have b: "body_of demo_add = Some (''two'' @ nl @ ''lines'')" by (simp add: body_of_def demo_add_def)
  show ?thesis
    using okf_store_conforms [OF demo_add_ok(2), of "[(''t'', demo_add)]" "''u''" demo_add] demo_add_ok b by simp
qed

section \<open>A rebuild is recognised\<close>

text \<open>
  C0. What was stored is never new again: after a body with content words was added under its own
  address, offering the same text to the anti-rebuild classifier gives RETRIEVAL, after any further
  additions of whatever arguments and under whatever declared type.
\<close>

theorem stored_is_retrieval:
  assumes "cmd_add digest now a s = (Exit 0, s')" and "aa_addr a = []" and "body_of a = Some body"
    and "okf_toks (snd (parse_fm body)) \<noteq> {}"
  shows "classify_body digest topk declared body (okf_run digest ops s') = Retrieval"
proof -
  have "addr_of digest body \<in> listed (o_full s')"
    using assms(1-3) by (auto simp: cmd_add_def Let_def either_def put_file_listed split: option.splits if_splits)
  then have "addr_of digest body \<in> listed (o_full (okf_run digest ops s'))" using run_listed by blast
  then have "addr_of digest body \<in> fst ` set (entry_tokens (okf_run digest ops s'))"
    by (force simp: listed_def entry_tokens_def image_iff)
  moreover obtain fm b where "parse_fm body = (fm, b)" by fastforce
  ultimately show ?thesis using assms(4) by (simp add: classify_body_def Let_def)
qed

theorem stored_is_retrieval_witness:
  "classify_body demo_digest 3 (Some ''rumour'') (''two'' @ nl @ ''lines'')
     (okf_run demo_digest [(''u'', demo_add)] (snd (cmd_add demo_digest ''t'' demo_add empty_store))) = Retrieval"
proof -
  have "fst (cmd_add demo_digest ''t'' demo_add empty_store) = Exit 0"
    by (simp add: cmd_add_def demo_add_def body_of_def Let_def)
  then have e: "cmd_add demo_digest ''t'' demo_add empty_store = (Exit 0, snd (cmd_add demo_digest ''t'' demo_add empty_store))"
    by (metis prod.collapse)
  have "as_read (''two'' @ nl @ ''lines'') = ''two'' @ nl @ ''lines''" by code_simp
  then have b: "body_of demo_add = Some (''two'' @ nl @ ''lines'')" by (simp add: body_of_def demo_add_def)
  have "sorted_list_of_set (okf_toks (snd (parse_fm (''two'' @ nl @ ''lines'')))) \<noteq> []" by code_simp
  then have "okf_toks (snd (parse_fm (''two'' @ nl @ ''lines''))) \<noteq> {}" by auto
  then show ?thesis by (intro stored_is_retrieval [OF e _ b]) (simp_all add: demo_add_def)
qed

section \<open>The trust axis\<close>

lemma legal_from: "legal_transition x y \<Longrightarrow> x \<in> {''contradicted'', ''rolled_back''} \<Longrightarrow> y \<in> {''contradicted'', ''rolled_back''}"
  by (auto simp: legal_transition_def LEGAL_VERIFIED_def)

lemma trust_is_lost_for_good:
  "legal_transition\<^sup>*\<^sup>* x y \<Longrightarrow> x \<in> {''contradicted'', ''rolled_back''} \<Longrightarrow> y \<in> {''contradicted'', ''rolled_back''}"
  by (induction rule: rtranclp_induct) (use legal_from in blast)+

section \<open>The class vocabulary\<close>

text \<open>
  The class the registry stamps on a fact is always one its writer may emit, the store knows it and
  has a default delivery for it, and only the secret class is delivered under the strict gate.
\<close>

theorem vocabulary_closed:
  "classify t \<in> set (produced_by ''lifecycle.classify'') \<and> classify t \<in> set CLASSES
    \<and> delivery_for (classify t) \<in> set DELIVERIES
    \<and> (delivery_for (classify t) = ''attr-gate-strict'' \<longleftrightarrow> classify t = ''private-secret'')"
proof -
  have k: "list_all (\<lambda>c. c \<in> set (produced_by ''lifecycle.classify'') \<and> c \<in> set CLASSES
      \<and> delivery_for c \<in> set DELIVERIES \<and> (delivery_for c = ''attr-gate-strict'' \<longleftrightarrow> c = ''private-secret''))
     [''private-secret'', ''relationship'', ''identity'', ''event'', ''preference'', ''fact'']" by code_simp
  have "classify t \<in> set [''private-secret'', ''relationship'', ''identity'', ''event'', ''preference'', ''fact'']"
    by (simp add: classify_def)
  with k show ?thesis unfolding list_all_iff by (rule bspec)
qed

section \<open>What breaks an entry\<close>

text \<open>A summary of two lines makes a row of two lines, and neither half is read as a row.\<close>

lemma two_line_summary_unlisted:
  "lut_rows (write_lut LUT_HEADER [[''0'', ''agent'', ''a'', no_bars (''x'' @ nl @ ''y''), ''ACTIVE'', ''sum/0.md'']]) = []"
  by code_simp

text \<open>Arguments made by hand without the policy fields: the command raises and writes no entry.\<close>

lemma no_policy_no_entry:
  "aa_policy a = None \<Longrightarrow> body_of a = Some body \<Longrightarrow> cmd_add digest now a s = (AttributeError, ensure_root now s)"
  by (simp add: cmd_add_def Let_def)

end
