(* ===== verification/ConvMemory.thy ===== *)
theory ConvMemory imports OkfStore Store begin

text \<open>
  The tiered conversation memory of \<open>harness/skills/conversation_memory.py\<close>: the transcript, the facts
  drawn from it into the registry, and the conversation kept whole and summarised in the
  content-addressed memory. The served model is the parameter \<open>ask\<close> (\<open>None\<close> when the call raises),
  the environment of each write is an argument. \<open>Crash\<close> is the exception that leaves a function.
\<close>

section \<open>Transcript and keys\<close>

definition said_line :: "string \<times> string \<Rightarrow> string" where
  "said_line m = (if fst m = ''user'' then ''User'' else ''AI'') @ '': '' @ snd m"

definition transcript :: "(string \<times> string) list \<Rightarrow> string" where
  "transcript ms = strip (join nl (map said_line (filter (\<lambda>m. fst m \<noteq> ''system'') ms)))"

fun new_keys :: "nat \<Rightarrow> string list \<Rightarrow> string list \<Rightarrow> string list" where
  "new_keys n seen [] = []"
| "new_keys n seen (w # ws) =
     (if 4 \<le> length w \<and> w \<notin> set seen
      then w # (if n \<le> 1 then [] else new_keys (n - 1) (w # seen) ws)
      else new_keys n seen ws)"

definition keys_from :: "string \<Rightarrow> string \<Rightarrow> string" where
  "keys_from t fallback =
     (let ks = join '','' (new_keys 8 [] (map (filter is_alnum) (py_split (lower t))))
      in if ks \<noteq> [] then ks else fallback)"

section \<open>The long tier\<close>

type_synonym asker = "string \<Rightarrow> nat \<Rightarrow> string option"

datatype 'a outcome = Crash | Value 'a

definition chat_text :: "asker \<Rightarrow> string \<Rightarrow> nat \<Rightarrow> string outcome" where
  "chat_text ask prompt n = (case ask prompt n of None \<Rightarrow> Crash | Some t \<Rightarrow> Value (strip t))"

definition SUMMARY_PROMPT :: "string \<Rightarrow> string" where
  "SUMMARY_PROMPT t =
     ''Summarize this conversation in 2-3 sentences. Capture the key FACTS the user stated and the topics discussed. Be factual and concise; do not invent.''
     @ nl @ nl @ t @ nl @ nl @ ''Summary:''"

definition summarize_conversation :: "asker \<Rightarrow> (string \<times> string) list \<Rightarrow> string outcome" where
  "summarize_conversation ask ms =
     (let t = transcript ms in if t = [] then Value [] else chat_text ask (SUMMARY_PROMPT t) 140)"

text \<open>The namespace made by hand for \<open>cmd_add\<close>: it has no policy fields.\<close>

definition hand_args :: "string \<Rightarrow> string \<Rightarrow> string \<Rightarrow> string \<Rightarrow> string \<Rightarrow> add_args" where
  "hand_args addr keys summary full_body detail =
     \<lparr>aa_source = FullFile full_body, aa_addr = addr, aa_kind = ''agent'', aa_keys = keys,
      aa_summary = take 200 summary, aa_title = [], aa_detail = detail, aa_detail_file = None,
      aa_status = ''ACTIVE'', aa_gate = ''none'', aa_commit = [], aa_repro = [], aa_policy = None,
      aa_verified = [], aa_lifecycle = [], aa_links = []\<rparr>"

definition okf_add ::
  "(string \<Rightarrow> string) \<Rightarrow> string \<Rightarrow> string \<Rightarrow> string \<Rightarrow> string \<Rightarrow> string \<Rightarrow> string \<Rightarrow> okf \<Rightarrow> string outcome \<times> okf" where
  "okf_add digest now addr keys summary full_body detail s =
     (case cmd_add digest now (hand_args addr keys summary full_body detail) s of
        (AttributeError, s') \<Rightarrow> (Crash, s') | (Exit n, s') \<Rightarrow> (Value addr, s'))"

definition store_conversation ::
  "(string \<Rightarrow> string) \<Rightarrow> string \<Rightarrow> asker \<Rightarrow> (string \<times> string) list \<Rightarrow> string option \<Rightarrow> okf
     \<Rightarrow> string option outcome \<times> okf" where
  "store_conversation digest now ask ms given s =
     (let t = transcript ms in
      if t = [] then (Value None, s)
      else (case (case given of
                    Some g \<Rightarrow> Value g
                  | None \<Rightarrow> (case summarize_conversation ask ms of
                              Crash \<Rightarrow> Crash | Value x \<Rightarrow> Value (if x \<noteq> [] then x else take 160 t))) of
              Crash \<Rightarrow> (Crash, s)
            | Value summary \<Rightarrow>
                (case okf_add digest now (addr_of digest t) (keys_from summary ''conversation'') summary t summary s of
                   (Crash, s') \<Rightarrow> (Crash, s') | (Value a, s') \<Rightarrow> (Value (Some a), s'))))"

definition recall_conversations :: "string \<Rightarrow> okf \<Rightarrow> string list" where
  "recall_conversations query s =
     (case o_lut s of
        None \<Rightarrow> []
      | Some _ \<Rightarrow> map (\<lambda>r. ''['' @ hd r @ ''] '' @ r ! 3) (lut_hits query (lut_of s)))"

definition read_conversation :: "string \<Rightarrow> okf \<Rightarrow> string option" where
  "read_conversation addr s =
     (case map_of (o_full s) addr of None \<Rightarrow> None | Some t \<Rightarrow> Some (strip (snd (parse_fm (as_read t)))))"

section \<open>The middle tier\<close>

definition FACTS_PROMPT :: "string \<Rightarrow> string" where
  "FACTS_PROMPT t =
     ''Conversation:'' @ nl @ t @ nl @ nl
     @ ''Write the facts the user stated about themselves above, each as one short sentence on its own line. Output only the facts, nothing else.''
     @ nl @ nl @ ''Facts the user stated:''"

definition ECHO_WORDS :: "string list" where
  "ECHO_WORDS = [''conversation'', ''extract'', ''instruction'', ''do not'', ''durable'', ''one per line'', ''own line'',
     ''the facts the user'', ''output only'']"

definition fact_line :: "string \<Rightarrow> string" where
  "fact_line l = strip (dropWhile (\<lambda>c. c \<in> set ''-*0123456789.) '') (strip l))"

definition fact_line_ok :: "string \<Rightarrow> bool" where
  "fact_line_ok f \<longleftrightarrow>
     6 \<le> length f \<and> length f \<le> 160 \<and> \<not> contains (take 6 (lower f)) ''none''
     \<and> \<not> list_ex (contains (lower f)) ECHO_WORDS"

definition conversation_facts :: "asker \<Rightarrow> (string \<times> string) list \<Rightarrow> string list outcome" where
  "conversation_facts ask ms =
     (let t = transcript ms in
      if t = [] then Value []
      else case chat_text ask (FACTS_PROMPT t) 160 of
             Crash \<Rightarrow> Crash
           | Value r \<Rightarrow> Value (filter fact_line_ok (map fact_line (splitlines r))))"

text \<open>Several writes in a row; the environment of the \<open>i\<close>-th is \<open>evs i\<close>.\<close>

fun remember_each :: "(nat \<Rightarrow> env) \<Rightarrow> nat \<Rightarrow> string \<Rightarrow> string list \<Rightarrow> mem \<Rightarrow> mem" where
  "remember_each evs i src [] m = m"
| "remember_each evs i src (f # fs) m = remember_each evs (Suc i) src fs (snd (remember (evs i) f src m))"

text \<open>
  Extraction comes first, then the facts are written, then the conversation is stored: what fails late
  leaves what came before it.
\<close>

definition consolidate_conversation ::
  "(string \<Rightarrow> string) \<Rightarrow> string \<Rightarrow> asker \<Rightarrow> (nat \<Rightarrow> env) \<Rightarrow> (string \<times> string) list \<Rightarrow> mem \<times> okf
     \<Rightarrow> (string list \<times> string option) outcome \<times> mem \<times> okf" where
  "consolidate_conversation digest now ask evs ms w =
     (case conversation_facts ask ms of
        Crash \<Rightarrow> (Crash, w)
      | Value fs \<Rightarrow>
          (let m = remember_each evs 0 ''consolidator'' fs (fst w) in
           case store_conversation digest now ask ms None (snd w) of
             (Crash, s) \<Rightarrow> (Crash, m, s) | (Value a, s) \<Rightarrow> (Value (fs, a), m, s)))"

section \<open>Capabilities\<close>

definition caps_body :: "string \<Rightarrow> string \<Rightarrow> string" where
  "caps_body summary detail = ''# '' @ summary @ nl @ nl @ detail @ nl"

fun seed_capabilities ::
  "(string \<Rightarrow> string) \<Rightarrow> string \<Rightarrow> (string \<times> string \<times> string) list \<Rightarrow> okf \<Rightarrow> string list outcome \<times> okf" where
  "seed_capabilities digest now [] s = (Value [], s)"
| "seed_capabilities digest now ((k, sm, d) # cs) s =
     (let body = caps_body sm d in
      case okf_add digest now (addr_of digest body) k sm body d s of
        (Crash, s') \<Rightarrow> (Crash, s')
      | (Value a, s') \<Rightarrow> (case seed_capabilities digest now cs s' of
                           (Crash, s2) \<Rightarrow> (Crash, s2) | (Value as, s2) \<Rightarrow> (Value (a # as), s2)))"

definition recall_capability :: "string \<Rightarrow> okf \<Rightarrow> string list" where
  "recall_capability query s =
     (case o_lut s of None \<Rightarrow> [] | Some _ \<Rightarrow> map (\<lambda>r. ''- '' @ r ! 3) (lut_hits query (lut_of s)))"

text \<open>The corpus; the dashes of the source are written \<open>--\<close>.\<close>

definition CAPABILITIES :: "(string \<times> string \<times> string) list" where
  "CAPABILITIES =
     [(''identity'', ''What you are'',
       ''You are Shannon-Prime, an experimental AI running locally on a single RTX 2060 with a real, auditable working memory.''),
      (''memory-remember'', ''Store a fact'',
       ''State a fact and it is captured to long-term memory automatically; or call the remember tool. Facts survive across turns and restarts.''),
      (''memory-recall'', ''Recall facts'',
       ''Relevant stored facts are recalled automatically; or call list_memories to see your whole memory.''),
      (''memory-forget'', ''Forget / update a memory'',
       ''Say '' @ [CHR 0x27] @ ''forget X'' @ [CHR 0x27] @ '' or call the forget tool. When you learn a fact that supersedes or contradicts an old one, the DECIDE pass updates or merges it for you.''),
      (''tools-python'', ''Run code'',
       ''To run code, emit <tool name='' @ dq @ ''run_python'' @ dq @ ''>{'' @ dq @ ''code'' @ dq @ '': '' @ dq @ ''print(2+2)'' @ dq @ ''}</tool> and use the result. Pass code as a JSON string.''),
      (''tools-calc'', ''Compute'',
       ''To compute an expression, emit <tool name='' @ dq @ ''calculate'' @ dq @ ''>{'' @ dq @ ''expression'' @ dq @ '': '' @ dq @ ''47*89'' @ dq @ ''}</tool>.''),
      (''conversation-recall'', ''Remember past conversations'',
       ''Past conversations are stored summarized and complete. Call recall_conversations(query) for the gist of relevant past chats, then read_conversation(addr) to dig into the full transcript.''),
      (''agency'', ''Maintain your own memory'',
       ''Between turns you review your memory and curate it: forgetting redundant facts and consolidating related ones, so your memory stays consistent.''),
      (''provenance'', ''Know where a memory came from'',
       ''Every fact you store carries its source and time. Call provenance(fact) to answer '' @ [CHR 0x27] @ ''where/when did I learn that?'' @ [CHR 0x27] @ '' -- the MEM-OKF v2 provenance lane.''),
      (''coding'', ''Edit and test code'',
       ''You can read, write, and precisely EDIT files (edit_file: exact find/replace), search the workspace, run shell commands, and run pytest (run_tests) -- a real coding loop, sandboxed to the workspace.''),
      (''tasks'', ''Work multi-step tasks on your own'',
       ''You can take a goal and work it across many steps (plan, act, observe, verify) under a step + time budget, saving progress so a task resumes after a restart. Operator-posted tasks you advance between chats.''),
      (''hygiene'', ''Keep your own memory tidy'',
       ''You can verify your fact registry (verify_registry) for duplicates/malformed rows and compact it (compact_registry) -- hygiene, not forgetting.'')]"

definition init_primer :: string where
  "init_primer =
     join nl (''You are Shannon-Prime. You can use yourself as follows:''
       # map (\<lambda>(k, sm, d). ''- '' @ sm @ '': '' @ d) CAPABILITIES)"

section \<open>What is kept and what is lost\<close>

lemma okf_add_crashes: "okf_add digest now addr ks sm t d s = (Crash, ensure_root now s)"
  by (simp add: okf_add_def no_policy_no_entry [of _ "as_read t"] hand_args_def body_of_def)

lemma store_conversation_cases:
  "store_conversation digest now ask ms given s =
     (if transcript ms = [] then (Value None, s)
      else if given = None \<and> ask (SUMMARY_PROMPT (transcript ms)) 140 = None then (Crash, s)
      else (Crash, ensure_root now s))"
  by (auto simp: store_conversation_def Let_def okf_add_crashes summarize_conversation_def chat_text_def split: option.splits)

text \<open>A store in which nothing was ever written: absent, or a head and no row.\<close>

definition bare :: "okf \<Rightarrow> bool" where
  "bare s \<longleftrightarrow> o_full s = [] \<and> o_sum s = [] \<and> lut_rows (lut_of s) = []"

lemma bare_empty: "bare empty_store"
proof -
  have "lut_rows (lut_of empty_store) = []" by code_simp
  then show ?thesis by (simp add: bare_def empty_store_def)
qed

lemma bare_root:
  assumes "bare s" and "cell_text now"
  shows "bare (ensure_root now s)"
proof (cases "o_lut s")
  case None
  have "lut_text (LUT_HEAD now) [] = LUT_HEAD now @ LUT_HEADER" by (simp add: lut_text_def)
  moreover have "CHR 0x0D \<notin> set (lut_text (LUT_HEAD now) [])"
    using lut_text_no_cr [of "LUT_HEAD now" "[]"] fresh_head [OF assms(2)] by simp
  ultimately have "lut_of (ensure_root now s) = lut_text (LUT_HEAD now) []"
    using None by (simp add: lut_of_def ensure_root_def as_read_id)
  then have "lut_rows (lut_of (ensure_root now s)) = []"
    using lut_rows_text [of "LUT_HEAD now" "[]"] fresh_head [OF assms(2)] by simp
  then show ?thesis using assms(1) None by (simp add: bare_def ensure_root_def)
qed (use assms in \<open>simp add: ensure_root_def\<close>)

definition conv_run ::
  "(string \<Rightarrow> string) \<Rightarrow> (string \<times> asker \<times> (string \<times> string) list \<times> string option) list \<Rightarrow> okf \<Rightarrow> okf" where
  "conv_run digest cs s = fold (\<lambda>(now, ask, ms, given) s. snd (store_conversation digest now ask ms given s)) cs s"

lemma bare_run: "bare s \<Longrightarrow> \<forall>(now, ask, ms, given) \<in> set cs. cell_text now \<Longrightarrow> bare (conv_run digest cs s)"
  by (induction cs arbitrary: s) (auto simp: conv_run_def store_conversation_cases bare_root)

text \<open>
  C40. No conversation is ever kept: \<open>_okf_add\<close> calls the store with a namespace that lacks the policy
  fields, so storing a conversation that has a text raises. After any series of such calls on a fresh
  store nothing is recalled under any query and nothing is read at any address; seeding the
  capabilities raises as well.
\<close>

theorem conversation_never_stored:
  assumes "\<forall>(now, ask, ms, given) \<in> set cs. cell_text now"
  shows "recall_conversations q (conv_run digest cs empty_store) = []
    \<and> read_conversation addr (conv_run digest cs empty_store) = None
    \<and> fst (store_conversation digest now ask ms given s) = (if transcript ms = [] then Value None else Crash)
    \<and> fst (seed_capabilities digest now CAPABILITIES s) = Crash"
proof -
  have b: "bare (conv_run digest cs empty_store)" using bare_empty assms by (rule bare_run)
  then have "recall_conversations q (conv_run digest cs empty_store) = []"
    by (simp add: recall_conversations_def bare_def lut_hits_def split: option.split)
  moreover have "fst (seed_capabilities digest now CAPABILITIES s) = Crash"
    by (simp add: CAPABILITIES_def okf_add_crashes Let_def)
  ultimately show ?thesis using b by (simp add: read_conversation_def bare_def store_conversation_cases)
qed

definition demo_chatlog :: "(string \<times> string) list" where
  "demo_chatlog = [(''system'', ''be kind''), (''user'', ''my cat is Milo''), (''assistant'', ''noted'')]"

theorem conversation_never_stored_witness:
  "recall_conversations ''milo'' (conv_run demo_digest [(''t'', \<lambda>p n. Some ''gist'', demo_chatlog, None)] empty_store) = []
   \<and> fst (store_conversation demo_digest ''t'' (\<lambda>p n. Some ''gist'') demo_chatlog None empty_store) = Crash"
proof -
  have "transcript demo_chatlog \<noteq> []" by code_simp
  then show ?thesis
    using conversation_never_stored [of "[(''t'', \<lambda>p n. Some ''gist'', demo_chatlog, None)]"] demo_add_ok(3) by auto
qed

section \<open>The registry side of a consolidation\<close>

lemma remember_each_keeps:
  "\<exists>more. map row_ident (load_rows (remember_each evs i src fs m)) = map row_ident (load_rows m) @ more"
proof (induction evs i src fs m rule: remember_each.induct)
  case (2 evs i src f fs m)
  from remember_keeps [of "evs i" f src m] 2 show ?case by force
qed simp

text \<open>
  A consolidation fails late and keeps what came before: when the transcript has a text and its facts
  could be drawn, the call raises, and yet every fact was put through the door of the registry, whose
  old rows are where they were with name, text, topic, speaker and status; the files of the
  content-addressed memory are as before. The next consolidation starts over with the same facts.
\<close>

theorem consolidation_keeps_facts_only:
  assumes "conversation_facts ask ms = Value fs" and "transcript ms \<noteq> []"
    and "consolidate_conversation digest now ask evs ms (m, s) = (r, m2, s2)"
  shows "r = Crash \<and> m2 = remember_each evs 0 ''consolidator'' fs m
    \<and> (\<exists>more. map row_ident (load_rows m2) = map row_ident (load_rows m) @ more)
    \<and> o_full s2 = o_full s \<and> o_sum s2 = o_sum s"
proof -
  have e: "r = Crash" "m2 = remember_each evs 0 ''consolidator'' fs m" "s2 = s \<or> s2 = ensure_root now s"
    using assms by (auto simp: consolidate_conversation_def Let_def store_conversation_cases split: if_splits)
  from e(3) have "o_full s2 = o_full s \<and> o_sum s2 = o_sum s"
    by (auto simp: ensure_root_def split: option.splits)
  then show ?thesis using e(1,2) remember_each_keeps by simp
qed

definition demo_ask :: asker where
  "demo_ask p n = Some (if n = 160 then ''- My cat is called Milo'' else ''They spoke of a cat.'')"

definition conv_mem :: mem where
  "conv_mem = \<lparr>m_path = ''reg.jsonl'', m_file = Some [Row (blank_row\<lparr>r_text := ''I live in Oslo''\<rparr>)], m_author = ''user'',
     m_question = [], m_queue = []\<rparr>"

definition demo_ev :: env where
  "demo_ev = \<lparr>e_now = 0, e_self = [''shannon''], e_async = True, e_capture = (\<lambda>f d. (0, False))\<rparr>"

theorem consolidation_keeps_facts_only_witness:
  "let (r, m2, s2) = consolidate_conversation demo_digest ''t'' demo_ask (\<lambda>i. demo_ev) demo_chatlog (conv_mem, empty_store)
   in r = Crash \<and> m2 = snd (remember demo_ev ''My cat is called Milo'' ''consolidator'' conv_mem)
      \<and> r_text (load_rows m2 ! 0) = ''I live in Oslo'' \<and> o_full s2 = []"
proof -
  obtain r m2 s2 where c: "consolidate_conversation demo_digest ''t'' demo_ask (\<lambda>i. demo_ev) demo_chatlog
      (conv_mem, empty_store) = (r, m2, s2)" using prod_cases3 by blast
  have f: "conversation_facts demo_ask demo_chatlog = Value [''My cat is called Milo'']"
    and t: "transcript demo_chatlog \<noteq> []" by code_simp+
  note k = consolidation_keeps_facts_only [OF f t c]
  have "load_rows conv_mem = [blank_row\<lparr>r_text := ''I live in Oslo''\<rparr>]" by (simp add: load_rows_def conv_mem_def)
  with k have "r_text (load_rows m2 ! 0) = ''I live in Oslo''" by (auto simp: row_ident_def nth_Cons)
  moreover have "o_full empty_store = []" by (simp add: empty_store_def)
  ultimately show ?thesis using k by (simp add: c)
qed

end
