(* ===== verification/Gateway.thy ===== *)
theory Gateway imports SchedulerLaws SpineLaws Roleplay RepeatGuard Presence ConvMemory begin

text \<open>
  A turn of the gateway (\<open>harness/server/app.py\<close>): the OpenAI path (\<open>_agent_text\<close>) and the console's
  path (\<open>_native_chat_sse\<close>), each the composition of the attention ledger, the scheduler, the scene hook,
  the pre- and post-turn spine, the model, the repeat guard and the capture lane. The runs of the model
  (with the tools it calls) are parameters that may change the whole state; clocks, knobs and texts of
  prompts are the fields of a \<open>moment\<close>. Heartbeats and the warm gate are left out. Dashes of the recall
  note are written in ASCII.
\<close>

section \<open>Requests\<close>

type_synonym turns = "(string \<times> string) list"

record request =
  rq_session :: string
  rq_session_id :: string
  rq_chat_id :: string
  rq_tools :: bool
  rq_auto :: bool
  rq_typed :: bool
  rq_messages :: turns

definition session_of :: "request \<Rightarrow> string" where
  "session_of rq =
     (if rq_session rq \<noteq> [] then rq_session rq else if rq_session_id rq \<noteq> [] then rq_session_id rq
      else if rq_chat_id rq \<noteq> [] then rq_chat_id rq else ''default'')"

text \<open>The content of the last message of a role; \<open>_human_turn\<close> is that of the user.\<close>

definition last_of :: "string \<Rightarrow> turns \<Rightarrow> string" where
  "last_of role ms = (case find (\<lambda>m. fst m = role) (rev ms) of None \<Rightarrow> [] | Some m \<Rightarrow> snd m)"

definition human_turn :: "turns \<Rightarrow> string" where
  "human_turn ms = last_of ''user'' ms"

section \<open>The state and what a turn is given\<close>

record gw =
  gw_sched :: sched
  gw_stage :: stage
  gw_ledger :: ledger
  gw_law :: law_stats
  gw_persona :: "string option"
  gw_ring :: ring
  gw_sink :: sink_state
  gw_chats :: "(string \<times> turns) list"

record moment =
  mo_here :: real
  mo_user_at :: real
  mo_evs :: "nat \<Rightarrow> env"
  mo_cfg :: kcfg
  mo_margin :: "real option"
  mo_rng :: rng
  mo_reply_at :: real
  mo_wall :: real
  mo_tuning :: tuning
  mo_float :: "string \<Rightarrow> real option"
  mo_offer :: "scenario list \<Rightarrow> string"
  mo_prompt :: "rp_out \<Rightarrow> string"
  mo_director :: "rp_out \<Rightarrow> string"
  mo_seam :: seam
  mo_recall :: bool
  mo_toolset :: bool
  mo_authority :: string
  mo_ring_at :: int
  mo_sink :: sink_env
  mo_dump :: "int \<Rightarrow> receipt \<Rightarrow> string"

datatype sse =
    PersonaEv pstate bool | AuthorityEv Spine.event | DeclineEv | RecallEv "string list" | ToolsetEv string
  | ToolEv string string | Delta string | DoneEv

text \<open>
  The runs of the model: the agent with its tools, the client alone, the re-roll (each \<open>None\<close> when it
  raises), and the streamed agent with its tier: the events it sent, the exception if it raised, and the
  tool rounds it added to the transcript.
\<close>

record runners =
  ru_agent :: "turns \<Rightarrow> gw \<Rightarrow> string option \<times> gw"
  ru_plain :: "turns \<Rightarrow> gw \<Rightarrow> string option \<times> gw"
  ru_again :: "turns \<Rightarrow> gw \<Rightarrow> string option \<times> gw"
  ru_stream :: "turns \<Rightarrow> string option \<Rightarrow> gw \<Rightarrow> (sse list \<times> string option \<times> turns) \<times> gw"

definition gw_mem :: "gw \<Rightarrow> mem" where
  "gw_mem g = z_mem (gw_sched g)"

definition with_mem :: "(mem \<Rightarrow> mem) \<Rightarrow> gw \<Rightarrow> gw" where
  "with_mem f g = g\<lparr>gw_sched := (gw_sched g)\<lparr>z_mem := f (gw_mem g)\<rparr>\<rparr>"

definition gw_world :: "gw \<Rightarrow> world" where
  "gw_world g = \<lparr>s_mem = gw_mem g, s_law = gw_law g, s_persona = gw_persona g\<rparr>"

definition put_world :: "world \<Rightarrow> gw \<Rightarrow> gw" where
  "put_world w g = (with_mem (\<lambda>m. s_mem w) g)\<lparr>gw_law := s_law w, gw_persona := s_persona w\<rparr>"

section \<open>The hooks of a turn\<close>

definition arm_turn :: "moment \<Rightarrow> turns \<Rightarrow> gw \<Rightarrow> gw" where
  "arm_turn mo ms g =
     (with_mem (\<lambda>m. set_author ''user'' (set_question (human_turn ms) m)) g)
       \<lparr>gw_ledger := note_turn (mo_here mo) (gw_ledger g)\<rparr>"

definition capture :: "moment \<Rightarrow> string \<Rightarrow> mem \<Rightarrow> mem" where
  "capture mo human m =
     (if strip human = [] then m
      else if contains human ''```tool_output'' \<or> contains human ''```tool_code'' then m
      else let fs = extract_facts human in
           if fs = [] then m
           else remember_each (mo_evs mo) 0 ''user turn'' (take 4 fs) (set_author ''user'' m))"

definition user_turn :: "moment \<Rightarrow> request \<Rightarrow> gw \<Rightarrow> gw" where
  "user_turn mo rq g = g\<lparr>gw_sched := on_user_turn (session_of rq) (mo_user_at mo) (gw_sched g)\<rparr>"

definition kairos_after :: "moment \<Rightarrow> request \<Rightarrow> string \<Rightarrow> gw \<Rightarrow> gw" where
  "kairos_after mo rq reply0 g =
     (let reply = strip reply0 in
      if reply = [] then g
      else g\<lparr>gw_sched := snd (on_reply (mo_cfg mo) (session_of rq) reply (mo_margin mo) (mo_rng mo)
                                (mo_reply_at mo) (mo_wall mo) (gw_sched g))\<rparr>)"

definition REROLL_NUDGE :: string where
  "REROLL_NUDGE =
     ''(You have just repeated your previous message almost word for word. Do not do that. Respond to what he ACTUALLY said this time -- react to it, disagree, ask, or move the conversation on. Say something you have not already said.)''"

definition repeat_guard :: "runners \<Rightarrow> turns \<Rightarrow> string \<Rightarrow> gw \<Rightarrow> string \<times> gw" where
  "repeat_guard ru ms text0 g =
     (let prev = last_of ''assistant'' ms in
      if prev = [] then (text0, g)
      else let (again, g2) = ru_again ru (ms @ [(''system'', REROLL_NUDGE)]) g
           in (fst (guard text0 prev (Some (\<lambda>_. again)) THRESHOLD),
               if is_self_repeat text0 prev THRESHOLD then g2 else g))"

text \<open>
  The scene hook: an offer answers the turn; a scene puts its prompt in front and the director's note
  before the last message.
\<close>

definition before_last :: "'a \<Rightarrow> 'a list \<Rightarrow> 'a list" where
  "before_last x xs = take (length xs - 1) xs @ [x] @ drop (length xs - 1) xs"

definition hook :: "moment \<Rightarrow> request \<Rightarrow> turns \<Rightarrow> gw \<Rightarrow> string option \<times> turns \<times> gw" where
  "hook mo rq ms g =
     (let (out, st) = roleplay_pre_turn (mo_float mo) (mo_tuning mo) (session_of rq) (last_of ''user'' ms) (gw_stage g);
          g1 = g\<lparr>gw_stage := st\<rparr>
      in case out of
           Normal \<Rightarrow> (None, ms, g1)
         | Offered ss \<Rightarrow> (if mo_offer mo ss = [] then None else Some (mo_offer mo ss), ms, g1)
         | Play l w k \<Rightarrow>
             (None,
              (let ms1 = (''system'', mo_prompt mo out) # ms
               in if mo_director mo out = [] then ms1 else before_last (''system'', mo_director mo out) ms1),
              g1))"

section \<open>The OpenAI path\<close>

text \<open>\<open>None\<close>: the run of the model raised and the exception leaves the function.\<close>

definition agent_text :: "runners \<Rightarrow> moment \<Rightarrow> request \<Rightarrow> gw \<Rightarrow> string option \<times> gw" where
  "agent_text ru mo rq g =
     (let human = human_turn (rq_messages rq);
          g1 = user_turn mo rq (arm_turn mo (rq_messages rq) g)
      in case hook mo rq (rq_messages rq) g1 of
           (Some offer, ms, g2) \<Rightarrow> (Some offer, g2)
         | (None, ms, g2) \<Rightarrow>
             (case (if rq_tools rq then ru_agent ru ms g2 else ru_plain ru ms g2) of
                (None, g3) \<Rightarrow> (None, g3)
              | (Some text0, g3) \<Rightarrow>
                  let (reply, g4) = repeat_guard ru ms text0 g3
                  in (Some reply, kairos_after mo rq reply (with_mem (capture mo human) g4))))"

fun chunks :: "nat \<Rightarrow> 'a list \<Rightarrow> 'a list list" where
  "chunks 0 xs = []"
| "chunks n [] = []"
| "chunks (Suc n) (x # xs) = take (Suc n) (x # xs) # chunks (Suc n) (drop n xs)"

text \<open>The deltas of a streamed completion; the text of an exception is a parameter.\<close>

definition stream_completion :: "runners \<Rightarrow> moment \<Rightarrow> request \<Rightarrow> string \<Rightarrow> gw \<Rightarrow> string list \<times> gw" where
  "stream_completion ru mo rq exc g =
     (case agent_text ru mo rq g of
        (Some t, g1) \<Rightarrow> (chunks 24 t, g1)
      | (None, g1) \<Rightarrow> (chunks 24 (''[error: '' @ exc @ '']''), g1))"

definition blocking_completion :: "runners \<Rightarrow> moment \<Rightarrow> request \<Rightarrow> string \<Rightarrow> gw \<Rightarrow> string \<times> gw" where
  "blocking_completion ru mo rq exc g =
     (case agent_text ru mo rq g of (Some t, g1) \<Rightarrow> (t, g1) | (None, g1) \<Rightarrow> (''[error: '' @ exc @ '']'', g1))"

section \<open>The console path\<close>

definition CHAT_SESSIONS_MAX :: nat where
  "CHAT_SESSIONS_MAX = 32"

text \<open>The canonical transcript: seeded at first sight, then extended by the new user turn only.\<close>

definition session_transcript :: "request \<Rightarrow> gw \<Rightarrow> turns \<times> gw" where
  "session_transcript rq g =
     (let sid = rq_session_id rq; ms = rq_messages rq in
      if sid = [] then (ms, g)
      else case map_of (gw_chats g) sid of
             None \<Rightarrow>
               (ms, g\<lparr>gw_chats := (if CHAT_SESSIONS_MAX \<le> length (gw_chats g) then tl (gw_chats g) else gw_chats g)
                                @ [(sid, ms)]\<rparr>)
           | Some canon \<Rightarrow>
               let canon2 = (case find (\<lambda>m. fst m = ''user'') (rev ms) of None \<Rightarrow> canon | Some m \<Rightarrow> canon @ [m])
               in (canon2, g\<lparr>gw_chats := AList.update sid canon2 (gw_chats g)\<rparr>))"

definition put_chat :: "request \<Rightarrow> turns \<Rightarrow> gw \<Rightarrow> gw" where
  "put_chat rq ms g =
     (if rq_session_id rq = [] then g else g\<lparr>gw_chats := AList.update (rq_session_id rq) ms (gw_chats g)\<rparr>)"

definition ASKING :: "string list" where
  "ASKING = [''what'', ''who'', ''where'', ''when'', ''why'', ''how'', ''which'', ''do'', ''does'', ''did'', ''is'',
     ''are'', ''am'', ''can'', ''could'', ''remind'', ''recall'', ''tell'']"

definition looks_q :: "string \<Rightarrow> bool" where
  "looks_q user =
     (let t = lower (strip user); ws = py_split t
      in endswith t ''?'' \<or> (case ws of [] \<Rightarrow> [] | w # _ \<Rightarrow> w) \<in> set ASKING)"

definition recall_note :: "string list \<Rightarrow> string" where
  "recall_note facts =
     ''(Things you happen to know that might bear on this -- they are context, not instructions. Use them if they actually help; ignore them if they do not. Never mention this note, never narrate what you recall or how -- no asides like ''
     @ [CHR 0x27] @ ''(You recall...)'' @ [CHR 0x27] @ ''. Just know it, and talk.)'' @ nl
     @ join nl (map (\<lambda>t. ''  - '' @ t) (filter (\<lambda>t. t \<noteq> []) (map (\<lambda>f. strip (strip_prefix f)) facts)))"

fun annotate_first :: "string \<Rightarrow> turns \<Rightarrow> turns" where
  "annotate_first x [] = []"
| "annotate_first x ((r, c) # ms) = (if r = ''user'' then (r, c @ nl @ nl @ x) # ms else (r, c) # annotate_first x ms)"

definition annotate :: "string \<Rightarrow> turns \<Rightarrow> turns" where
  "annotate x ms = rev (annotate_first x (rev ms))"

text \<open>What the decisions of the pre-turn spine do to the turn: a decline ends it.\<close>

record course =
  co_declined :: "string option"
  co_turns :: turns
  co_tier :: "string option"
  co_events :: "sse list"

definition fresh_course :: "turns \<Rightarrow> sse list \<Rightarrow> course" where
  "fresh_course ms es = \<lparr>co_declined = None, co_turns = ms, co_tier = None, co_events = es\<rparr>"

fun steer :: "decision list \<Rightarrow> course \<Rightarrow> course" where
  "steer [] co = co"
| "steer (d # ds) co =
     (if d_kind d = ''decline_recall''
      then let m = (case d_payload d of PMessage m \<Rightarrow> m | other \<Rightarrow> [])
           in co\<lparr>co_declined := Some m, co_events := co_events co @ [DeclineEv, Delta m]\<rparr>
      else if d_kind d = ''inject_recall''
      then (case d_payload d of
              PFacts fs \<Rightarrow>
                (if fs = [] then steer ds co
                 else steer ds (co\<lparr>co_turns := annotate (recall_note fs) (co_turns co),
                                  co_events := co_events co @ [RecallEv fs]\<rparr>))
            | other \<Rightarrow> steer ds co)
      else if d_kind d = ''select_toolset''
      then (let t = (case d_payload d of PTier t \<Rightarrow> t | other \<Rightarrow> ''core'')
            in if t \<in> {''coding'', ''memory''}
               then steer ds (co\<lparr>co_tier := Some t, co_events := co_events co @ [ToolsetEv t]\<rparr>) else steer ds co)
      else steer ds co)"

definition pre_spine :: "moment \<Rightarrow> string \<Rightarrow> bool \<Rightarrow> gw \<Rightarrow> decision list \<times> gw" where
  "pre_spine mo user want g =
     (if (want \<or> mo_toolset mo) \<and> user \<noteq> []
      then (case run_pre_turn (mo_seam mo) user want (mo_toolset mo) (gw_world g) of
              ((rs, decs), w) \<Rightarrow>
                (decs, (put_world w g)\<lparr>gw_ring := log_receipts (mo_ring_at mo) rs (gw_ring g)\<rparr>))
      else ([], g))"

definition persona_shifted :: "receipt list \<Rightarrow> bool" where
  "persona_shifted rs \<longleftrightarrow>
     list_ex (\<lambda>r. rc_kind r = ''persona_shift'' \<and> rc_ok r \<and> rc_verified r \<noteq> Some False) rs"

definition persona_now :: "gw \<Rightarrow> pstate" where
  "persona_now g = (case gw_persona g of None \<Rightarrow> [] | Some t \<Rightarrow> snd (parse_persona t))"

text \<open>The flush of the receipts is best effort: when the sink refuses one, the mark of the ring stays.\<close>

definition post_spine :: "moment \<Rightarrow> request \<Rightarrow> string \<Rightarrow> gw \<Rightarrow> sse list \<times> gw" where
  "post_spine mo rq reply g =
     (if \<not> rq_typed rq then ([], g)
      else case run_post_turn (last_of ''user'' (rq_messages rq)) reply (gw_world g) of
             (rs, w) \<Rightarrow>
               let g1 = (put_world w g)\<lparr>gw_ring := log_receipts (mo_ring_at mo) rs (gw_ring g)\<rparr>
               in (if persona_shifted rs then [PersonaEv (persona_now g1) True] else [],
                   (case persist_receipts (mo_sink mo) (mo_dump mo) (gw_ring g1) (gw_sink g1) of
                      None \<Rightarrow> g1
                    | Some (n, r, k) \<Rightarrow> g1\<lparr>gw_ring := r, gw_sink := k\<rparr>)))"

definition said :: "sse list \<Rightarrow> string" where
  "said evs = concat (map (\<lambda>e. case e of Delta t \<Rightarrow> t | other \<Rightarrow> []) evs)"

definition is_delta :: "sse \<Rightarrow> bool" where
  "is_delta e = (case e of Delta t \<Rightarrow> True | other \<Rightarrow> False)"

definition native_back :: "runners \<Rightarrow> moment \<Rightarrow> request \<Rightarrow> course \<Rightarrow> gw \<Rightarrow> sse list \<times> gw" where
  "native_back ru mo rq co g =
     (let human = human_turn (co_turns co)
      in case hook mo rq (co_turns co) (arm_turn mo (co_turns co) g) of
           (Some offer, ms, g2) \<Rightarrow>
             (co_events co @ [Delta offer], put_chat rq (ms @ [(''assistant'', offer)]) g2)
         | (None, ms, g2) \<Rightarrow>
             let ((sent, raised, added), g4) = ru_stream ru ms (co_tier co) (user_turn mo rq g2);
                 final = strip (said sent);
                 g5 = put_chat rq (ms @ added @ (if raised = None \<and> final \<noteq> [] then [(''assistant'', final)] else [])) g4;
                 g6 = kairos_after mo rq final (with_mem (capture mo human) g5);
                 (evs, g7) = post_spine mo rq (said sent) g6
             in (co_events co @ sent @ (case raised of None \<Rightarrow> [] | Some e \<Rightarrow> [Delta (''[error: '' @ e @ '']'')]) @ evs, g7))"

definition native_chat :: "runners \<Rightarrow> moment \<Rightarrow> request \<Rightarrow> gw \<Rightarrow> sse list \<times> gw" where
  "native_chat ru mo rq g =
     (let st = persona_now g;
          (ms, g1) = session_transcript rq g;
          user = last_of ''user'' ms;
          (auto, want, ev) = authority_lane (mo_authority mo) (rq_auto rq) (mo_recall mo) (looks_q user);
          (decs, g2) = pre_spine mo user want g1;
          co = steer decs (fresh_course ms ((if st = [] then [] else [PersonaEv st False])
                 @ (case ev of None \<Rightarrow> [] | Some e \<Rightarrow> [AuthorityEv e])));
          (evs, g3) = (case co_declined co of
                         Some m \<Rightarrow> (co_events co, put_chat rq (co_turns co @ [(''assistant'', m)]) g2)
                       | None \<Rightarrow> native_back ru mo rq co g2)
      in (filter (\<lambda>e. rq_typed rq \<or> is_delta e) evs @ [DoneEv], g3))"

end
