(* ===== verification/GatewayLaws.thy ===== *)
theory GatewayLaws imports Gateway begin

text \<open>
  What a turn of the gateway guarantees: the capture lane writes only what he typed, the two entry points
  agree on an ordinary turn, and where they part: a turn answered by an offer or a decline, and the
  recall note that rides on his message into the capture lane.
\<close>

section \<open>What each hook touches\<close>

lemma gw_mem_with [simp]: "gw_mem (with_mem f g) = f (gw_mem g)"
  by (simp add: gw_mem_def with_mem_def)

lemma gw_mem_other [simp]:
  "gw_mem (g\<lparr>gw_stage := a\<rparr>) = gw_mem g" "gw_mem (g\<lparr>gw_ledger := b\<rparr>) = gw_mem g" "gw_mem (g\<lparr>gw_chats := c\<rparr>) = gw_mem g"
  "gw_mem (g\<lparr>gw_ring := d\<rparr>) = gw_mem g" "gw_mem (g\<lparr>gw_sink := e\<rparr>) = gw_mem g"
  "gw_mem (g\<lparr>gw_law := l\<rparr>) = gw_mem g" "gw_mem (g\<lparr>gw_persona := p\<rparr>) = gw_mem g"
  by (simp_all add: gw_mem_def)

lemma put_chat_frame [simp]:
  "gw_sched (put_chat rq ms g) = gw_sched g" "gw_stage (put_chat rq ms g) = gw_stage g"
  "gw_ledger (put_chat rq ms g) = gw_ledger g" "gw_mem (put_chat rq ms g) = gw_mem g"
  by (simp_all add: put_chat_def)

lemma user_turn_frame [simp]:
  "gw_mem (user_turn mo rq g) = gw_mem g" "gw_stage (user_turn mo rq g) = gw_stage g"
  "gw_ledger (user_turn mo rq g) = gw_ledger g" "gw_chats (user_turn mo rq g) = gw_chats g"
  by (auto simp: user_turn_def gw_mem_def on_user_turn_def Let_def cancel_def set_turn_def split: option.splits)

lemma user_turn_timer: "z_timers (gw_sched (user_turn mo rq g)) (session_of rq) = None"
  by (auto simp: user_turn_def on_user_turn_def Let_def cancel_def set_turn_def split: option.splits)

lemma on_reply_mem: "z_mem (snd (on_reply cfg s reply margin rng now wall z)) = z_mem z"
  by (simp add: on_reply_def Let_def arm_def)

lemma kairos_frame [simp]:
  "gw_mem (kairos_after mo rq t g) = gw_mem g" "gw_stage (kairos_after mo rq t g) = gw_stage g"
  "gw_ledger (kairos_after mo rq t g) = gw_ledger g" "gw_chats (kairos_after mo rq t g) = gw_chats g"
  by (simp_all add: kairos_after_def Let_def gw_mem_def on_reply_mem)

lemma arm_turn_mem [simp]: "gw_mem (arm_turn mo ms g) = set_author ''user'' (set_question (human_turn ms) (gw_mem g))"
  by (simp add: arm_turn_def)

lemma with_mem_frame [simp]:
  "gw_stage (with_mem f g) = gw_stage g" "gw_ledger (with_mem f g) = gw_ledger g" "gw_chats (with_mem f g) = gw_chats g"
  "z_timers (gw_sched (with_mem f g)) = z_timers (gw_sched g)" "z_turns (gw_sched (with_mem f g)) = z_turns (gw_sched g)"
  by (simp_all add: with_mem_def)

lemma arm_turn_frame [simp]:
  "gw_stage (arm_turn mo ms g) = gw_stage g" "gw_chats (arm_turn mo ms g) = gw_chats g"
  "z_timers (gw_sched (arm_turn mo ms g)) = z_timers (gw_sched g)" "z_turns (gw_sched (arm_turn mo ms g)) = z_turns (gw_sched g)"
  by (simp_all add: arm_turn_def)

text \<open>The scene hook reads and writes the stage only.\<close>

lemma hook_frame:
  "hook mo rq ms g = (fst (hook mo rq ms g), fst (snd (hook mo rq ms g)), g\<lparr>gw_stage := gw_stage (snd (snd (hook mo rq ms g)))\<rparr>)"
  by (simp add: hook_def Let_def split: prod.split rp_out.split)

lemma hook_stage:
  assumes "gw_stage g = gw_stage h"
  shows "fst (hook mo rq ms g) = fst (hook mo rq ms h)" "fst (snd (hook mo rq ms g)) = fst (snd (hook mo rq ms h))"
    "gw_stage (snd (snd (hook mo rq ms g))) = gw_stage (snd (snd (hook mo rq ms h)))"
  using assms by (simp_all add: hook_def Let_def split: prod.split rp_out.split)

lemma hook_user_turn:
  "snd (snd (hook mo rq ms (user_turn mo rq g))) = user_turn mo rq (snd (snd (hook mo rq ms g)))"
proof -
  have "gw_stage (user_turn mo rq g) = gw_stage g" by simp
  then have s: "gw_stage (snd (snd (hook mo rq ms (user_turn mo rq g)))) = gw_stage (snd (snd (hook mo rq ms g)))"
    by (rule hook_stage(3))
  have "snd (snd (hook mo rq ms (user_turn mo rq g)))
      = (user_turn mo rq g)\<lparr>gw_stage := gw_stage (snd (snd (hook mo rq ms g)))\<rparr>"
    using hook_frame [of mo rq ms "user_turn mo rq g"] s by (metis snd_conv)
  moreover have "user_turn mo rq (snd (snd (hook mo rq ms g)))
      = user_turn mo rq (g\<lparr>gw_stage := gw_stage (snd (snd (hook mo rq ms g)))\<rparr>)"
    using hook_frame [of mo rq ms g] by (metis snd_conv)
  moreover have "user_turn mo rq (g\<lparr>gw_stage := x\<rparr>) = (user_turn mo rq g)\<lparr>gw_stage := x\<rparr>" for x
    by (simp add: user_turn_def)
  ultimately show ?thesis by simp
qed

lemma last_of_before: "r \<noteq> fst x \<Longrightarrow> last_of r (before_last x ms) = last_of r ms"
proof -
  assume r: "r \<noteq> fst x"
  have "find (\<lambda>m. fst m = r) (ys @ x # zs) = find (\<lambda>m. fst m = r) (ys @ zs)" for ys zs
    using r by (induction ys) auto
  then have "find (\<lambda>m. fst m = r) (rev (before_last x ms)) = find (\<lambda>m. fst m = r) (rev (take (length ms - 1) ms @ drop (length ms - 1) ms))"
    by (simp only: before_last_def rev_append rev.simps append_assoc append_Cons append_Nil)
  then show ?thesis by (simp add: last_of_def)
qed

lemma last_of_Cons: "r \<noteq> fst x \<Longrightarrow> last_of r (x # ms) = last_of r ms"
proof -
  assume r: "r \<noteq> fst x"
  have "find (\<lambda>m. fst m = r) (ys @ [x]) = find (\<lambda>m. fst m = r) ys" for ys using r by (induction ys) auto
  then show ?thesis by (simp add: last_of_def)
qed

text \<open>The messages the scene adds are the system's.\<close>

lemma hook_last_of: "r \<noteq> ''system'' \<Longrightarrow> last_of r (fst (snd (hook mo rq ms g))) = last_of r ms"
  by (simp add: hook_def Let_def last_of_before last_of_Cons split: prod.split rp_out.split)

section \<open>The spine of a turn leaves the registry alone\<close>

lemma execute_all_keeps: "\<forall>d \<in> set ds. snd (execute exs vfs d s) = s \<Longrightarrow> snd (execute_all exs vfs ds s) = s"
proof (induction ds)
  case (Cons d ds)
  obtain r s1 where e: "execute exs vfs d s = (r, s1)" by fastforce
  then have "s1 = s" using Cons.prems by (metis list.set_intros(1) snd_conv)
  then show ?case using Cons e by (simp split: prod.split) (metis snd_conv)
qed simp

lemma execute_state: "snd (execute exs vfs d s) = (case map_of exs (d_kind d) of None \<Rightarrow> s | Some ex \<Rightarrow> snd (ex d s))"
  by (simp add: execute_def split: option.split prod.split sum.split)

lemma execute_all_one: "snd (execute_all exs vfs [d] s) = snd (execute exs vfs d s)"
  by (simp split: prod.split)

lemma run_spine_state:
  "snd (run_spine v ds exs vfs s) = snd (execute_all exs vfs (snd (decide_all v s (by_priority ds))) s)"
  by (simp add: run_spine_def split: prod.split)

lemma stock_keeps:
  "d_kind d \<in> {''inject_recall'', ''select_toolset'', ''decline_recall''} \<Longrightarrow> snd (execute stock_executors stock_verifiers d s) = s"
  by (auto simp: execute_state stock_executors_def ex_inject_def ex_toolset_def)

lemma persona_keeps: "s_mem (snd (ex_persona d s)) = s_mem s"
  by (simp add: ex_persona_def split: prod.split)

lemma run_post_turn_keeps: "s_mem (snd (run_post_turn user reply s)) = s_mem s"
proof -
  let ?v = "\<lparr>w_phase = ''post'', w_user = user, w_reply = reply\<rparr>"
  have d: "snd (decide_all ?v s (by_priority [persona_tag_decider])) =
      (if found TAG_RE reply then [tagged persona_tag_decider (mk_decision ''persona_shift'' (PReply reply))] else [])"
    by (simp add: by_priority_def persona_tag_decider_def stock_def)
  have k: "d_kind (tagged de (mk_decision x p)) = x" for de :: "world decider" and x p by (simp add: tagged_def mk_decision_def)
  have "map_of stock_executors ''persona_shift'' = Some ex_persona" by (simp add: stock_executors_def)
  then show ?thesis
    unfolding run_post_turn_def run_spine_state d by (simp add: execute_all_one execute_state k persona_keeps del: execute_all.simps) simp
qed

lemma pre_kinds:
  assumes "d \<in> set (snd (decide_all v s (by_priority (pre_deciders sv want toolset))))"
  shows "d_kind d \<in> {''inject_recall'', ''select_toolset'', ''decline_recall''}"
proof -
  obtain de x out where de: "de \<in> set (pre_deciders sv want toolset)" "de_decide de s v = Inr out" "x \<in> set out" "d = tagged de x"
    using assms unfolding decide_all_decisions by (auto simp: by_priority_def split: sum.splits) (metis)
  have "de = toolset_decider \<or> de = recall_decider sv (34 / 100)" using de(1) by (auto simp: pre_deciders_def split: if_splits)
  then have "d_kind x \<in> {''inject_recall'', ''select_toolset'', ''decline_recall''}"
  proof
    assume "de = toolset_decider"
    then show ?thesis using de(2,3) by (auto simp: toolset_decider_def stock_def mk_decision_def split: if_splits)
  next
    assume "de = recall_decider sv (34 / 100)"
    then have "x \<in> set (recall_decision sv (34 / 100) (w_user v) (s_mem s) (s_law s))"
      using de(2,3) by (auto simp: recall_decider_def stock_def split: if_splits)
    from recall_decision_cases [OF this] show ?thesis by auto
  qed
  then show ?thesis by (simp add: de(4) tagged_def)
qed

lemma run_pre_turn_keeps: "snd (run_pre_turn sv user want toolset s) = s"
proof -
  let ?v = "\<lparr>w_phase = ''pre'', w_user = user, w_reply = []\<rparr>"
  have "snd (run_pre_turn sv user want toolset s) = snd (run_spine ?v (pre_deciders sv want toolset) stock_executors stock_verifiers s)"
    by (simp add: run_pre_turn_def Let_def split: prod.split)
  then show ?thesis unfolding run_spine_state
    using execute_all_keeps [of "snd (decide_all ?v s (by_priority (pre_deciders sv want toolset)))"] stock_keeps pre_kinds by metis
qed

lemma put_same_world [simp]: "put_world (gw_world g) g = g"
  by (simp add: put_world_def gw_world_def with_mem_def gw_mem_def)

lemma pre_spine_frame:
  "snd (pre_spine mo user want g) = g\<lparr>gw_ring := gw_ring (snd (pre_spine mo user want g))\<rparr>"
proof -
  obtain rs decs w where r: "run_pre_turn (mo_seam mo) user want (mo_toolset mo) (gw_world g) = ((rs, decs), w)"
    by (metis prod.collapse)
  then have "w = gw_world g" using run_pre_turn_keeps by (metis snd_conv)
  then show ?thesis by (simp add: pre_spine_def r)
qed

lemma post_spine_frame [simp]:
  "gw_sched (snd (post_spine mo rq reply g)) = gw_sched g" "gw_stage (snd (post_spine mo rq reply g)) = gw_stage g"
  "gw_ledger (snd (post_spine mo rq reply g)) = gw_ledger g" "gw_chats (snd (post_spine mo rq reply g)) = gw_chats g"
proof -
  obtain rs w where r: "run_post_turn (last_of ''user'' (rq_messages rq)) reply (gw_world g) = (rs, w)" by fastforce
  then have "s_mem w = gw_mem g" using run_post_turn_keeps by (metis gw_world_def snd_conv world.select_convs(1))
  then have "put_world w g = g\<lparr>gw_law := s_law w, gw_persona := s_persona w\<rparr>"
    by (simp add: put_world_def with_mem_def gw_mem_def)
  then show "gw_sched (snd (post_spine mo rq reply g)) = gw_sched g" "gw_stage (snd (post_spine mo rq reply g)) = gw_stage g"
    "gw_ledger (snd (post_spine mo rq reply g)) = gw_ledger g" "gw_chats (snd (post_spine mo rq reply g)) = gw_chats g"
    by (simp_all add: post_spine_def r Let_def split: option.split prod.split)
qed

section \<open>Only what he typed\<close>

lemma remember_provenance:
  "\<exists>new. map row_ident (load_rows (snd (remember ev raw src s))) = map row_ident (load_rows s) @ new
    \<and> (\<forall>i \<in> set new. fst (snd i) = normalize_fact raw) \<and> length new \<le> 1"
proof -
  obtain rep s' where r: "remember ev raw src s = (rep, s')" by fastforce
  then show ?thesis
  proof (cases rule: remember_cases)
    case 2
    from 2(1) 2(3) show ?thesis
    proof (cases rule: remember_commit_cases)
      case (2 line)
      then show ?thesis by (intro exI [of _ "[row_ident line]"]) (simp add: r row_simps row_ident_def [of line])
    qed (simp add: r row_simps)
  qed (simp add: r)
qed

lemma remember_each_provenance:
  "\<exists>new. map row_ident (load_rows (remember_each evs i src fs m)) = map row_ident (load_rows m) @ new
    \<and> (\<forall>x \<in> set new. \<exists>f \<in> set fs. fst (snd x) = normalize_fact f) \<and> length new \<le> length fs"
proof (induction evs i src fs m rule: remember_each.induct)
  case (2 evs i src f fs m)
  obtain new where new: "map row_ident (load_rows (snd (remember (evs i) f src m))) = map row_ident (load_rows m) @ new"
    "\<forall>x \<in> set new. fst (snd x) = normalize_fact f" "length new \<le> 1" using remember_provenance by blast
  obtain rest where rest: "map row_ident (load_rows (remember_each evs i src (f # fs) m))
        = map row_ident (load_rows (snd (remember (evs i) f src m))) @ rest"
    "\<forall>x \<in> set rest. \<exists>h \<in> set fs. fst (snd x) = normalize_fact h" "length rest \<le> length fs" using 2 by auto
  show ?case using new rest by (intro exI [of _ "new @ rest"]) auto
qed simp

definition rows_ident :: "gw \<Rightarrow> (string option \<times> string \<times> string \<times> string option \<times> string) list" where
  "rows_ident g = map row_ident (load_rows (gw_mem g))"

lemma capture_provenance:
  "\<exists>new. map row_ident (load_rows (capture mo human m)) = map row_ident (load_rows m) @ new
    \<and> (\<forall>x \<in> set new. \<exists>f \<in> set (take 4 (extract_facts human)). fst (snd x) = normalize_fact f) \<and> length new \<le> 4"
proof -
  have "load_rows (set_author ''user'' m) = load_rows m" by (rule load_rows_other)
  then show ?thesis
    using remember_each_provenance [of "mo_evs mo" 0 "''user turn''" "take 4 (extract_facts human)" "set_author ''user'' m"]
    by (auto simp: capture_def Let_def)
qed

lemma hook_rest [simp]:
  "gw_sched (snd (snd (hook mo rq ms g))) = gw_sched g" "gw_ledger (snd (snd (hook mo rq ms g))) = gw_ledger g"
  "gw_chats (snd (snd (hook mo rq ms g))) = gw_chats g" "gw_mem (snd (snd (hook mo rq ms g))) = gw_mem g"
proof -
  obtain st where "snd (snd (hook mo rq ms g)) = g\<lparr>gw_stage := st\<rparr>" using hook_frame [of mo rq ms g] by (metis snd_conv)
  then show "gw_sched (snd (snd (hook mo rq ms g))) = gw_sched g" "gw_ledger (snd (snd (hook mo rq ms g))) = gw_ledger g"
    "gw_chats (snd (snd (hook mo rq ms g))) = gw_chats g" "gw_mem (snd (snd (hook mo rq ms g))) = gw_mem g"
    by simp_all
qed

text \<open>A run that writes only rows with \<open>Q\<close>.\<close>

definition writes_only :: "((string option \<times> string \<times> string \<times> string option \<times> string) \<Rightarrow> bool) \<Rightarrow> (turns \<Rightarrow> gw \<Rightarrow> 'a \<times> gw) \<Rightarrow> bool" where
  "writes_only Q f \<longleftrightarrow> (\<forall>ms g. \<exists>new. rows_ident (snd (f ms g)) = rows_ident g @ new \<and> (\<forall>x \<in> set new. Q x))"

lemma repeat_guard_writes:
  assumes "writes_only Q (ru_again ru)"
  shows "\<exists>new. rows_ident (snd (repeat_guard ru ms t g)) = rows_ident g @ new \<and> (\<forall>x \<in> set new. Q x)"
proof -
  obtain again g2 where a: "ru_again ru (ms @ [(''system'', REROLL_NUDGE)]) g = (again, g2)" by fastforce
  then obtain new where "rows_ident g2 = rows_ident g @ new" "\<forall>x \<in> set new. Q x"
    using assms unfolding writes_only_def by (metis snd_conv)
  then show ?thesis by (auto simp: repeat_guard_def Let_def a)
qed

text \<open>
  C5. What a turn of the OpenAI path leaves in the registry: every old row where it was, then what the
  model's own tools wrote, then at most four rows whose texts are facts drawn from the message he
  typed. Nothing the model said, no tool output, no scene prompt and no re-roll gets into his store by
  way of the capture lane.
\<close>

theorem turn_learns_his_words:
  assumes "agent_text ru mo rq g = (Some reply, g')"
    and "writes_only Q (ru_agent ru)" "writes_only Q (ru_plain ru)" "writes_only Q (ru_again ru)"
  shows "\<exists>tooled his. rows_ident g' = rows_ident g @ tooled @ his \<and> (\<forall>x \<in> set tooled. Q x) \<and> length his \<le> 4
    \<and> (\<forall>x \<in> set his. \<exists>f \<in> set (take 4 (extract_facts (human_turn (rq_messages rq)))). fst (snd x) = normalize_fact f)"
proof -
  define g1 where "g1 = user_turn mo rq (arm_turn mo (rq_messages rq) g)"
  obtain off ms g2 where h: "hook mo rq (rq_messages rq) g1 = (off, ms, g2)" by (metis prod_cases3)
  have "gw_mem g2 = gw_mem g1" using hook_rest(4) [of mo rq "rq_messages rq" g1] unfolding h by simp
  then have m2: "rows_ident g2 = rows_ident g" by (simp add: rows_ident_def g1_def load_rows_other)
  show ?thesis
  proof (cases off)
    case (Some t)
    then have "rows_ident g' = rows_ident g" using assms(1) h m2 by (simp add: agent_text_def Let_def g1_def)
    then show ?thesis by (intro exI [of _ "[]"]) simp
  next
    case None
    define run where "run = (if rq_tools rq then ru_agent ru ms g2 else ru_plain ru ms g2)"
    obtain said0 g3 where r: "run = (said0, g3)" by fastforce
    have "\<exists>new. rows_ident (snd run) = rows_ident g2 @ new \<and> (\<forall>x \<in> set new. Q x)"
      using assms(2,3) by (simp add: writes_only_def run_def)
    then obtain n1 where n1: "rows_ident g3 = rows_ident g @ n1" "\<forall>x \<in> set n1. Q x" using r m2 by auto
    have e: "agent_text ru mo rq g = (case run of (None, g3) \<Rightarrow> (None, g3)
        | (Some text0, g3) \<Rightarrow> let (reply, g4) = repeat_guard ru ms text0 g3
            in (Some reply, kairos_after mo rq reply (with_mem (capture mo (human_turn (rq_messages rq))) g4)))"
      using h None by (simp add: agent_text_def Let_def g1_def run_def)
    then obtain t0 g4 where t: "said0 = Some t0" "repeat_guard ru ms t0 g3 = (reply, g4)"
      "g' = kairos_after mo rq reply (with_mem (capture mo (human_turn (rq_messages rq))) g4)"
      using assms(1) r by (auto simp: split: option.splits prod.splits)
    obtain n2 where n2: "rows_ident g4 = rows_ident g3 @ n2" "\<forall>x \<in> set n2. Q x"
      using repeat_guard_writes [OF assms(4), of ms t0 g3] t(2) by auto
    obtain his where his: "map row_ident (load_rows (capture mo (human_turn (rq_messages rq)) (gw_mem g4)))
        = map row_ident (load_rows (gw_mem g4)) @ his" "length his \<le> 4"
      "\<forall>x \<in> set his. \<exists>f \<in> set (take 4 (extract_facts (human_turn (rq_messages rq)))). fst (snd x) = normalize_fact f"
      using capture_provenance by blast
    have "rows_ident g' = rows_ident g4 @ his" using his(1) by (simp add: rows_ident_def t(3))
    then show ?thesis using n1 n2 his(2,3) by (intro exI [of _ "n1 @ n2"] exI [of _ his]) auto
  qed
qed

section \<open>The two entry points\<close>

lemma said_append [simp]: "said (xs @ ys) = said xs @ said ys" "said [] = []" "said [Delta t] = t" "said [DoneEv] = []"
  by (simp_all add: said_def)

lemma said_Cons: "said (e # evs) = said [e] @ said evs"
  by (simp add: said_def)

lemma sse_simps [simp]:
  "is_delta (Delta t)" "\<not> is_delta (PersonaEv st b)" "\<not> is_delta (AuthorityEv a)" "\<not> is_delta DeclineEv"
  "\<not> is_delta (RecallEv fs)" "\<not> is_delta (ToolsetEv u)" "\<not> is_delta (ToolEv u v)" "\<not> is_delta DoneEv"
  "said [PersonaEv st b] = []" "said [AuthorityEv a] = []" "said [DeclineEv] = []" "said [RecallEv fs] = []"
  "said [ToolsetEv u] = []" "said [ToolEv u v] = []"
  by (simp_all add: is_delta_def said_def)

lemma said_deltas [simp]: "said (filter is_delta evs) = said evs"
proof (induction evs)
  case (Cons e evs)
  then show ?case by (cases e) (simp_all add: said_Cons [of _ evs] said_Cons [of _ "filter is_delta evs"])
qed simp

lemma said_filter [simp]: "said (filter (\<lambda>e. b \<or> is_delta e) evs) = said evs"
  by (cases b) simp_all

lemma pre_spine_off [simp]: "\<not> mo_toolset mo \<Longrightarrow> pre_spine mo user False g = ([], g)"
  by (simp add: pre_spine_def)

lemma lane_off: "authority_lane p a False q = (fst (authority_lane p a False q), False, snd (snd (authority_lane p a False q)))"
  by (simp add: authority_lane_def Let_def split: prod.split)

text \<open>The console path after its pre-turn decisions.\<close>

lemma native_steps:
  assumes "session_transcript rq g = (ms, g1)"
    and "authority_lane (mo_authority mo) (rq_auto rq) (mo_recall mo) (looks_q (last_of ''user'' ms)) = (a, want, ev)"
    and "pre_spine mo (last_of ''user'' ms) want g1 = (decs, g2)"
  obtains es where "said es = []"
    "native_chat ru mo rq g =
      (let co = steer decs (fresh_course ms es);
           (evs, g3) = (case co_declined co of
                         Some m \<Rightarrow> (co_events co, put_chat rq (co_turns co @ [(''assistant'', m)]) g2)
                       | None \<Rightarrow> native_back ru mo rq co g2)
       in (filter (\<lambda>e. rq_typed rq \<or> is_delta e) evs @ [DoneEv], g3))"
proof -
  define es where "es = (if persona_now g = [] then [] else [PersonaEv (persona_now g) False])
      @ (case ev of None \<Rightarrow> [] | Some e \<Rightarrow> [AuthorityEv e])"
  have "said es = []" by (simp add: es_def split: option.split)
  then show thesis by (rule that) (simp only: native_chat_def Let_def assms split_conv es_def)
qed

text \<open>A stateless request with both lanes off: the console path is its second half.\<close>

lemma native_plain:
  assumes "rq_session_id rq = []" "\<not> mo_recall mo" "\<not> mo_toolset mo"
  obtains es where "said es = []"
    "native_chat ru mo rq g =
      (let (out, g3) = native_back ru mo rq (fresh_course (rq_messages rq) es) g
       in (filter (\<lambda>e. rq_typed rq \<or> is_delta e) out @ [DoneEv], g3))"
proof -
  define x where "x = authority_lane (mo_authority mo) (rq_auto rq) False (looks_q (last_of ''user'' (rq_messages rq)))"
  define a ev where "a = fst x" and "ev = snd (snd x)"
  have l: "authority_lane (mo_authority mo) (rq_auto rq) (mo_recall mo) (looks_q (last_of ''user'' (rq_messages rq))) = (a, False, ev)"
    using assms(2) lane_off by (metis x_def a_def ev_def)
  have t: "session_transcript rq g = (rq_messages rq, g)" by (simp add: session_transcript_def assms(1))
  obtain es where es: "said es = []" "native_chat ru mo rq g =
      (let co = steer [] (fresh_course (rq_messages rq) es);
           (evs, g3) = (case co_declined co of
                         Some m \<Rightarrow> (co_events co, put_chat rq (co_turns co @ [(''assistant'', m)]) g)
                       | None \<Rightarrow> native_back ru mo rq co g)
       in (filter (\<lambda>e. rq_typed rq \<or> is_delta e) evs @ [DoneEv], g3))"
    by (rule native_steps [OF t l pre_spine_off [OF assms(3)]])
  then show thesis by (intro that [of es]) (simp_all add: fresh_course_def)
qed



text \<open>
  A turn the pre-turn spine declines leaves the console path before it is armed: scheduler, registry
  and attention ledger are as they were, so a day on which he only asked such things is a day without him.
\<close>

lemma decline_goes_unseen:
  assumes "session_transcript rq g = (ms, g1)"
    and "authority_lane (mo_authority mo) (rq_auto rq) (mo_recall mo) (looks_q (last_of ''user'' ms)) = (a, want, ev)"
    and "pre_spine mo (last_of ''user'' ms) want g1 = (d # ds, g2)" "d_kind d = ''decline_recall''" "d_payload d = PMessage m"
  shows "said (fst (native_chat ru mo rq g)) = m \<and> gw_sched (snd (native_chat ru mo rq g)) = gw_sched g
    \<and> gw_ledger (snd (native_chat ru mo rq g)) = gw_ledger g"
proof -
  have g1: "gw_sched g1 = gw_sched g" "gw_ledger g1 = gw_ledger g"
    using assms(1) by (auto simp: session_transcript_def Let_def split: if_splits option.splits)
  obtain r where g2: "g2 = g1\<lparr>gw_ring := r\<rparr>"
    using pre_spine_frame [of mo "last_of ''user'' ms" want g1] unfolding assms(3) snd_conv by blast
  obtain es where es: "said es = []" "native_chat ru mo rq g =
      (let co = steer (d # ds) (fresh_course ms es);
           (evs, g3) = (case co_declined co of
                         Some m \<Rightarrow> (co_events co, put_chat rq (co_turns co @ [(''assistant'', m)]) g2)
                       | None \<Rightarrow> native_back ru mo rq co g2)
       in (filter (\<lambda>e. rq_typed rq \<or> is_delta e) evs @ [DoneEv], g3))"
    by (rule native_steps [OF assms(1-3)])
  have co: "steer (d # ds) (fresh_course ms es)
      = \<lparr>co_declined = Some m, co_turns = ms, co_tier = None, co_events = es @ [DeclineEv, Delta m]\<rparr>"
    using assms(4,5) by (simp add: fresh_course_def)
  have "native_chat ru mo rq g = (filter (\<lambda>e. rq_typed rq \<or> is_delta e) (es @ [DeclineEv, Delta m]) @ [DoneEv],
      put_chat rq (ms @ [(''assistant'', m)]) g2)"
    unfolding es(2) co by (simp only: Let_def course.select_convs option.case split_conv)
  moreover have "said (es @ [DeclineEv, Delta m]) = m"
    using es(1) said_Cons [of DeclineEv "[Delta m]"] by simp
  moreover have "gw_sched g2 = gw_sched g" "gw_ledger g2 = gw_ledger g" using g1 by (simp_all add: g2)
  ultimately show ?thesis by (simp only: fst_conv snd_conv said_append said_filter put_chat_frame append_Nil2)
qed

section \<open>The recall note\<close>

lemma find_annotated:
  "find (\<lambda>m. fst m = ''user'') (annotate_first x ms)
    = map_option (\<lambda>m. (fst m, snd m @ nl @ nl @ x)) (find (\<lambda>m. fst m = ''user'') ms)"
  by (induction x ms rule: annotate_first.induct) auto

lemma human_annotated:
  "human_turn ms \<noteq> [] \<Longrightarrow> human_turn (annotate x ms) = human_turn ms @ nl @ nl @ x"
  by (auto simp: human_turn_def last_of_def annotate_def find_annotated split: option.splits)

text \<open>
  C7. What she recalled is read back as what he said: when the pre-turn spine injects facts into a turn of
  the console, the note rides on his message before his words are taken, so the question the recall
  seam is armed with and the text the capture lane reads are his words followed by the note with every
  fact on a line of its own. A recalled fact is then written again with the source of a user turn.
\<close>

theorem recalled_is_recaptured:
  assumes "session_transcript rq g = (ms, g1)" "human_turn ms \<noteq> []"
    and "authority_lane (mo_authority mo) (rq_auto rq) (mo_recall mo) (looks_q (human_turn ms)) = (a, want, ev)"
    and "pre_spine mo (human_turn ms) want g1 = ([d], g2)" "d_kind d = ''inject_recall''" "d_payload d = PFacts fs" "fs \<noteq> []"
    and "fst (hook mo rq (annotate (recall_note fs) ms) g2) = None"
    and "\<forall>ts tier h. gw_mem (snd (ru_stream ru ts tier h)) = gw_mem h"
  shows "gw_mem (snd (native_chat ru mo rq g))
    = capture mo (human_turn ms @ nl @ nl @ recall_note fs)
        (set_author ''user'' (set_question (human_turn ms @ nl @ nl @ recall_note fs) (gw_mem g)))"
proof -
  let ?ts = "annotate (recall_note fs) ms"
  have ht: "human_turn ?ts = human_turn ms @ nl @ nl @ recall_note fs" by (rule human_annotated [OF assms(2)])
  have u: "last_of ''user'' ms = human_turn ms" by (simp add: human_turn_def)
  have "gw_mem g1 = gw_mem g"
    using assms(1) by (auto simp: session_transcript_def Let_def split: if_splits option.splits)
  moreover have "gw_mem g2 = gw_mem g1"
    using pre_spine_frame [of mo "human_turn ms" want g1] assms(4) by (metis gw_mem_other(4) snd_conv)
  ultimately have m: "gw_mem g2 = gw_mem g" by simp
  have co: "steer [d] (fresh_course ms es) = fresh_course ?ts (es @ [RecallEv fs])" for es
    using assms(5-7) by (simp add: fresh_course_def)
  obtain ms2 g3 where h: "hook mo rq ?ts (arm_turn mo ?ts g2) = (None, ms2, g3)"
    using hook_stage(1) [of "arm_turn mo ?ts g2" g2 mo rq ?ts] assms(8) by (metis arm_turn_frame(1) prod.collapse)
  have g3: "gw_mem g3 = set_author ''user'' (set_question (human_turn ?ts) (gw_mem g))"
    using hook_rest(4) [of mo rq ?ts "arm_turn mo ?ts g2"] unfolding h by (simp add: m)
  have b: "gw_mem (snd (native_back ru mo rq (fresh_course ?ts es) g2))
      = capture mo (human_turn ?ts) (gw_mem g3)" for es
  proof -
    obtain sent raised added g4 where s: "ru_stream ru ms2 None (user_turn mo rq g3) = ((sent, raised, added), g4)"
      by (metis prod.collapse)
    then have "gw_mem g4 = gw_mem g3" using assms(9) by (metis snd_conv user_turn_frame(1))
    moreover have "gw_mem (snd (post_spine mo rq t x)) = gw_mem x" for t x by (simp add: gw_mem_def)
    ultimately show ?thesis
      by (simp add: native_back_def fresh_course_def Let_def h s case_prod_unfold)
  qed
  obtain es where "native_chat ru mo rq g =
      (let co = steer [d] (fresh_course ms es);
           (evs, g3) = (case co_declined co of
                         Some m \<Rightarrow> (co_events co, put_chat rq (co_turns co @ [(''assistant'', m)]) g2)
                       | None \<Rightarrow> native_back ru mo rq co g2)
       in (filter (\<lambda>e. rq_typed rq \<or> is_delta e) evs @ [DoneEv], g3))"
    by (rule native_steps [of rq g ms g1 mo a want ev "[d]" g2 ru]) (use assms(1,3,4) u in simp_all)
  then have "gw_mem (snd (native_chat ru mo rq g)) = gw_mem (snd (native_back ru mo rq (fresh_course ?ts (es @ [RecallEv fs])) g2))"
    unfolding Let_def co by (simp add: fresh_course_def case_prod_unfold)
  then show ?thesis using b [of "es @ [RecallEv fs]"] by (simp add: ht g3)
qed

section \<open>Transcripts and chunks\<close>

lemma chunks_concat: "0 < n \<Longrightarrow> concat (chunks n xs) = xs"
  by (induction n xs rule: chunks.induct) auto

lemma chunks_sized: "x \<in> set (chunks n xs) \<Longrightarrow> x \<noteq> [] \<and> length x \<le> n"
  by (induction n xs rule: chunks.induct) auto

text \<open>
  C33. Streaming loses nothing: the deltas of a streamed completion, none empty and none longer than 24,
  join to exactly the text the blocking call returns, errors included, and both leave the same state.
\<close>

theorem stream_is_blocking:
  "concat (fst (stream_completion ru mo rq exc g)) = fst (blocking_completion ru mo rq exc g)
    \<and> snd (stream_completion ru mo rq exc g) = snd (blocking_completion ru mo rq exc g)
    \<and> list_all (\<lambda>x. x \<noteq> [] \<and> length x \<le> 24) (fst (stream_completion ru mo rq exc g))"
proof -
  have "list_all (\<lambda>x. x \<noteq> [] \<and> length x \<le> 24) (chunks 24 t)" for t :: string
    using chunks_sized [of _ 24 t] by (simp add: list_all_iff)
  moreover have "concat (chunks 24 t) = t" for t :: string using chunks_concat [of 24 t] by simp
  ultimately show ?thesis
    by (simp add: stream_completion_def blocking_completion_def split: prod.split option.split)
qed

lemma hook_messages:
  assumes "\<forall>user l w k. fst (roleplay_pre_turn (mo_float mo) (mo_tuning mo) (session_of rq) user (gw_stage g)) \<noteq> Play l w k"
  shows "fst (snd (hook mo rq ms g)) = ms"
proof -
  obtain out st where o: "roleplay_pre_turn (mo_float mo) (mo_tuning mo) (session_of rq) (last_of ''user'' ms) (gw_stage g) = (out, st)"
    by fastforce
  then have "\<forall>l w k. out \<noteq> Play l w k" using assms by (metis fst_conv)
  then show ?thesis by (cases out) (simp_all add: hook_def o)
qed

lemma annotate_snoc: "annotate x (canon @ [(''user'', c)]) = canon @ [(''user'', c @ nl @ nl @ x)]"
  by (simp add: annotate_def)

lemma steer_turns:
  "co_turns co = canon @ [(''user'', c)] \<Longrightarrow> \<exists>c. co_turns (steer ds co) = canon @ [(''user'', c)]"
proof (induction ds co arbitrary: c rule: steer.induct)
  case (2 d ds co)
  then show ?case by (auto simp: Let_def annotate_snoc split: payload.splits)
qed simp

lemma chat_put: "rq_session_id rq \<noteq> [] \<Longrightarrow> map_of (gw_chats (put_chat rq ms g)) (rq_session_id rq) = Some ms"
  by (simp add: put_chat_def update_conv')


section \<open>Concrete turns\<close>

definition demo_gw :: "row list \<Rightarrow> gw" where
  "demo_gw rows =
     \<lparr>gw_sched = \<lparr>z_turns = [], z_outbox = (\<lambda>s. []), z_timers = (\<lambda>s. Some 0), z_jobs = [], z_next = 1, z_last = [],
        z_reflect_at = 0, z_evidence = 0, z_board = \<lparr>b_lines = None, b_author = []\<rparr>, z_mem = demo_mem rows\<rparr>,
      gw_stage = \<lparr>g_scenes = (\<lambda>s. None), g_pending = {}\<rparr>, gw_ledger = \<lparr>l_set = True, l_lines = None\<rparr>,
      gw_law = s_law (demo_world []), gw_persona = None,
      gw_ring = \<lparr>ri_items = [], ri_seq = 0, ri_persisted = 0\<rparr>, gw_sink = empty_sink,
      gw_chats = [(''c'', [(''user'', ''hi''), (''assistant'', ''hello'')])]\<rparr>"

definition demo_moment :: "bool \<Rightarrow> bool \<Rightarrow> moment" where
  "demo_moment scenes lanes =
     \<lparr>mo_here = 0, mo_user_at = 1, mo_evs = (\<lambda>i. demo_ev), mo_cfg = default_cfg, mo_margin = None,
      mo_rng = \<lparr>d_uniform = (\<lambda>a b. a), d_random = 1\<rparr>, mo_reply_at = 2, mo_wall = 2,
      mo_tuning = \<lparr>g_file = None, g_cache = Some [(''roleplay.enabled'', VBool scenes)]\<rparr>, mo_float = (\<lambda>s. None),
      mo_offer = (\<lambda>ss. ''Pick one.''), mo_prompt = (\<lambda>u. ''scene''), mo_director = (\<lambda>u. []), mo_seam = demo_seam,
      mo_recall = lanes, mo_toolset = False, mo_authority = ''l5'', mo_ring_at = 0,
      mo_sink = \<lparr>se_digest = (\<lambda>t. t), se_loads = (\<lambda>t. None), se_str = (\<lambda>j. []), se_now = 0\<rparr>, mo_dump = (\<lambda>t r. [])\<rparr>"

definition demo_request :: "string \<Rightarrow> string \<Rightarrow> request" where
  "demo_request sid text =
     \<lparr>rq_session = [], rq_session_id = sid, rq_chat_id = [], rq_tools = True, rq_auto = False, rq_typed = True,
      rq_messages = [(''user'', text)]\<rparr>"

text \<open>An agent that keeps a fact by a tool call and says hello, and the same agent streamed.\<close>

definition demo_keeps :: "gw \<Rightarrow> gw" where
  "demo_keeps = with_mem (\<lambda>m. snd (remember demo_ev ''I like tea'' [] m))"

definition demo_runners :: runners where
  "demo_runners =
     \<lparr>ru_agent = (\<lambda>ms g. (Some ''hello'', demo_keeps g)), ru_plain = (\<lambda>ms g. (Some ''hello'', g)),
      ru_again = (\<lambda>ms g. (None, g)), ru_stream = (\<lambda>ms tier g. (([Delta ''hel'', ToolEv ''remember'' ''ok'', Delta ''lo''], None, []), demo_keeps g))\<rparr>"

lemma scenes_off: "roleplay_pre_turn (mo_float (demo_moment False b)) (mo_tuning (demo_moment False b)) s user st = (Normal, st)"
proof -
  have "map_option as_bool (got (\<lambda>s. None) ''roleplay.enabled'' \<lparr>g_file = None, g_cache = Some [(''roleplay.enabled'', VBool False)]\<rparr>) = Some False"
    by code_simp
  then obtain v where "got (\<lambda>s. None) ''roleplay.enabled'' \<lparr>g_file = None, g_cache = Some [(''roleplay.enabled'', VBool False)]\<rparr> = Some v"
    "\<not> as_bool v" by auto
  then show ?thesis by (simp add: roleplay_pre_turn_def demo_moment_def pre_turn_def)
qed

lemma hook_off: "hook (demo_moment False b) rq ms g = (None, ms, g)"
  by (simp add: hook_def scenes_off Let_def)

lemma demo_keeps_mem: "gw_mem (demo_keeps g) = snd (remember demo_ev ''I like tea'' [] (gw_mem g))"
  by (simp add: demo_keeps_def)

lemma demo_gw_mem [simp]: "gw_mem (demo_gw rows) = demo_mem rows"
  by (simp add: gw_mem_def demo_gw_def)

lemma demo_rows [simp]: "load_rows (demo_mem rows) = rows"
  by (simp add: load_rows_def demo_mem_def)

theorem turn_learns_his_words_witness:
  "(\<lambda>x. fst (snd x)) ` set (rows_ident (snd (agent_text demo_runners (demo_moment False False)
      (demo_request [] ''My cat is called Milo'') (demo_gw []))))
   \<subseteq> {''I like tea'', ''My cat is called Milo''}"
proof -
  let ?rq = "demo_request [] ''My cat is called Milo''" and ?mo = "demo_moment False False"
  let ?Q = "\<lambda>x. fst (snd x) = normalize_fact ''I like tea''"
  have q: "writes_only ?Q (ru_plain demo_runners)" "writes_only ?Q (ru_again demo_runners)"
    by (simp_all add: writes_only_def demo_runners_def)
  have a: "writes_only ?Q (ru_agent demo_runners)"
    using remember_provenance [of demo_ev "''I like tea''" "[]"]
    by (auto simp: writes_only_def demo_runners_def rows_ident_def demo_keeps_mem)
  obtain r g' where o: "agent_text demo_runners ?mo ?rq (demo_gw []) = (Some r, g')"
    by (simp add: agent_text_def Let_def hook_off demo_runners_def demo_request_def case_prod_unfold)
  from turn_learns_his_words [OF o a q] obtain tooled his where
    t: "rows_ident g' = rows_ident (demo_gw []) @ tooled @ his" "\<forall>x \<in> set tooled. ?Q x"
    "\<forall>x \<in> set his. \<exists>f \<in> set (take 4 (extract_facts (human_turn (rq_messages ?rq)))). fst (snd x) = normalize_fact f"
    by blast
  have "take 4 (extract_facts (human_turn (rq_messages ?rq))) = [''My cat is called Milo'']"
    "normalize_fact ''I like tea'' = ''I like tea''" "normalize_fact ''My cat is called Milo'' = ''My cat is called Milo''" by code_simp+
  moreover have "rows_ident (demo_gw []) = []" by (simp add: rows_ident_def)
  ultimately show ?thesis using t by (auto simp: o)
qed




text \<open>A search over one row finds it once at most.\<close>

lemma single_hit: "length (fst (search_rows v qs q k m False [r] st)) \<le> 1"
proof -
  have "length (match_rows v q m False [r]) \<le> 1" by (simp add: match_rows_def)
  moreover have "length (fst (rule_rows v qs q [r] xs st)) \<le> length xs" for xs
    unfolding rule_rows_def using law.no_longer ranking.no_longer testimony.no_longer by (meson order.trans)
  ultimately have "length (fst (rule_rows v qs q [r] (match_rows v q m False [r]) st)) \<le> 1" by (meson order.trans)
  then show ?thesis by (simp add: search_rows_def Let_def case_prod_unfold)
qed

definition demo_dog :: row where
  "demo_dog = blank_row\<lparr>r_text := ''My dog is called Max'', r_mentions := Some 1\<rparr>"

definition demo_question :: string where
  "demo_question = ''what is the dog called?''"

lemma demo_found:
  "map snd (fst (search_memories_ranked_rows demo_seam demo_question 3 (34 / 100) False (demo_mem [demo_dog]) st)) = [demo_dog]"
proof -
  let ?found = "fst (search_memories_ranked_rows demo_seam demo_question 3 (34 / 100) False (demo_mem [demo_dog]) st)"
  have q: "query_target [] demo_question = None" "34 / 100 \<le> lex_score demo_question demo_dog" "ground demo_dog" by code_simp+
  have c: "cos_of demo_seam r = 0" "sem_tau demo_seam = 2" for r
    by (simp_all add: cos_of_def sem_tau_def demo_seam_def)
  have "live demo_dog" "v_enforce demo_seam = False"
    by (simp_all add: live_def demo_dog_def blank_row_def demo_seam_def)
  then have "lawful demo_seam demo_question [demo_dog]
      (scoped (query_target [] demo_question) (heard (matched demo_seam demo_question (34 / 100) [demo_dog]))) = {demo_dog}"
    using q(2,3) by (simp add: matched_def heard_def scoped_def lawful_def q(1) c) auto
  then have "snd ` set ?found = {demo_dog}"
    using seam_exact [of "[demo_dog]" 3] by (simp add: search_memories_ranked_rows_def demo_mem_def load_rows_def)
  moreover have "length ?found \<le> 1" unfolding search_memories_ranked_rows_def demo_rows by (rule single_hit)
  ultimately show ?thesis by (cases ?found) auto
qed

lemma demo_injects:
  "\<exists>d g2. pre_spine (demo_moment False True) demo_question True (demo_gw [demo_dog]) = ([d], g2)
    \<and> d_kind d = ''inject_recall'' \<and> d_payload d = PFacts [''My dog is called Max'']"
proof -
  have o: "\<not> withheld demo_question demo_dog" "recall_facts demo_question [demo_dog] = [''My dog is called Max'']" by code_simp+
  have w: "gw_world (demo_gw [demo_dog]) = demo_world [demo_dog]\<lparr>s_persona := None\<rparr>"
    by (simp add: gw_world_def demo_gw_def gw_mem_def demo_world_def)
  have "snd (fst (run_pre_turn demo_seam demo_question True False (gw_world (demo_gw [demo_dog]))))
      = [tagged (recall_decider demo_seam (34 / 100)) (mk_decision ''inject_recall'' (PFacts [''My dog is called Max'']))]"
    using demo_found o unfolding w
    by (simp add: run_pre_turn_def pre_deciders_def by_priority_def recall_decider_def stock_def recall_decision_def
        demo_world_def demo_question_def split: prod.split)
  then show ?thesis
    by (simp add: pre_spine_def demo_moment_def demo_question_def tagged_def mk_decision_def case_prod_unfold)
qed

theorem recalled_is_recaptured_witness:
  "gw_mem (snd (native_chat (demo_runners\<lparr>ru_stream := (\<lambda>ms tier g. (([Delta ''Max.''], None, []), g))\<rparr>)
      (demo_moment False True) (demo_request [] demo_question) (demo_gw [demo_dog])))
    = (let read = demo_question @ nl @ nl @ recall_note [''My dog is called Max'']
       in capture (demo_moment False True) read (set_author ''user'' (set_question read (demo_mem [demo_dog]))))
   \<and> endswith (recall_note [''My dog is called Max'']) (nl @ ''  - My dog is called Max'')
   \<and> is_memorable (strip ''  - My dog is called Max'') = None
   \<and> map r_mentions (load_rows (snd (remember demo_ev (strip ''  - My dog is called Max'') ''user turn'' (demo_mem [demo_dog])))) = [Some 2]"
proof -
  let ?mo = "demo_moment False True" and ?rq = "demo_request [] demo_question"
  obtain d g2 where p: "pre_spine ?mo demo_question True (demo_gw [demo_dog]) = ([d], g2)" "d_kind d = ''inject_recall''"
    "d_payload d = PFacts [''My dog is called Max'']" using demo_injects by blast
  have t: "session_transcript ?rq (demo_gw [demo_dog]) = ([(''user'', demo_question)], demo_gw [demo_dog])"
    by (simp add: session_transcript_def demo_request_def)
  have u: "human_turn [(''user'', demo_question)] = demo_question" by (simp add: human_turn_def last_of_def)
  have "looks_q demo_question" by code_simp
  then have l: "authority_lane (mo_authority ?mo) (rq_auto ?rq) (mo_recall ?mo) (looks_q demo_question) = (False, True, None)"
    by (simp add: authority_lane_def demo_moment_def demo_request_def)
  have m: "endswith (recall_note [''My dog is called Max'']) (nl @ ''  - My dog is called Max'')"
    "is_memorable (strip ''  - My dog is called Max'') = None"
    "map r_mentions (load_rows (snd (remember demo_ev (strip ''  - My dog is called Max'') ''user turn'' (demo_mem [demo_dog])))) = [Some 2]"
    by code_simp+
  have "gw_mem (snd (native_chat (demo_runners\<lparr>ru_stream := (\<lambda>ms tier g. (([Delta ''Max.''], None, []), g))\<rparr>) ?mo ?rq (demo_gw [demo_dog])))
      = capture ?mo (human_turn [(''user'', demo_question)] @ nl @ nl @ recall_note [''My dog is called Max''])
          (set_author ''user'' (set_question (human_turn [(''user'', demo_question)] @ nl @ nl @ recall_note [''My dog is called Max''])
            (gw_mem (demo_gw [demo_dog]))))"
  proof (rule recalled_is_recaptured [OF t _ _ _ p(2,3)])
    show "human_turn [(''user'', demo_question)] \<noteq> []" unfolding u by (simp add: demo_question_def)
    show "authority_lane (mo_authority ?mo) (rq_auto ?rq) (mo_recall ?mo) (looks_q (human_turn [(''user'', demo_question)])) = (False, True, None)"
      unfolding u by (rule l)
    show "pre_spine ?mo (human_turn [(''user'', demo_question)]) True (demo_gw [demo_dog]) = ([d], g2)"
      unfolding u by (rule p(1))
  qed (simp_all add: hook_off)
  then show ?thesis using m by (simp only: u demo_gw_mem Let_def)
qed

end
