(* ===== verification/Spec2Isabelle.thy ===== *)
theory Spec2Isabelle imports Reflection TaskLoop Xxh64 Maintain NoteTools AgentStream OkfBlocks GatewayLaws begin

text \<open>
  A verification development for the companion harness (the Python code under \<open>harness/\<close> and two tools
  under \<open>tools/\<close>): a chat companion with a long-term memory that decides by rules what it stores, what
  it recalls, when it speaks of its own accord and which tools it may call.

  \<^bold>\<open>The parts and how they interact.\<close> A turn of the user is screened for facts
  (\<open>skills/lifecycle.py\<close>), which go through a door into the fact registry (\<open>skills/memory.py\<close>);
  a write may retire older rows by the verdict law (\<open>skills/verdict.py\<close>) and the slot links
  (\<open>skills/slots.py\<close>); reading goes through one recall seam, which uses the semantic index
  (\<open>skills/semindex.py\<close>) and the same law. The spine (\<open>control/spine.py\<close>) decides before, after and
  between turns, executes, verifies and leaves receipts, which are flushed into the telemetry sink
  (\<open>telemetry/sink.py\<close>). The scheduler (\<open>kairos/scheduler.py\<close>) ticks over all sessions and asks the
  impulse policy (\<open>kairos/impulse.py\<close>) whether to speak; it reads notes and watches
  (\<open>skills/notes.py\<close>, \<open>skills/watch.py\<close>), live knobs (\<open>tuning/registry.py\<close>) and the model of the
  person (\<open>model/person.py\<close>, \<open>model/presence.py\<close>), and its reflection writes conclusions back into the
  registry through \<open>maintenance/ops.py\<close>. Tool calls are parsed by the grammar (\<open>mcp/grammar.py\<close>) and run
  by the tool loop (\<open>mcp/tools.py\<close>) or the streamed turn (\<open>agent.py\<close>); a posted goal is worked by the
  task loop (\<open>control/task_loop.py\<close>). The gateway (\<open>server/app.py\<close>) composes a turn out of these: the
  author and the ledger, the scheduler's note of activity, the scene hook, the spine before and after,
  the model, the repeat guard and the capture of his words. Conversations are meant to go into the content-addressed memory
  (\<open>tools/okf_mem.py\<close>, \<open>skills/memclass.py\<close>, \<open>skills/conversation_memory.py\<close>).

  \<^bold>\<open>The theories, in the order of the code.\<close>
  \<^item> \<open>Prelude\<close>: text functions of Python on ASCII strings, list scans, the collections \<open>row_simps\<close>,
    \<open>door_simps\<close>, \<open>law_simps\<close> and \<open>kairos_simps\<close>. \<open>PyRegex\<close>: the backtracking matcher for the patterns the
    sources use, with \<open>search\<close>, \<open>match\<close>, \<open>sub\<close>, \<open>findall\<close>. \<open>Clock\<close>, \<open>StampOrder\<close>: UTC stamps as texts, their
    reading and their order. \<open>Contracts\<close>: the locales (a store with tombstones, a stage that only
    silences, a content-addressed sink, a bounded speaker); each is interpreted in the theory of the
    component that provides it (\<open>Store\<close>, \<open>Notes\<close>, \<open>NoteTools\<close>; \<open>Recall\<close>; \<open>Telemetry\<close>; \<open>Impulse\<close>).
  \<^item> \<open>FactText\<close>, \<open>Admission\<close>, \<open>Rows\<close>, \<open>Supersede\<close>: \<open>skills/lifecycle.py\<close> (patterns and doors; class, slot,
    capture, firewall; rows, status, salience; what a new fact retires). \<open>Verdict\<close>: \<open>skills/verdict.py\<close>.
    \<open>Slots\<close>: \<open>skills/slots.py\<close>. \<open>Semindex\<close>: \<open>skills/semindex.py\<close>.
  \<^item> \<open>Memory\<close>, \<open>MemoryLaws\<close>, \<open>Recall\<close>, \<open>Store\<close>, \<open>Hygiene\<close>: \<open>skills/memory.py\<close>. A registry is the record
    \<open>mem\<close>: its path, the lines of its file (a row or a malformed line), the author and the question of
    the turn, and the queue of the mint. \<open>Store.mem_step\<close> makes every tool that touches it one step.
  \<^item> \<open>Impulse\<close>, \<open>Scheduler\<close>, \<open>SchedulerLaws\<close>: the speaking policy and the scheduler as a state machine;
    a thread interleaving is a sequence of events, a timer has a beginning and an end with the
    generated text in between. \<open>Notes\<close>, \<open>Watch\<close>, \<open>Duetime\<close>, \<open>DuetimeLaws\<close>, \<open>NoteTools\<close>: the board, the
    watches, the reading of due times, and the verbs the model may call.
  \<^item> \<open>Presence\<close>, \<open>Person\<close>, \<open>Reflection\<close>, \<open>Maintain\<close>: attention ledger, person model, insight and the
    operator's maintenance. \<open>Tuning\<close>: knobs. \<open>Persona\<close>, \<open>PersonaLaws\<close>: \<open>personality/persona_file.py\<close> and
    \<open>personality/interceptor.py\<close>. \<open>Roleplay\<close>: \<open>roleplay/\<close> and the hook of \<open>server/app.py\<close>.
    \<open>RepeatGuard\<close>: \<open>quality/repeat_guard.py\<close>.
  \<^item> \<open>Telemetry\<close>, \<open>Spine\<close>, \<open>SpineLaws\<close>, \<open>TaskLoop\<close>: \<open>telemetry/sink.py\<close>, \<open>control/spine.py\<close>,
    \<open>control/task_loop.py\<close>. \<open>Grammar\<close>, \<open>ToolLoop\<close>, \<open>AgentStream\<close>: \<open>mcp/grammar.py\<close>, \<open>mcp/tools.py\<close> and
    \<open>agent_chat_stream\<close> of \<open>agent.py\<close>.
  \<^item> \<open>OkfMem\<close>, \<open>OkfLaws\<close>, \<open>OkfBlocks\<close>, \<open>OkfStore\<close>, \<open>ConvMemory\<close>: the content-addressed memory, its round
    trips, its generated blocks, its promises over runs, and the conversation memory on top of it.
  \<^item> \<open>Gateway\<close>, \<open>GatewayLaws\<close>: a turn of \<open>server/app.py\<close> at its two entry points (\<open>chat_completions\<close>
    and \<open>native_chat\<close> with their streams), the state \<open>gw\<close> of the gateway, the environment \<open>moment\<close> of a
    turn and the model behind it as \<open>runners\<close>; then what a turn learns, and where the two differ.
  \<^item> \<open>Xxh64\<close>: \<open>tools/model/xxh64.py\<close>.
  \<^item> This theory: the properties that span the components of the registry.

  \<^bold>\<open>What the lemmas show.\<close> Of the stores: no operation erases a row or revives a dead one, whatever the
  sequence (registry, board, note tools); what a write retires is exactly what the law says; an
  inference never retires testimony and never becomes evidence; the seam returns exactly the rows its
  specification names; compaction is accounted for, and where the code loses something (a live row
  behind a tombstone, a row behind a stale snapshot) that is a theorem too. Of the scheduler: the hourly cap
  over whole runs, the last gate before the outbox, reminders that are neither lost nor repeated, a
  reflection that comes to rest. Of the spine and the loops: one receipt per decision in priority
  order, a receipt is verified only when its check passed, the tool loop feeds back what it did and
  breaks a rut, interrupted tasks resume as if uninterrupted, a tool fence is not shown. Of the formats: the persona
  file, front matter and the LUT read back as written, the sink and the LUT list each address once,
  the masked hash equals the word algorithm, parsed due times are readable, unambiguous and not past.
  Of the gateway: only his own words are captured, the two entry points agree on an ordinary turn
  and part where a shortcut answers for the model, a stored transcript only grows, and a streamed reply
  is the blocking one in pieces. The findings of the manifest name the theorems that prove a deviation.

  \<^bold>\<open>Conventions.\<close> Python strings are ASCII \<open>string\<close>s; dashes and other marks outside ASCII in a constant
  are written in ASCII. Floats are exact reals or rationals. Ints are \<open>int\<close> or \<open>nat\<close>. An exception that leaves
  a function is a value (an error constructor, \<open>None\<close> or \<open>Crash\<close>). A file is the list of its lines or
  its text; a partial write of a file is not modelled. Time, randomness, digests, generated text, the JSON
  reader, \<open>ast.parse\<close>, \<open>float(str)\<close>, the embedding, the web search and the judging model are parameters, as
  arguments or fields of an environment record; where a property needs a fact of one of them it is a
  hypothesis of the theorem and its witness supplies a concrete function.

  \<^bold>\<open>Bounds and termination.\<close> No definition carries artificial fuel. The loops of the code that are
  bounded by a count (tool rounds, task steps, stream rounds) recurse on that count; the others end by a
  measure with a \<open>termination\<close> proof (unwrapping of a fact and of a question, splitting of lines, decimal
  digits, days of absence, the stripes of the hash, the task loop). The matcher repeats a pattern at
  most as often as the text has characters left, which is what can be consumed. Loops that never end
  in the program (the scheduler thread, the agency heartbeat, the telemetry subscription) are
  sequences of ticks of any length.

  \<^bold>\<open>Not modelled, and why.\<close> The rest of \<open>server/app.py\<close> (routes, JSON panels, the warm gate,
  heartbeats of a stream), the prompts and tool lists of \<open>agent.py\<close>, and the clients of \<open>inference/\<close> and
  \<open>nexus/\<close> (input and output only; a run of the model is a parameter of a turn), \<open>voice/\<close>, \<open>cli/\<close> and \<open>observability/\<close> (devices and printing), the wording of prompts
  and reports, log lines, the read caches, the threads themselves, the gate scripts of
  \<open>harness_tests/\<close> (tests), the scripts of \<open>tools/\<close> other than the two named, and the engine (Rust, C and
  CUDA).
\<close>

section \<open>Sample values for the witnesses\<close>

definition sample_row :: "string \<Rightarrow> string \<Rightarrow> string \<Rightarrow> row" where
  "sample_row nm txt st =
     blank_row\<lparr>r_name := Some nm, r_dir := nm, r_text := txt, r_speaker := Some ''user'', r_status := st\<rparr>"

definition sample_mem :: "row list \<Rightarrow> mem" where
  "sample_mem rows =
     \<lparr>m_path = ''reg.jsonl'', m_file = Some (map Row rows), m_author = ''user'', m_question = [], m_queue = []\<rparr>"

definition sample_env :: env where
  "sample_env = \<lparr>e_now = 0, e_self = [''shannon''], e_async = True, e_capture = (\<lambda>f d. (0, False))\<rparr>"

definition sample_seam :: seam where
  "sample_seam = \<lparr>v_now = 0, v_digest = (\<lambda>t. t), v_semq = None, v_enforce = False, v_shadow = False,
     v_table = [], v_slots = None\<rparr>"

definition sample_stats :: law_stats where
  "sample_stats = \<lparr>st_checked = 0, st_divergent = 0, st_unmapped = 0, st_drops = 0\<rparr>"

lemma load_sample [simp]: "load_rows (sample_mem rows) = rows" "m_path (sample_mem rows) = ''reg.jsonl''"
  "m_file (sample_mem rows) = Some (map Row rows)"
  by (simp_all add: sample_mem_def load_rows_def)

section \<open>The fact registry\<close>





text \<open>
  The names must differ, and the code does not make them: they are ep_tool_ followed by the
  milliseconds of the clock, and retirement is by name. With two rows of one name, a reflection
  about the dog tombstones his own testimony about where he lives.
\<close>

theorem shared_name_retires_testimony:
  "map (\<lambda>r. (r_status r, r_text r, r_lifecycle r))
     (load_rows (snd (remember_commit sample_env ''My dog is called Max'' ''reflection''
        [sample_row ''ep1'' ''My dog is called Rex'' ''inferred'', sample_row ''ep1'' ''I live in Leeds'' ''observed'']
        (sample_mem [sample_row ''ep1'' ''My dog is called Rex'' ''inferred'',
           sample_row ''ep1'' ''I live in Leeds'' ''observed'']))))
   = [(''inferred'', ''My dog is called Rex'', 1), (''observed'', ''I live in Leeds'', 1),
      (''inferred'', ''My dog is called Max'', 0)]"
  by code_simp







text \<open>
  His restatement does not confirm an inference: when a live row already says the fact word for
  word, a new statement of it, from whatever source, changes no status, no speaker and no text and
  appends no row. A conclusion of hers that he then states himself stays an inference.
\<close>

theorem restatement_confirms_nothing:
  assumes "m_path s \<noteq> []" and "e \<in> set (load_rows s)" "live e" "strip (row_text e) = strip (normalize_fact raw)"
  shows "map row_ident (load_rows (snd (remember ev raw src s))) = map row_ident (load_rows s)"
proof -
  have "exact_hit (normalize_fact raw) e" using assms(3,4) by (simp add: exact_hit_def)
  from stale_reinforcement [OF assms(1,2) disjI1 [OF this]] show ?thesis
    by (simp add: remember_def Let_def split: option.split)
qed

theorem restatement_confirms_nothing_witness:
  "map status_of (load_rows (snd (remember sample_env ''I live in Leeds'' []
     (sample_mem [sample_row ''ep1'' ''I live in Leeds'' ''inferred''])))) = [''inferred'']"
proof -
  let ?r = "sample_row ''ep1'' ''I live in Leeds'' ''inferred''"
  have n: "strip (row_text ?r) = strip (normalize_fact ''I live in Leeds'')" by code_simp
  have "map row_ident (load_rows (snd (remember sample_env ''I live in Leeds'' [] (sample_mem [?r])))) = map row_ident [?r]"
    using restatement_confirms_nothing [of "sample_mem [?r]" ?r "''I live in Leeds''" sample_env "[]"] n
    by (simp add: sample_row_def live_def blank_row_def)
  then have "map (snd \<circ> snd \<circ> snd \<circ> snd) (map row_ident (load_rows (snd (remember sample_env ''I live in Leeds'' [] (sample_mem [?r])))))
     = [status_of ?r]"
    by (simp add: row_ident_def)
  then show ?thesis by (simp add: row_ident_def comp_def) (simp add: sample_row_def status_of_def)
qed

text \<open>
  C36. A lost update: \<open>remember\<close> decides on the rows it read and writes them back. When another
  write has stored a fact in between, a reinforcement on the old snapshot leaves a registry without
  that fact's row: exactly the rows of the snapshot.
\<close>

theorem stale_reinforcement_loses_row:
  fixes s :: mem and ev :: env and f src :: string
  assumes "m_path s \<noteq> []"
    and "\<not> (\<exists>e \<in> set (load_rows s). exact_hit f e \<or> near_hit f e)"
    and "e \<in> set (load_rows s)" "exact_hit g e"
  defines "stored \<equiv> snd (remember_commit ev f src (load_rows s) s)"
  shows "length (load_rows stored) = length (load_rows s) + 1
    \<and> map row_ident (load_rows (snd (remember_commit ev' g src' (load_rows s) stored))) = map row_ident (load_rows s)"
proof -
  have "length (load_rows stored) = length (load_rows s) + 1"
    using commit_stores(1) [OF assms(1,2), where src = src and ev = ev] by (auto simp: stored_def retire_def)
  moreover have "m_path stored \<noteq> []" using assms(1) by (simp add: stored_def path_remember_commit)
  ultimately show ?thesis using stale_reinforcement [of stored e "load_rows s" g ev' src'] assms(3,4) by simp
qed

theorem stale_reinforcement_loses_row_witness:
  "map row_ident (load_rows (snd (remember_commit sample_env ''I live in Leeds'' []
      [sample_row ''ep1'' ''I live in Leeds'' ''observed'']
      (snd (remember_commit sample_env ''My dog is called Max'' []
         [sample_row ''ep1'' ''I live in Leeds'' ''observed'']
         (sample_mem [sample_row ''ep1'' ''I live in Leeds'' ''observed'']))))))
   = [row_ident (sample_row ''ep1'' ''I live in Leeds'' ''observed'')]"
proof -
  let ?r = "sample_row ''ep1'' ''I live in Leeds'' ''observed''"
  have n: "\<not> list_ex (\<lambda>e. exact_hit ''My dog is called Max'' e \<or> near_hit ''My dog is called Max'' e) (load_rows (sample_mem [?r]))"
    by code_simp
  have h: "exact_hit ''I live in Leeds'' ?r" by code_simp
  show ?thesis
    using stale_reinforcement_loses_row [where s = "sample_mem [?r]" and f = "''My dog is called Max''" and e = ?r and
        g = "''I live in Leeds''" and ev = sample_env and src = "[]" and ev' = sample_env and src' = "[]"] n h
    by (simp add: list_ex_iff)
qed

section \<open>The recall seam\<close>

text \<open>
  C13. What the recall seam returns. Every row it returns is in the store, live, matches the question
  (by words or by the semantic gate), is not an inference about a subject a matching row of
  testimony of the same speaker covers, belongs to the person asked about when that person has such
  a row, and passes the committed law when it is armed. At most \<open>k\<close> rows come back, best score
  first, and when \<open>k\<close> is not smaller than the store every such row comes back.
\<close>

theorem recall_seam_exact:
  defines "admitted v q m s \<equiv>
     lawful v q (load_rows s) (scoped (query_target (m_question s) q) (heard (matched v q m (load_rows s))))"
  shows "snd ` set (fst (search_memories_ranked_rows v q k m False s st)) \<subseteq> admitted v q m s
    \<and> (length (load_rows s) \<le> k \<longrightarrow> snd ` set (fst (search_memories_ranked_rows v q k m False s st)) = admitted v q m s)
    \<and> length (fst (search_memories_ranked_rows v q k m False s st)) \<le> k
    \<and> sorted_wrt (\<lambda>p p'. fst p' \<le> fst p) (fst (search_memories_ranked_rows v q k m False s st))"
  unfolding search_memories_ranked_rows_def admitted_def
  using seam_sub seam_exact search_rows_length search_rows_sorted by simp

text \<open>A closed instance: the superseded row about the dog stays out, the live one comes back.\<close>

theorem recall_seam_exact_witness:
  "snd ` set (fst (search_memories_ranked_rows sample_seam ''dog called'' 5 (25 / 100) False
      (sample_mem [(sample_row ''ep1'' ''My dog is called Rex'' ''observed'')\<lparr>r_lifecycle := 1\<rparr>,
         sample_row ''ep2'' ''My dog is called Max'' ''observed'']) sample_stats))
   = {sample_row ''ep2'' ''My dog is called Max'' ''observed''}"
proof -
  let ?d = "(sample_row ''ep1'' ''My dog is called Rex'' ''observed'')\<lparr>r_lifecycle := 1\<rparr>"
  let ?e = "sample_row ''ep2'' ''My dog is called Max'' ''observed''"
  have q: "query_target [] ''dog called'' = None" by code_simp
  have l: "lex_score ''dog called'' ?e = 1" by code_simp
  have c: "cos_of sample_seam r = 0" "sem_tau sample_seam = 2" for r
    by (simp_all add: cos_of_def sem_tau_def sample_seam_def)
  have "live ?e" "\<not> live ?d" "ground ?e" "m_question (sample_mem [?d, ?e]) = []" "v_enforce sample_seam = False"
    by (simp_all add: sample_row_def live_def blank_row_def ground_def status_of_def GROUND_TRUTH_def
        STATUS_OBSERVED_def sample_mem_def sample_seam_def)
  then show ?thesis
    using recall_seam_exact [of sample_seam "''dog called''" 5 "25 / 100" "sample_mem [?d, ?e]" sample_stats]
    by (simp add: matched_def heard_def scoped_def lawful_def q l c)
      (auto simp: l)
qed

text \<open>
  A lookup is not evidence: whatever she looks up, the reply to every later question is the
  reply it would have been, and the lookup changes no field of any row but its lookup counter.
\<close>

theorem recall_changes_no_answer:
  assumes "m_path s \<noteq> []"
  shows "fst (recall v q (fst (snd (recall v p s st'))) st) = fst (recall v q s st)
    \<and> map quiet (load_rows (fst (snd (recall v p s st')))) = map quiet (load_rows s)"
  using recall_stable [OF assms] recall_state(1) [OF assms] by simp

theorem recall_changes_no_answer_witness:
  "fst (recall sample_seam ''my dog'' (fst (snd (recall sample_seam ''my cat''
      (sample_mem [sample_row ''ep1'' ''My dog is called Max'' ''observed'']) sample_stats))) sample_stats)
   = fst (recall sample_seam ''my dog'' (sample_mem [sample_row ''ep1'' ''My dog is called Max'' ''observed'']) sample_stats)"
  using recall_changes_no_answer [of "sample_mem [sample_row ''ep1'' ''My dog is called Max'' ''observed'']"
      sample_seam "''my dog''" "''my cat''" sample_stats sample_stats]
  by simp

text \<open>
  C14. A stored fact is found: after a write that stores an observed fact, a question whose words
  the fact contains matches it at the gate and no other row silences it.
\<close>

theorem stored_fact_is_heard:
  assumes "m_path s \<noteq> []" and "distinct_names (load_rows s)" and "door ev (m_author s) (normalize_fact raw) = None"
    and "\<not> (\<exists>e \<in> set (load_rows s). exact_hit (normalize_fact raw) e \<or> near_hit (normalize_fact raw) e)"
    and "\<not> contains src ''reflection''"
    and "toks q \<noteq> {}" "toks q \<subseteq> toks (normalize_fact raw)" "m \<le> 1"
  shows "\<exists>line \<in> heard (matched v q m (load_rows (snd (remember ev raw src s)))). r_text line = normalize_fact raw"
proof -
  obtain npos where rows: "load_rows (snd (remember ev raw src s)) =
     map (\<lambda>r. if attribute_key (normalize_fact raw) (speaker_of (m_author s)) \<noteq> None
            \<and> conflicts (normalize_fact raw) (speaker_of (m_author s)) (source_status src) r
          then tombstone (ep_name (e_now ev)) (stamp_of (e_now ev)) r else r) (load_rows s)
     @ [new_row ev (m_path s) (normalize_fact raw) (speaker_of (m_author s)) npos src
          (find_superseded (normalize_fact raw) (speaker_of (m_author s)) (load_rows s) (source_status src))]"
    (is "_ = ?old @ [?line]")
    using stored_rows [OF assms(1-4), of src] by blast
  have ne: "normalize_fact raw \<noteq> []" using assms(3) by (auto simp: door_def is_memorable_def split: option.splits)
  have "ground ?line" using assms(5) by (rule new_row_ground)
  moreover have "row_text ?line = normalize_fact raw" using ne by (simp add: row_text_def row_simps)
  then have "?line \<in> matched v q m (load_rows (snd (remember ev raw src s)))"
    using found_by_words [of ?line "?old @ [?line]" q m v] assms(6-8)
    by (simp add: rows row_simps flip: matched_rows)
  ultimately have "?line \<in> heard (matched v q m (load_rows (snd (remember ev raw src s))))"
    by (simp add: heard_def)
  then show ?thesis by (rule bexI [rotated]) (simp add: row_simps)
qed

theorem stored_fact_is_heard_witness:
  "\<exists>line \<in> heard (matched sample_seam ''dog'' (25 / 100) (load_rows (snd (remember sample_env ''My dog is called Max'' []
     (sample_mem []))))). r_text line = ''My dog is called Max''"
proof -
  have n: "normalize_fact ''My dog is called Max'' = ''My dog is called Max''" by code_simp
  have d: "door sample_env ''user'' ''My dog is called Max'' = None" by code_simp
  have w: "toks ''dog'' \<noteq> {}" "toks ''dog'' \<subseteq> toks ''My dog is called Max''" by code_simp+
  have a: "m_author (sample_mem []) = ''user''" "\<not> contains [] ''reflection''"
    by (simp add: sample_mem_def) code_simp
  show ?thesis
    using stored_fact_is_heard [of "sample_mem []" sample_env "''My dog is called Max''" "[]" "''dog''" "25 / 100" sample_seam]
      d w a by (simp add: n distinct_names_def)
qed

section \<open>Hygiene\<close>

text \<open>
  Compaction keeps one row for every text: the kept rows are rows of the file in their order, no
  non-empty text occurs twice among them, no text of the file is lost, kept plus dropped lines are
  the lines of the file, and a second compaction drops nothing.
\<close>

theorem compaction_keeps_every_text:
  assumes "m_path s \<noteq> []" and "m_file s = Some ls"
  shows "subseq (load_rows (snd (compact_registry s))) (load_rows s)
    \<and> distinct (filter (\<lambda>k. k \<noteq> []) (map key_of (load_rows (snd (compact_registry s)))))
    \<and> key_of ` set (load_rows (snd (compact_registry s))) = key_of ` set (load_rows s)
    \<and> fst (compact_registry s) = Some (length (load_rows (snd (compact_registry s))),
          length ls - length (load_rows (snd (compact_registry s))))
    \<and> compact_registry (snd (compact_registry s)) =
        (Some (length (load_rows (snd (compact_registry s))), 0), snd (compact_registry s))"
  using compact_registry_spec [OF assms] by blast

theorem compaction_keeps_every_text_witness:
  "subseq (load_rows (snd (compact_registry (sample_mem [sample_row ''ep1'' ''a b'' [], sample_row ''ep2'' ''a b'' []]))))
     [sample_row ''ep1'' ''a b'' [], sample_row ''ep2'' ''a b'' []]"
  using compaction_keeps_every_text [of "sample_mem [sample_row ''ep1'' ''a b'' [], sample_row ''ep2'' ''a b'' []]"
      "map Row [sample_row ''ep1'' ''a b'' [], sample_row ''ep2'' ''a b'' []]"]
  by simp

text \<open>
  Compaction can silence a live fact: it keeps the first row of a text, dead or alive. When the
  first row of a text is a tombstone (he said it, changed it and went back), no row with that text
  is live after compaction, whatever was live before.
\<close>

theorem compaction_keeps_the_corpse:
  assumes "m_path s \<noteq> []" and "m_file s = Some ls" and "k \<noteq> []"
    and "find (\<lambda>r. key_of r = k) (load_rows s) = Some d" and "\<not> live d"
    and "r \<in> set (load_rows (snd (compact_registry s)))" and "key_of r = k"
  shows "\<not> live r"
  using first_keys_first [of k "[]" "rows_of ls" d r] compact_registry_file(3) [OF assms(1,2)] assms
  by (simp add: load_rows_def)

theorem compaction_keeps_the_corpse_witness:
  "map live (load_rows (snd (compact_registry (sample_mem
      [(sample_row ''ep1'' ''My car is red'' [])\<lparr>r_lifecycle := 1\<rparr>, sample_row ''ep2'' ''My car is red'' []]))))
   = [False]"
proof -
  let ?d = "(sample_row ''ep1'' ''My car is red'' [])\<lparr>r_lifecycle := 1\<rparr>"
  let ?s = "sample_mem [?d, sample_row ''ep2'' ''My car is red'' []]"
  have k: "key_of ?d = ''My car is red''" by code_simp
  have l: "load_rows (snd (compact_registry ?s)) = [?d]" by code_simp
  have "\<not> live ?d"
    using compaction_keeps_the_corpse [of ?s "map Row [?d, sample_row ''ep2'' ''My car is red'' []]"
        "''My car is red''" ?d ?d] k l
    by (simp add: live_def)
  then show ?thesis by (simp add: l)
qed

section \<open>Reading a text\<close>

text \<open>
  Unwrapping an instruction is a normal form: normalising twice is normalising once, and when
  anything is left the result carries no bullet, no store verb, no legacy frame and no outer blanks.
\<close>

theorem normalize_fact_normal:
  "normalize_fact (normalize_fact t) = normalize_fact t
    \<and> (unwrap (strip_prefix (strip t)) = [] \<or>
        \<not> startswith (normalize_fact t) USER_PREFIX \<and> strip (normalize_fact t) = normalize_fact t
        \<and> isub1 STORE_VERB [] (normalize_fact t) = normalize_fact t
        \<and> isub1 BULLET [] (normalize_fact t) = normalize_fact t)"
  using normalize_fact_idem normalize_fact_bare by blast

text \<open>
  What the capture lane stores from a turn: each captured text once, and exactly the cores of
  the sentences the door admits; no captured sentence is a question, hypothetical or machine text,
  and each says something standing about an anchored subject.
\<close>

theorem extract_facts_exact:
  "distinct (extract_facts turn)
    \<and> set (extract_facts turn)
        = {core_of s | s. s \<in> set (split_sentences turn) \<and> is_memorable s = None \<and> core_of s \<noteq> []}
    \<and> {s. is_memorable s = None} \<subseteq> {s. \<not> ifound MACHINE (strip s) \<and> \<not> endswith (core_of (strip s)) ''?''
          \<and> \<not> ifound IRREALIS (core_of (strip s)) \<and> ifound STATIVE (claim_of (core_of (strip s)))
          \<and> ifound ANCHOR (claim_of (core_of (strip s)))}"
  using extract_facts_spec memorable_claim memorable_not_machine by auto

section \<open>Time, salience and status\<close>

text \<open>
  A stamp reads back as the second it was written: the civil-date arithmetic and the stamp format
  of the stores are inverse on every second from 1970 to 9999, so a row stamped at \<open>t\<close> and read at
  \<open>now\<close> has age (now - floor t) / 86400 days and no time-zone error.
\<close>

theorem stamp_round_trip:
  assumes "0 \<le> t" and "tm_year (gmtime \<lfloor>t\<rfloor>) \<le> 9999"
  shows "read_stamp (stamp_of t) = Some \<lfloor>t\<rfloor> \<and> age_days (stamp_of t) now = max 0 ((now - of_int \<lfloor>t\<rfloor>) / 86400)"
  using read_stamp_of [OF assms] age_days_now [OF assms] by simp

theorem stamp_round_trip_witness:
  "read_stamp (stamp_of 0) = Some 0 \<and> age_days (stamp_of 0) 86400 = 1"
proof -
  have "tm_year (gmtime \<lfloor>0 :: real\<rfloor>) \<le> 9999" by code_simp
  then show ?thesis using stamp_round_trip [of 0 86400] by simp
qed

text \<open>
  Saying it again never makes it matter less: reinforcing a row at a stamp not older than its
  last one does not lower its salience at any later reading, and its text, status and speaker stay.
\<close>

theorem reinforcement_raises_salience:
  assumes "0 \<le> t" "tm_year (gmtime \<lfloor>t\<rfloor>) \<le> 9999" "t \<le> now"
    and "age_days (stamp_of t) now \<le> age_days (or_str (r_last_seen r) (or_str (r_ts r) [])) now"
  shows "salience r now \<le> salience (reinforce r (stamp_of t)) now
    \<and> row_ident (reinforce r (stamp_of t)) = row_ident r"
  using reinforce_salience [OF assms] by (simp add: row_simps)

theorem reinforcement_raises_salience_witness:
  "salience ((sample_row ''ep1'' ''I live in Leeds'' [])\<lparr>r_ts := Some (stamp_of 0)\<rparr>) 86400
     \<le> salience (reinforce ((sample_row ''ep1'' ''I live in Leeds'' [])\<lparr>r_ts := Some (stamp_of 0)\<rparr>) (stamp_of 0)) 86400"
proof -
  have y: "tm_year (gmtime \<lfloor>0 :: real\<rfloor>) \<le> 9999" by code_simp
  have n: "stamp_of 0 \<noteq> []" by code_simp
  show ?thesis
    using reinforcement_raises_salience [of 0 86400 "(sample_row ''ep1'' ''I live in Leeds'' [])\<lparr>r_ts := Some (stamp_of 0)\<rparr>"] y n
    by (simp add: sample_row_def blank_row_def or_str_def)
qed

text \<open>
  The framing tells what a row is: two rows that read back as the same sentence have the same
  text, and either both are inferences, or both are confirmed, or both are her own, or both are his
  testimony. Nothing inferred is ever rendered as something he said.
\<close>

theorem render_tells_status:
  assumes "render a = render b"
  shows "strip_prefix (row_text a) = strip_prefix (row_text b)
    \<and> (status_of a = STATUS_INFERRED \<longleftrightarrow> status_of b = STATUS_INFERRED)
    \<and> (status_of a = STATUS_CONFIRMED \<longleftrightarrow> status_of b = STATUS_CONFIRMED)
    \<and> (status_of a \<notin> {STATUS_INFERRED, STATUS_CONFIRMED} \<longrightarrow> (spk a = ''self'') = (spk b = ''self''))"
  using frame_text_inject [OF assms [unfolded render_def]]
  by (auto simp: framing_for_total spk_def STATUS_INFERRED_def STATUS_CONFIRMED_def split: if_split_asm)

theorem render_tells_status_witness:
  "status_of (sample_row ''ep1'' ''I live in Leeds'' ''observed'') \<noteq> STATUS_INFERRED"
proof -
  have r: "render (sample_row ''ep1'' ''I live in Leeds'' ''observed'') = render (sample_row ''ep2'' ''I live in Leeds'' ''disputed'')"
    by code_simp
  have "status_of (sample_row ''ep2'' ''I live in Leeds'' ''disputed'') \<noteq> STATUS_INFERRED" by code_simp
  then show ?thesis using render_tells_status [OF r] by simp
qed

section \<open>The law: slots, verdicts and the index\<close>

text \<open>
  Slot links only accumulate, and the shipped scan proposes but does not link: with frame review
  and no oracle a scan changes no linked pair, a ruling of the operator removes none, and a ruled
  pair leaves the review queue.
\<close>

theorem slots_only_accumulate:
  "(linked (scan_rows d orc False True False rows sc) a b \<longleftrightarrow> linked sc a b)
    \<and> (linked sc a b \<longrightarrow> linked (scan_rows d orc auto_f rev_f use_o rows sc) a b)
    \<and> (resolve x y v sc = Some sc' \<longrightarrow> (linked sc a b \<longrightarrow> linked sc' a b)
         \<and> (\<forall>l \<in> set (pending sc'). sc \<noteq> None \<longrightarrow> \<not> (l_a l = x \<and> l_b l = y)))"
proof -
  have "\<not> (l_a l = x \<and> l_b l = y)" if "resolve x y v sc = Some sc'" "sc \<noteq> None" "l \<in> set (pending sc')" for l
    using that resolve_clears [of x y v _ sc' l] by blast
  then show ?thesis
    using review_scan_links_nothing [of d orc rows sc a b] scan_rows_linked [of sc a b d orc auto_f rev_f use_o rows]
      resolve_linked [of x y v sc sc' a b] by blast
qed

theorem slots_only_accumulate_witness:
  "linked (the (resolve ''a'' ''b'' ''different'' (Some [mk_link ''a'' ''b'' ''same'' ''operator'']))) ''a'' ''b''"
proof -
  have "resolve ''a'' ''b'' ''different'' (Some [mk_link ''a'' ''b'' ''same'' ''operator''])
     = Some (the (resolve ''a'' ''b'' ''different'' (Some [mk_link ''a'' ''b'' ''same'' ''operator''])))"
    by (simp add: resolve_def)
  moreover have "linked (Some [mk_link ''a'' ''b'' ''same'' ''operator'']) ''a'' ''b''" by code_simp
  ultimately show ?thesis using slots_only_accumulate by blast
qed

text \<open>
  Enforcing the law only silences, and agrees with its shadow: the enforced list is the input
  without the rows the table rules out (an unmapped row stays), every dropped row is counted, and
  the shadow finds no divergence in what enforcement let through.
\<close>

theorem enforcement_silences_and_agrees:
  assumes "enforce True d sc ab tbl q scored rows st = (kept, st')" and "tbl \<noteq> []"
  shows "kept = filter (\<lambda>(s, e). case ruling d sc ab tbl e q rows of None \<Rightarrow> True | Some r \<Rightarrow> ru_seam r) scored
    \<and> length kept + st_drops st' = length scored + st_drops st
    \<and> st_divergent (shadow True d sc ab tbl q (map snd kept) rows st2) = st_divergent st2"
  using enforce_filter [of True d sc ab tbl q scored rows st] shadow_after_enforce [of d sc ab tbl q scored rows st kept st2]
    enforce_counts [of "\<lambda>e. ruling d sc ab tbl e q rows" scored st kept st'] assms
  by (simp add: enforce_def)

theorem enforcement_silences_and_agrees_witness:
  "fst (enforce True (\<lambda>t. t) None (\<lambda>q t. False)
      [((''user'', ''inferred'', 0, ''fact'', ''0'', ''.''), \<lparr>ru_seam = False, ru_spoken = False, ru_declined = False\<rparr>)]
      ''dog'' [(1, sample_row ''ep1'' ''My dog is called Max'' ''inferred'')] [] sample_stats) = []"
proof -
  let ?t = "[((''user'', ''inferred'', 0, ''fact'', ''0'', ''.''), \<lparr>ru_seam = False, ru_spoken = False, ru_declined = False\<rparr>)]"
  let ?e = "sample_row ''ep1'' ''My dog is called Max'' ''inferred''"
  have r: "ruling (\<lambda>t. t) None (\<lambda>q t. False) ?t ?e ''dog'' [] = Some \<lparr>ru_seam = False, ru_spoken = False, ru_declined = False\<rparr>"
    by code_simp
  obtain kept st' where k: "enforce True (\<lambda>t. t) None (\<lambda>q t. False) ?t ''dog'' [(1, ?e)] [] sample_stats = (kept, st')"
    by fastforce
  show ?thesis using enforcement_silences_and_agrees [OF k, of sample_stats] by (simp add: k r)
qed

text \<open>
  The semantic index covers the store after a backfill: with minting armed every live row with
  text is indexed, nothing is refused, minted plus skipped is the number of such rows, and a second
  backfill mints nothing and changes nothing.
\<close>

theorem backfill_covers_once:
  assumes "sem_enabled s" and "backfill digest sha1 ep rows s = ((m, k, f), s')"
  shows "f = 0 \<and> m + k = length (live_texts rows)
    \<and> (\<forall>r \<in> set (live_texts rows). indexed (load_index KNOWN_MODELS s') (reg_key digest r))
    \<and> (\<exists>k' f'. backfill digest sha1 ep rows s' = ((0, k', f'), s'))"
  using backfill_total [OF assms] backfill_again by blast

theorem backfill_covers_once_witness:
  "\<exists>k' f' s'. snd (backfill (\<lambda>t. t) (\<lambda>t. 0) (\<lambda>d. None) [sample_row ''ep1'' ''I live in Leeds'' []]
      \<lparr>x_path = ''idx'', x_armed = True, x_lines = None, x_dropped = 0\<rparr>) = s'
     \<and> backfill (\<lambda>t. t) (\<lambda>t. 0) (\<lambda>d. None) [sample_row ''ep1'' ''I live in Leeds'' []] s' = ((0, k', f'), s')"
proof -
  let ?s = "\<lparr>x_path = ''idx'', x_armed = True, x_lines = None, x_dropped = 0\<rparr>"
  obtain m k f s' where b: "backfill (\<lambda>t. t) (\<lambda>t. 0) (\<lambda>d. None) [sample_row ''ep1'' ''I live in Leeds'' []] ?s = ((m, k, f), s')"
    by (metis prod.exhaust)
  have "sem_enabled ?s" by (simp add: sem_enabled_def)
  from backfill_covers_once [OF this b] show ?thesis by (simp add: b)
qed

end
